(* ===== verification/Flux_Prelude.thy ===== *)
theory Flux_Prelude
  imports Main
begin

text \<open>
  Shared vocabulary of the development: the Go error values of the program, loops with early
  return, and the lemmas on them that the component proofs use.

  Go errors are a tree: \<open>fmt.Errorf\<close> without \<open>%w\<close> makes a leaf, with \<open>%w\<close> it wraps the
  error below it, and the program has four wrapper types of its own (\<open>values.FetchError\<close>,
  \<open>values.AccessError\<close>, \<open>render.Error\<close> and the terminal errors of controller-runtime).
  The format string and its arguments are kept apart: no code of the repository looks into the
  rendered message, only \<open>errors.As\<close> and \<open>apierrors.IsNotFound\<close> look into the tree. \<open>ExtErr\<close> and
  \<open>NotFoundErr\<close> are errors of code outside the repository; \<open>Panicked\<close> is a run-time panic (a type
  assertion that fails), which the models make a branch of its own so that its absence is a lemma.
\<close>

named_theorems go_defs \<open>definitions that an evaluation of the model unfolds\<close>
named_theorems wf_intros \<open>well-formedness of the values the operations build\<close>
named_theorems loop_simps \<open>equations of the loops\<close>

section \<open>Errors\<close>

datatype farg = AStr string | AInt int

datatype goerr =
    Errorf string "farg list"
  | Wrapf string "farg list" goerr
  | FetchError goerr
  | AccessError goerr
  | RenderError string goerr
  | TerminalError goerr
  | NotFoundErr string
  | ExtErr string
  | Panicked string

type_synonym 'a res = "goerr + 'a"

text \<open>The chain that \<open>errors.Unwrap\<close> walks, outermost first.\<close>

fun err_chain :: "goerr \<Rightarrow> goerr list" where
  "err_chain (Wrapf f as e) = Wrapf f as e # err_chain e"
| "err_chain (FetchError e) = FetchError e # err_chain e"
| "err_chain (AccessError e) = AccessError e # err_chain e"
| "err_chain (RenderError t e) = RenderError t e # err_chain e"
| "err_chain (TerminalError e) = TerminalError e # err_chain e"
| "err_chain e = [e]"

fun is_AccessError :: "goerr \<Rightarrow> bool" where
  "is_AccessError (AccessError e) = True"
| "is_AccessError e = False"

fun is_FetchError :: "goerr \<Rightarrow> bool" where
  "is_FetchError (FetchError e) = True"
| "is_FetchError e = False"

fun is_RenderError :: "goerr \<Rightarrow> bool" where
  "is_RenderError (RenderError t e) = True"
| "is_RenderError e = False"

fun is_NotFoundErr :: "goerr \<Rightarrow> bool" where
  "is_NotFoundErr (NotFoundErr n) = True"
| "is_NotFoundErr e = False"

text \<open>\<open>errors.As(err, &target)\<close>: some error of the chain has the target's type.\<close>

definition as_access :: "goerr \<Rightarrow> bool" where
  "as_access e = list_ex is_AccessError (err_chain e)"

definition as_fetch :: "goerr \<Rightarrow> bool" where
  "as_fetch e = list_ex is_FetchError (err_chain e)"

definition as_render :: "goerr \<Rightarrow> bool" where
  "as_render e = list_ex is_RenderError (err_chain e)"

definition as_not_found :: "goerr \<Rightarrow> bool" where
  "as_not_found e = list_ex is_NotFoundErr (err_chain e)"

lemma as_access_simps [simp]:
  "as_access (Errorf f as) = False"
  "as_access (Wrapf f as e) = as_access e"
  "as_access (FetchError e) = as_access e"
  "as_access (AccessError e) = True"
  "as_access (RenderError t e) = as_access e"
  "as_access (TerminalError e) = as_access e"
  "as_access (NotFoundErr n) = False"
  "as_access (ExtErr n) = False"
  "as_access (Panicked n) = False"
  by (simp_all add: as_access_def)

lemma as_fetch_simps [simp]:
  "as_fetch (Errorf f as) = False"
  "as_fetch (Wrapf f as e) = as_fetch e"
  "as_fetch (FetchError e) = True"
  "as_fetch (AccessError e) = as_fetch e"
  "as_fetch (RenderError t e) = as_fetch e"
  "as_fetch (TerminalError e) = as_fetch e"
  "as_fetch (NotFoundErr n) = False"
  "as_fetch (ExtErr n) = False"
  "as_fetch (Panicked n) = False"
  by (simp_all add: as_fetch_def)

lemma as_render_simps [simp]:
  "as_render (Errorf f as) = False"
  "as_render (Wrapf f as e) = as_render e"
  "as_render (FetchError e) = as_render e"
  "as_render (AccessError e) = as_render e"
  "as_render (RenderError t e) = True"
  "as_render (TerminalError e) = as_render e"
  "as_render (NotFoundErr n) = False"
  "as_render (ExtErr n) = False"
  "as_render (Panicked n) = False"
  by (simp_all add: as_render_def)

lemma as_not_found_simps [simp]:
  "as_not_found (Errorf f as) = False"
  "as_not_found (Wrapf f as e) = as_not_found e"
  "as_not_found (FetchError e) = as_not_found e"
  "as_not_found (AccessError e) = as_not_found e"
  "as_not_found (RenderError t e) = as_not_found e"
  "as_not_found (TerminalError e) = as_not_found e"
  "as_not_found (NotFoundErr n) = True"
  "as_not_found (ExtErr n) = False"
  "as_not_found (Panicked n) = False"
  by (simp_all add: as_not_found_def)

section \<open>Results\<close>

fun is_ok :: "'a res \<Rightarrow> bool" where
  "is_ok (Inr v) = True"
| "is_ok (Inl e) = False"

lemma is_ok_iff: "is_ok r \<longleftrightarrow> (\<exists>v. r = Inr v)"
  by (cases r) auto

lemma not_is_ok_iff: "\<not> is_ok r \<longleftrightarrow> (\<exists>e. r = Inl e)"
  by (cases r) auto

text \<open>Wrapping the error of a call: \<open>return nil, fmt.Errorf("...: %w", err)\<close>.\<close>

definition wrap_err :: "string \<Rightarrow> farg list \<Rightarrow> 'a res \<Rightarrow> 'a res" where
  "wrap_err f as r = (case r of Inl e \<Rightarrow> Inl (Wrapf f as e) | Inr v \<Rightarrow> Inr v)"

lemma wrap_err_simps [simp]:
  "wrap_err f as (Inr v) = Inr v"
  "wrap_err f as (Inl e) = Inl (Wrapf f as e)"
  by (simp_all add: wrap_err_def)

lemma wrap_err_Inr [simp]: "wrap_err f as r = Inr v \<longleftrightarrow> r = Inr v"
  by (cases r) simp_all

lemma wrap_err_Inl: "wrap_err f as r = Inl e \<longleftrightarrow> (\<exists>e'. r = Inl e' \<and> e = Wrapf f as e')"
  by (cases r) auto

section \<open>Loops with early return\<close>

text \<open>
  \<open>for _, x := range xs { body }\<close> where the body updates the loop's state or returns an error.
\<close>

fun loopE :: "('a \<Rightarrow> 's \<Rightarrow> 'e + 's) \<Rightarrow> 'a list \<Rightarrow> 's \<Rightarrow> 'e + 's" where
  "loopE f [] s = Inr s"
| "loopE f (x # xs) s = (case f x s of Inl e \<Rightarrow> Inl e | Inr s' \<Rightarrow> loopE f xs s')"

lemma loopE_append:
  "loopE f (xs @ ys) s = (case loopE f xs s of Inl e \<Rightarrow> Inl e | Inr s' \<Rightarrow> loopE f ys s')"
  by (induction xs arbitrary: s) (auto split: sum.splits)

lemma loopE_snoc:
  "loopE f (xs @ [x]) s = (case loopE f xs s of Inl e \<Rightarrow> Inl e | Inr s' \<Rightarrow> f x s')"
  by (simp add: loopE_append split: sum.splits)

text \<open>The invariant rule: the invariant may mention the elements already processed.\<close>

lemma loopE_prefix:
  assumes "loopE f xs s = Inr t" and "I [] s"
    and step: "\<And>ys y zs u v. xs = ys @ y # zs \<Longrightarrow> I ys u \<Longrightarrow> f y u = Inr v \<Longrightarrow> I (ys @ [y]) v"
  shows "I xs t"
  using assms
proof (induction xs arbitrary: t rule: rev_induct)
  case Nil
  then show ?case by simp
next
  case (snoc x xs)
  from snoc.prems(1) obtain u where u: "loopE f xs s = Inr u" and fx: "f x u = Inr t"
    by (auto simp: loopE_snoc split: sum.splits)
  have "I xs u"
    by (rule snoc.IH [OF u snoc.prems(2)]) (use snoc.prems(3) in auto)
  then show ?case using snoc.prems(3) [of xs x "[]" u t] fx by simp
qed

lemma loopE_inv:
  assumes "loopE f xs s = Inr t" and "I s"
    and "\<And>x u v. x \<in> set xs \<Longrightarrow> I u \<Longrightarrow> f x u = Inr v \<Longrightarrow> I v"
  shows "I t"
  by (rule loopE_prefix [OF assms(1), where I = "\<lambda>_ s. I s"]) (use assms(2,3) in auto)

text \<open>A loop fails at the first element whose body fails, in the state reached so far.\<close>

lemma loopE_fail:
  assumes "loopE f xs s = Inl e"
  obtains ys y zs u where "xs = ys @ y # zs" "loopE f ys s = Inr u" "f y u = Inl e"
  using assms
proof (induction xs arbitrary: thesis rule: rev_induct)
  case Nil
  then show ?case by simp
next
  case (snoc x xs)
  show ?case
  proof (cases "loopE f xs s")
    case (Inl e')
    with snoc.prems(2) have e: "loopE f xs s = Inl e"
      by (simp add: loopE_snoc)
    show ?thesis
    proof (rule snoc.IH [OF _ e])
      fix ys y zs u
      assume "xs = ys @ y # zs" "loopE f ys s = Inr u" "f y u = Inl e"
      then show thesis using snoc.prems(1) [of ys y "zs @ [x]" u] by simp
    qed
  next
    case (Inr u)
    with snoc.prems(2) have "f x u = Inl e" by (simp add: loopE_snoc)
    with Inr show ?thesis using snoc.prems(1) [of xs x "[]" u] by simp
  qed
qed

lemma loopE_Inl: "loopE f xs s = Inl e \<Longrightarrow> \<exists>x u. x \<in> set xs \<and> f x u = Inl e"
  by (erule loopE_fail) auto

lemma loopE_total:
  assumes "\<And>x u. x \<in> set xs \<Longrightarrow> is_ok (f x u)"
  shows "is_ok (loopE f xs s)"
  using assms
proof (induction xs arbitrary: s)
  case Nil
  then show ?case by simp
next
  case (Cons x xs)
  from Cons.prems [of x s] obtain u where "f x s = Inr u" by (auto simp: is_ok_iff)
  then show ?case using Cons by simp
qed

lemma loopE_cong:
  assumes "\<And>x u. x \<in> set xs \<Longrightarrow> f x u = g x u"
  shows "loopE f xs s = loopE g xs s"
  using assms by (induction xs arbitrary: s) (auto split: sum.splits)

text \<open>A loop whose body never fails is a fold.\<close>

lemma loopE_Inr_fold:
  assumes "\<And>x u. x \<in> set xs \<Longrightarrow> f x u = Inr (g x u)"
  shows "loopE f xs s = Inr (fold g xs s)"
  using assms by (induction xs arbitrary: s) auto

text \<open>A loop that appends the value of each element.\<close>

lemma loopE_collect:
  assumes "loopE (\<lambda>x out. case h x of Inl e \<Rightarrow> Inl (w x e) | Inr v \<Rightarrow> Inr (out @ [v])) xs s = Inr t"
  shows "\<exists>vs. t = s @ vs \<and> list_all2 (\<lambda>x v. h x = Inr v) xs vs"
  using assms
proof (induction xs arbitrary: s)
  case Nil
  then show ?case by simp
next
  case (Cons x xs)
  from Cons.prems obtain v where v: "h x = Inr v"
    by (auto split: sum.splits)
  with Cons.prems Cons.IH [of "s @ [v]"] obtain vs
    where "t = (s @ [v]) @ vs" "list_all2 (\<lambda>x v. h x = Inr v) xs vs" by auto
  with v show ?case by (intro exI [of _ "v # vs"]) simp
qed

section \<open>Lists\<close>

lemma enumerate_split:
  assumes "enumerate n xs = ys @ (i, y) # zs"
  shows "i = n + length ys" and "i - n < length xs" and "y = xs ! (i - n)"
proof -
  have len: "length xs = length ys + Suc (length zs)"
    using arg_cong [OF assms, of length] by simp
  have "enumerate n xs ! length ys = (i, y)"
    by (simp add: assms)
  then have "(n + length ys, xs ! length ys) = (i, y)"
    using len by (simp add: nth_enumerate_eq)
  then show "i = n + length ys" and "i - n < length xs" and "y = xs ! (i - n)"
    using len by auto
qed

lemma list_all2_right: "list_all2 P xs ys \<Longrightarrow> y \<in> set ys \<Longrightarrow> \<exists>x \<in> set xs. P x y"
  by (induction rule: list_all2_induct) auto

lemma filter_True_id: "(\<And>x. x \<in> set xs \<Longrightarrow> P x) \<Longrightarrow> filter P xs = xs"
  by (induction xs) auto

section \<open>Tables\<close>

text \<open>The entries of a table that holds one result per row and column.\<close>

lemma list_all2_mem:
  assumes "list_all2 R ys os" and "\<And>y u v. R y u \<Longrightarrow> R y v \<Longrightarrow> u = v"
  shows "v \<in> set os \<longleftrightarrow> (\<exists>y \<in> set ys. R y v)"
  using assms(1) by (induction rule: list_all2_induct) (auto dest: assms(2))

lemma list_all2_concat_mem:
  assumes "list_all2 (\<lambda>x. list_all2 (R x) ys) xs oss" and "\<And>x y u v. R x y u \<Longrightarrow> R x y v \<Longrightarrow> u = v"
  shows "v \<in> set (concat oss) \<longleftrightarrow> (\<exists>x \<in> set xs. \<exists>y \<in> set ys. R x y v)"
  using assms(1)
proof (induction rule: list_all2_induct)
  case (Cons x xs os oss)
  then show ?case using list_all2_mem [OF Cons.hyps(1) assms(2)] by auto
qed simp

end
