(* ===== verification/Go_Strings.thy ===== *)
theory Go_Strings
  imports Flux_Prelude "HOL-Library.List_Lexorder" "HOL-Library.Char_ord" "HOL-Library.Code_Target_Nat"
begin

text \<open>
  The functions of Go's standard library on strings that the program uses: \<open>strings\<close>,
  \<open>strconv.ParseBool\<close> and the decimal and hexadecimal formats of \<open>fmt\<close>. A Go string is a byte
  sequence, so it is a HOL \<open>string\<close> (a \<open>char\<close> is a byte), and the lexicographic order of
  \<open>HOL-Library.List_Lexorder\<close> over \<open>Char_ord\<close> is Go's order on strings, the one \<open>sort.Strings\<close>
  and \<open>slices.Sort\<close> sort by.
\<close>

section \<open>Prefixes and suffixes\<close>

definition has_prefix :: "string \<Rightarrow> string \<Rightarrow> bool" where
  "has_prefix s p \<longleftrightarrow> take (length p) s = p"

definition trim_prefix :: "string \<Rightarrow> string \<Rightarrow> string" where
  "trim_prefix s p = (if has_prefix s p then drop (length p) s else s)"

definition has_suffix :: "string \<Rightarrow> string \<Rightarrow> bool" where
  "has_suffix s p \<longleftrightarrow> has_prefix (rev s) (rev p)"

definition trim_suffix :: "string \<Rightarrow> string \<Rightarrow> string" where
  "trim_suffix s p = (if has_suffix s p then take (length s - length p) s else s)"

lemma has_prefix_iff: "has_prefix s p \<longleftrightarrow> (\<exists>r. s = p @ r)"
  by (metis append_eq_conv_conj append_take_drop_id has_prefix_def)

lemma has_prefix_append [simp]: "has_prefix (p @ r) p"
  by (simp add: has_prefix_def)

lemma has_prefix_Cons [simp]: "has_prefix (c # s) (d # p) \<longleftrightarrow> c = d \<and> has_prefix s p"
  by (auto simp: has_prefix_def)

lemma has_prefix_Nil [simp]: "has_prefix s []" "has_prefix [] p \<longleftrightarrow> p = []"
  by (auto simp: has_prefix_def)

lemma trim_prefix_append [simp]: "trim_prefix (p @ r) p = r"
  by (simp add: trim_prefix_def)

lemma has_prefix_trim: "has_prefix s p \<Longrightarrow> s = p @ trim_prefix s p"
  by (auto simp: has_prefix_iff)

lemma has_suffix_iff: "has_suffix s p \<longleftrightarrow> (\<exists>r. s = r @ p)"
  unfolding has_suffix_def has_prefix_iff by (metis rev_append rev_rev_ident)

section \<open>Searching\<close>

text \<open>\<open>strings.IndexByte\<close>: the first position of a byte, or \<open>-1\<close>.\<close>

fun index_byte :: "string \<Rightarrow> char \<Rightarrow> int" where
  "index_byte [] c = -1"
| "index_byte (x # xs) c =
     (if x = c then 0 else let i = index_byte xs c in if i < 0 then -1 else i + 1)"

lemma index_byte_none [simp]: "c \<notin> set s \<Longrightarrow> index_byte s c = -1"
  by (induction s) auto

lemma index_byte_first: "c \<notin> set s \<Longrightarrow> index_byte (s @ c # t) c = int (length s)"
  by (induction s) auto

lemma index_byte_cases:
  obtains (absent) "c \<notin> set s" "index_byte s c = -1"
  | (found) a b where "s = a @ c # b" "c \<notin> set a" "index_byte s c = int (length a)"
proof (cases "c \<in> set s")
  case True
  then obtain a b where "s = a @ c # b" "c \<notin> set a" by (meson split_list_first)
  then show ?thesis using found by (simp add: index_byte_first)
next
  case False
  then show ?thesis using absent by simp
qed

text \<open>\<open>strings.ContainsAny\<close> over ASCII characters, and \<open>strings.Contains\<close> of one byte.\<close>

definition contains_any :: "string \<Rightarrow> string \<Rightarrow> bool" where
  "contains_any s cs = list_ex (\<lambda>c. List.member cs c) s"

definition contains_byte :: "string \<Rightarrow> char \<Rightarrow> bool" where
  "contains_byte s c = List.member s c"

section \<open>Splitting and joining at one byte\<close>

text \<open>\<open>strings.Split(s, sep)\<close> and \<open>strings.SplitN(s, sep, 2)\<close> for a separator of one byte.\<close>

fun split_on :: "char \<Rightarrow> string \<Rightarrow> string list" where
  "split_on c [] = [[]]"
| "split_on c (x # xs) =
     (if x = c then [] # split_on c xs
      else case split_on c xs of [] \<Rightarrow> [[x]] | seg # segs \<Rightarrow> (x # seg) # segs)"

fun join_with :: "char \<Rightarrow> string list \<Rightarrow> string" where
  "join_with c [] = []"
| "join_with c [s] = s"
| "join_with c (s # t # ss) = s @ c # join_with c (t # ss)"

fun splitn2 :: "char \<Rightarrow> string \<Rightarrow> string list" where
  "splitn2 c [] = [[]]"
| "splitn2 c (x # xs) =
     (if x = c then [[], xs]
      else case splitn2 c xs of [] \<Rightarrow> [[x]] | seg # segs \<Rightarrow> (x # seg) # segs)"

lemma split_on_not_Nil [simp]: "split_on c s \<noteq> []"
  by (induction s) (auto split: list.splits)

lemma splitn2_not_Nil [simp]: "splitn2 c s \<noteq> []"
  by (induction s) (auto split: list.splits)

lemma split_on_no_sep [simp]: "c \<notin> set s \<Longrightarrow> split_on c s = [s]"
  by (induction s) auto

lemma split_on_append: "c \<notin> set s \<Longrightarrow> split_on c (s @ c # t) = s # split_on c t"
  by (induction s) auto

lemma split_on_append_gen: "split_on c (s @ c # t) = split_on c s @ split_on c t"
  by (induction s) (auto split: list.splits)

lemma split_on_segs: "seg \<in> set (split_on c s) \<Longrightarrow> c \<notin> set seg"
proof (induction s arbitrary: seg)
  case Nil
  then show ?case by simp
next
  case (Cons x xs)
  then show ?case by (auto split: if_splits list.splits)
qed

lemma join_split: "join_with c (split_on c s) = s"
proof (induction s)
  case Nil
  then show ?case by simp
next
  case (Cons x xs)
  obtain seg segs where sp: "split_on c xs = seg # segs"
    by (meson neq_Nil_conv split_on_not_Nil)
  then show ?case using Cons by (cases segs) auto
qed

lemma split_join:
  "ss \<noteq> [] \<Longrightarrow> (\<And>s. s \<in> set ss \<Longrightarrow> c \<notin> set s) \<Longrightarrow> split_on c (join_with c ss) = ss"
  by (induction c ss rule: join_with.induct) (simp_all add: split_on_append)

lemma splitn2_no_sep [simp]: "c \<notin> set s \<Longrightarrow> splitn2 c s = [s]"
  by (induction s) auto

lemma splitn2_append: "c \<notin> set s \<Longrightarrow> splitn2 c (s @ c # t) = [s, t]"
  by (induction s) auto

text \<open>The first separator splits a string in one way only.\<close>

lemma first_sep_unique:
  fixes a :: string
  assumes "c \<notin> set a" and "c \<notin> set b"
  shows "a @ c # r = b @ c # q \<longleftrightarrow> a = b \<and> r = q"
proof
  assume "a @ c # r = b @ c # q"
  then have "splitn2 c (a @ c # r) = splitn2 c (b @ c # q)" by simp
  then show "a = b \<and> r = q" using assms by (simp add: splitn2_append)
qed simp

section \<open>White space\<close>

text \<open>
  \<open>strings.TrimSpace\<close> removes the code points of \<open>unicode.IsSpace\<close> at both ends. In UTF-8 they
  are the six ASCII bytes and the encodings of U+0085, U+00A0, U+1680, U+2000 to U+200A, U+2028,
  U+2029, U+202F, U+205F and U+3000. UTF-8 is self-synchronising, so removing a code point at
  an end is removing its encoding.
\<close>

definition space_encodings :: "string list" where
  "space_encodings =
     [[CHR 0x09], [CHR 0x0A], [CHR 0x0B], [CHR 0x0C], [CHR 0x0D], [CHR 0x20],
      [CHR 0xC2, CHR 0x85], [CHR 0xC2, CHR 0xA0], [CHR 0xE1, CHR 0x9A, CHR 0x80],
      [CHR 0xE2, CHR 0x80, CHR 0x80], [CHR 0xE2, CHR 0x80, CHR 0x81],
      [CHR 0xE2, CHR 0x80, CHR 0x82], [CHR 0xE2, CHR 0x80, CHR 0x83],
      [CHR 0xE2, CHR 0x80, CHR 0x84], [CHR 0xE2, CHR 0x80, CHR 0x85],
      [CHR 0xE2, CHR 0x80, CHR 0x86], [CHR 0xE2, CHR 0x80, CHR 0x87],
      [CHR 0xE2, CHR 0x80, CHR 0x88], [CHR 0xE2, CHR 0x80, CHR 0x89],
      [CHR 0xE2, CHR 0x80, CHR 0x8A], [CHR 0xE2, CHR 0x80, CHR 0xA8],
      [CHR 0xE2, CHR 0x80, CHR 0xA9], [CHR 0xE2, CHR 0x80, CHR 0xAF],
      [CHR 0xE2, CHR 0x81, CHR 0x9F], [CHR 0xE3, CHR 0x80, CHR 0x80]]"

definition leading :: "string list \<Rightarrow> string \<Rightarrow> string option" where
  "leading ps s = find (\<lambda>p. p \<noteq> [] \<and> has_prefix s p) ps"

lemma leading_Some: "leading ps s = Some p \<Longrightarrow> p \<in> set ps \<and> p \<noteq> [] \<and> has_prefix s p"
  by (auto simp: leading_def find_Some_iff)

lemma leading_shorter: "leading ps s = Some p \<Longrightarrow> length (drop (length p) s) < length s"
  by (drule leading_Some) (auto simp: has_prefix_iff)

function strip_leading :: "string list \<Rightarrow> string \<Rightarrow> string" where
  "strip_leading ps s =
     (case leading ps s of None \<Rightarrow> s | Some p \<Rightarrow> strip_leading ps (drop (length p) s))"
  by pat_completeness auto
termination
  by (relation "measure (length \<circ> snd)") (auto dest: leading_shorter)

declare strip_leading.simps [simp del]

definition trim_space :: "string \<Rightarrow> string" where
  "trim_space s =
     rev (strip_leading (map rev space_encodings) (rev (strip_leading space_encodings s)))"

lemma strip_leading_done: "leading ps (strip_leading ps s) = None"
proof (induction ps s rule: strip_leading.induct)
  case (1 ps s)
  then show ?case by (subst strip_leading.simps) (auto split: option.splits)
qed

lemma strip_leading_none: "leading ps s = None \<Longrightarrow> strip_leading ps s = s"
  by (subst strip_leading.simps) simp

lemma strip_leading_suffix: "\<exists>p. s = p @ strip_leading ps s"
proof (induction ps s rule: strip_leading.induct)
  case (1 ps s)
  show ?case
  proof (cases "leading ps s")
    case None
    then show ?thesis by (simp add: strip_leading_none)
  next
    case (Some p)
    then obtain q where "drop (length p) s = q @ strip_leading ps (drop (length p) s)"
      using "1" by blast
    then have "s = (take (length p) s @ q) @ strip_leading ps (drop (length p) s)"
      by (metis append.assoc append_take_drop_id)
    moreover have "strip_leading ps s = strip_leading ps (drop (length p) s)"
      using Some by (subst strip_leading.simps) simp
    ultimately show ?thesis by metis
  qed
qed

lemma strip_leading_Nil [simp]: "strip_leading ps [] = []"
  using strip_leading_suffix [of "[]" ps] by simp

lemma trim_space_Nil [simp]: "trim_space [] = []"
  by (simp add: trim_space_def)

text \<open>The trimmed string is a contiguous part of the argument.\<close>

lemma trim_space_part: "\<exists>p q. s = p @ trim_space s @ q"
proof -
  let ?t = "strip_leading space_encodings s"
  obtain p where p: "s = p @ ?t" using strip_leading_suffix by blast
  obtain r where "rev ?t = r @ strip_leading (map rev space_encodings) (rev ?t)"
    using strip_leading_suffix by blast
  then have "?t = trim_space s @ rev r"
    unfolding trim_space_def by (metis rev_append rev_rev_ident)
  with p have "s = p @ trim_space s @ rev r" by metis
  then show ?thesis by blast
qed

section \<open>Case folding\<close>

text \<open>
  \<open>strings.ToLower\<close> as far as a comparison with an ASCII word can tell: the ASCII letters, and the
  two code points outside ASCII whose lower case is an ASCII letter, U+0130 (\<open>i\<close>) and U+212A
  (\<open>k\<close>). Every other code point outside ASCII maps to one outside ASCII, which no ASCII word
  contains; the model leaves its bytes unchanged.
\<close>

definition lower_byte :: "char \<Rightarrow> char" where
  "lower_byte c =
     (let n = of_char c :: nat in if 65 \<le> n \<and> n \<le> 90 then char_of (n + 32) else c)"

fun to_lower :: "string \<Rightarrow> string" where
  "to_lower [] = []"
| "to_lower (c # cs) =
     (if c = CHR 0xC4 \<and> has_prefix cs [CHR 0xB0] then CHR ''i'' # to_lower (drop 1 cs)
      else if c = CHR 0xE2 \<and> has_prefix cs [CHR 0x84, CHR 0xAA]
        then CHR ''k'' # to_lower (drop 2 cs)
      else lower_byte c # to_lower cs)"

section \<open>Booleans and numbers\<close>

text \<open>\<open>strconv.ParseBool\<close>; \<open>None\<close> is its syntax error.\<close>

definition parse_bool :: "string \<Rightarrow> bool option" where
  "parse_bool s =
     (if s \<in> set [''1'', ''t'', ''T'', ''TRUE'', ''true'', ''True''] then Some True
      else if s \<in> set [''0'', ''f'', ''F'', ''FALSE'', ''false'', ''False''] then Some False
      else None)"

definition digit_char :: "nat \<Rightarrow> char" where
  "digit_char d = (if d < 10 then char_of (48 + d) else char_of (87 + d))"

text \<open>\<open>%d\<close> of a natural number and \<open>%x\<close>, in base 10 and 16.\<close>

fun fmt_base :: "nat \<Rightarrow> nat \<Rightarrow> string" where
  "fmt_base b n =
     (if b < 2 \<or> n < b then [digit_char n] else fmt_base b (n div b) @ [digit_char (n mod b)])"

declare fmt_base.simps [simp del]

definition fmt_d :: "nat \<Rightarrow> string" where
  "fmt_d n = fmt_base 10 n"

definition fmt_x :: "nat \<Rightarrow> string" where
  "fmt_x n = fmt_base 16 n"

lemmas go_string_eval = strip_leading.simps fmt_base.simps leading_def space_encodings_def
  trim_space_def has_prefix_def trim_prefix_def has_suffix_def trim_suffix_def
  contains_any_def contains_byte_def parse_bool_def digit_char_def fmt_d_def fmt_x_def
  lower_byte_def

end
