(* ===== verification/Go_Value.thy ===== *)
theory Go_Value
  imports Go_Strings "HOL-Library.Word" "HOL-Library.Multiset"
begin

text \<open>
  The Go values that flow through the controller: the \<open>any\<close> trees a YAML or JSON decoder builds
  (\<open>nil\<close>, booleans, \<open>float64\<close> numbers, strings, \<open>[]any\<close> and \<open>map[string]any\<close>), the byte slices of
  \<open>load\<close> with \<open>format: raw\<close> and the \<open>int\<close> indexes the iterating verbs bind.

  A Go map is an association list with strictly increasing keys: one list per map, so that
  equality of HOL values is deep equality of Go values. The interface of maps is a locale; its
  laws are discharged for the association lists here, and everything above this theory uses
  the laws. Go iterates over a map in a random order; the laws of the locale say when that order
  does not matter.
\<close>

datatype gval =
    VNil
  | VBool bool
  | VInt int
  | VFloat "64 word"
  | VStr string
  | VBytes string
  | VList "gval list"
  | VMap "(string \<times> gval) list"

type_synonym 'v gmap = "(string \<times> 'v) list"

text \<open>The \<open>%T\<close> of a value.\<close>

fun go_type :: "gval \<Rightarrow> string" where
  "go_type VNil = ''<nil>''"
| "go_type (VBool b) = ''bool''"
| "go_type (VInt i) = ''int''"
| "go_type (VFloat f) = ''float64''"
| "go_type (VStr s) = ''string''"
| "go_type (VBytes s) = ''[]uint8''"
| "go_type (VList vs) = ''[]interface {}''"
| "go_type (VMap m) = ''map[string]interface {}''"

fun is_VMap :: "gval \<Rightarrow> bool" where
  "is_VMap (VMap m) = True"
| "is_VMap v = False"

fun is_VList :: "gval \<Rightarrow> bool" where
  "is_VList (VList vs) = True"
| "is_VList v = False"

lemma is_VMap_iff: "is_VMap v \<longleftrightarrow> (\<exists>m. v = VMap m)"
  by (cases v) auto

section \<open>The interface of maps\<close>

text \<open>
  What the program relies on when it reads and writes a map. \<open>inv\<close> is the representation
  invariant, \<open>keys\<close> the keys in the representation's order.
\<close>

locale go_map =
  fixes empty :: 'm
    and get :: "'m \<Rightarrow> 'k \<Rightarrow> 'v option"
    and put :: "'k \<Rightarrow> 'v \<Rightarrow> 'm \<Rightarrow> 'm"
    and keys :: "'m \<Rightarrow> 'k list"
    and inv :: "'m \<Rightarrow> bool"
  assumes get_empty: "get empty k = None"
    and get_put: "inv m \<Longrightarrow> get (put k v m) k' = (if k' = k then Some v else get m k')"
    and inv_empty: "inv empty"
    and inv_put: "inv m \<Longrightarrow> inv (put k v m)"
    and keys_dom: "inv m \<Longrightarrow> set (keys m) = {k. get m k \<noteq> None}"
    and ext: "inv m \<Longrightarrow> inv m' \<Longrightarrow> (\<And>k. get m k = get m' k) \<Longrightarrow> m = m'"
begin

lemma get_put_same [simp]: "inv m \<Longrightarrow> get (put k v m) k = Some v"
  by (simp add: get_put)

lemma get_put_other: "inv m \<Longrightarrow> k' \<noteq> k \<Longrightarrow> get (put k v m) k' = get m k'"
  by (simp add: get_put)

lemma put_put_same: "inv m \<Longrightarrow> put k v (put k w m) = put k v m"
  by (rule ext) (auto simp: get_put inv_put)

lemma put_commute: "inv m \<Longrightarrow> k \<noteq> l \<Longrightarrow> put k v (put l w m) = put l w (put k v m)"
  by (rule ext) (auto simp: get_put inv_put)

lemma inv_fold_put: "inv m \<Longrightarrow> inv (fold (\<lambda>(k, v). put k v) kvs m)"
  by (induction kvs arbitrary: m) (auto simp: inv_put)

lemma get_fold_put:
  "inv m \<Longrightarrow> get (fold (\<lambda>(k, v). put k v) kvs m) k =
     (case map_of (rev kvs) k of None \<Rightarrow> get m k | Some v \<Rightarrow> Some v)"
  by (induction kvs rule: rev_induct) (auto simp: get_put inv_fold_put)

text \<open>
  A loop that writes one entry per key of a map with distinct keys builds the same map in
  every iteration order.
\<close>

lemma fold_put_perm:
  assumes "inv m" and "distinct (map fst kvs)" and "mset kvs' = mset kvs"
  shows "fold (\<lambda>(k, v). put k v) kvs' m = fold (\<lambda>(k, v). put k v) kvs m"
proof (rule ext)
  have "mset (map fst kvs') = mset (map fst kvs)" using assms(3) by simp
  then have d': "distinct (map fst kvs')" using assms(2) mset_eq_imp_distinct_iff by blast
  have "set (rev kvs') = set (rev kvs)" using mset_eq_setD [OF assms(3)] by simp
  moreover have "distinct (map fst (rev kvs'))" "distinct (map fst (rev kvs))"
    using assms(2) d' by (simp_all add: rev_map [symmetric])
  ultimately have "map_of (rev kvs') = map_of (rev kvs)" by (simp only: map_of_inject_set)
  then show "get (fold (\<lambda>(k, v). put k v) kvs' m) k = get (fold (\<lambda>(k, v). put k v) kvs m) k" for k
    by (simp add: get_fold_put assms(1))
qed (simp_all add: inv_fold_put assms(1))

end

section \<open>Maps as sorted association lists\<close>

fun mput :: "string \<Rightarrow> 'v \<Rightarrow> 'v gmap \<Rightarrow> 'v gmap" where
  "mput k v [] = [(k, v)]"
| "mput k v ((k', v') # m) =
     (if k < k' then (k, v) # (k', v') # m
      else if k = k' then (k, v) # m
      else (k', v') # mput k v m)"

definition mget :: "'v gmap \<Rightarrow> string \<Rightarrow> 'v option" where
  "mget m k = map_of m k"

definition mkeys :: "'v gmap \<Rightarrow> string list" where
  "mkeys m = map fst m"

definition keys_ok :: "'v gmap \<Rightarrow> bool" where
  "keys_ok m \<longleftrightarrow> sorted_wrt (<) (mkeys m)"

lemma mget_simps [simp]:
  "mget [] k = None"
  "mget ((k', v) # m) k = (if k = k' then Some v else mget m k)"
  by (auto simp: mget_def)

lemma mkeys_simps [simp]: "mkeys [] = []" "mkeys (kv # m) = fst kv # mkeys m"
  by (simp_all add: mkeys_def)

lemma keys_ok_simps [simp]:
  "keys_ok []"
  "keys_ok ((k, v) # m) \<longleftrightarrow> (\<forall>k' \<in> set (mkeys m). k < k') \<and> keys_ok m"
  by (simp_all add: keys_ok_def)

lemma set_mkeys_mput: "set (mkeys (mput k v m)) = insert k (set (mkeys m))"
  by (induction k v m rule: mput.induct) auto

lemma keys_ok_mput [wf_intros]: "keys_ok m \<Longrightarrow> keys_ok (mput k v m)"
  by (induction k v m rule: mput.induct)
    (auto simp: set_mkeys_mput not_less_iff_gr_or_eq intro: less_trans)

lemma mget_mput: "mget (mput k v m) k' = (if k' = k then Some v else mget m k')"
  by (induction k v m rule: mput.induct) auto

lemma mget_None_iff: "mget m k = None \<longleftrightarrow> k \<notin> set (mkeys m)"
  by (auto simp: mget_def mkeys_def map_of_eq_None_iff)

lemma mget_Some_mem: "mget m k = Some v \<Longrightarrow> (k, v) \<in> set m"
  by (simp add: mget_def map_of_SomeD)

lemma keys_ok_distinct: "keys_ok m \<Longrightarrow> distinct (map fst m)"
  by (simp add: keys_ok_def mkeys_def strict_sorted_iff)

lemma keys_ok_sorted: "keys_ok m \<Longrightarrow> sorted (mkeys m)"
  by (simp add: keys_ok_def strict_sorted_iff)

lemma mem_mget: "keys_ok m \<Longrightarrow> (k, v) \<in> set m \<Longrightarrow> mget m k = Some v"
  by (simp add: mget_def keys_ok_distinct)

lemma keys_ok_ext:
  assumes "keys_ok m" and "keys_ok m'" and "\<And>k. mget m k = mget m' k"
  shows "m = m'"
proof -
  have mem: "(k, v) \<in> set n \<longleftrightarrow> mget n k = Some v" if "keys_ok n" for n :: "'a gmap" and k v
    using that mem_mget mget_Some_mem by metis
  have eq: "set m = set m'" using mem [OF assms(1)] mem [OF assms(2)] assms(3) by auto
  have inj: "inj_on fst (set m \<union> set m')"
    using keys_ok_distinct [OF assms(1)] eq by (simp add: distinct_map)
  show ?thesis
    using map_sorted_distinct_set_unique [OF inj _ _ _ _ eq] assms(1,2)
    by (simp add: keys_ok_sorted [unfolded mkeys_def] keys_ok_distinct)
qed

interpretation gm: go_map "[]" mget mput mkeys keys_ok
  by unfold_locales (simp_all add: mget_mput keys_ok_mput keys_ok_ext mget_None_iff)

end
