(* ===== verification/Api_Types.thy ===== *)
theory Api_Types
  imports Go_Value
begin

text \<open>
  The API types of \<open>api/v1alpha1/manifestgenerator_types.go\<close>: one record per struct with the
  struct's fields in order, prefixed by the struct's initials, and the methods on
  \<open>ManifestGenerator\<close>. Optional pointers are options, the raw JSON of \<open>spec.values\<close> is its bytes.
  Of the embedded Kubernetes metadata the records keep the fields the program reads or writes.
\<close>

section \<open>Constants of the wire format\<close>

definition ManifestGeneratorKind :: string where "ManifestGeneratorKind = ''ManifestGenerator''"
definition Finalizer :: string where "Finalizer = ''manifests.fluxcd.tooling/finalizer''"
definition GroupVersion :: "string \<times> string" where
  "GroupVersion = (''manifests.fluxcd.tooling'', ''v1alpha1'')"
definition ManifestGeneratorLabel :: string where
  "ManifestGeneratorLabel = ''manifests.fluxcd.tooling/generator''"
definition ArtifactOriginRevisionAnnotation :: string where
  "ArtifactOriginRevisionAnnotation = ''org.opencontainers.image.revision''"
definition ReconcileAnnotation :: string where
  "ReconcileAnnotation = ''manifests.fluxcd.tooling/reconcile''"
definition DisabledValue :: string where "DisabledValue = ''disabled''"

definition ReconciliationDisabledReason :: string where
  "ReconciliationDisabledReason = ''ReconciliationDisabled''"
definition AccessDeniedReason :: string where "AccessDeniedReason = ''AccessDenied''"
definition ValidationFailedReason :: string where "ValidationFailedReason = ''ValidationFailed''"
definition SourceFetchFailedReason :: string where "SourceFetchFailedReason = ''SourceFetchFailed''"
definition PipelineFailedReason :: string where "PipelineFailedReason = ''PipelineFailed''"
definition RenderFailedReason :: string where "RenderFailedReason = ''RenderFailed''"
definition BuildFailedReason :: string where "BuildFailedReason = ''BuildFailed''"

definition SourceKindBucket :: string where "SourceKindBucket = ''Bucket''"
definition SourceKindGitRepository :: string where "SourceKindGitRepository = ''GitRepository''"
definition SourceKindOCIRepository :: string where "SourceKindOCIRepository = ''OCIRepository''"
definition SourceKindHelmChart :: string where "SourceKindHelmChart = ''HelmChart''"
definition SourceKindExternalArtifact :: string where
  "SourceKindExternalArtifact = ''ExternalArtifact''"

definition LoadFormatYAML :: string where "LoadFormatYAML = ''yaml''"
definition LoadFormatJSON :: string where "LoadFormatJSON = ''json''"
definition LoadFormatText :: string where "LoadFormatText = ''text''"
definition LoadFormatRaw :: string where "LoadFormatRaw = ''raw''"
definition LoadAsList :: string where "LoadAsList = ''list''"
definition LoadAsMap :: string where "LoadAsMap = ''map''"

lemmas api_consts = ManifestGeneratorKind_def Finalizer_def ManifestGeneratorLabel_def
  ArtifactOriginRevisionAnnotation_def ReconcileAnnotation_def DisabledValue_def
  ReconciliationDisabledReason_def AccessDeniedReason_def ValidationFailedReason_def
  SourceFetchFailedReason_def PipelineFailedReason_def RenderFailedReason_def BuildFailedReason_def
  SourceKindBucket_def SourceKindGitRepository_def SourceKindOCIRepository_def
  SourceKindHelmChart_def SourceKindExternalArtifact_def LoadFormatYAML_def LoadFormatJSON_def
  LoadFormatText_def LoadFormatRaw_def LoadAsList_def LoadAsMap_def

section \<open>The spec\<close>

record SourceReference =
  sr_alias :: string
  sr_name :: string
  sr_namespace :: string
  sr_kind :: string

record ValuesReference =
  vr_kind :: string
  vr_name :: string
  vr_namespace :: string
  vr_valuesKey :: string
  vr_targetPath :: string
  vr_optional :: bool

record LoadStep =
  ls_from :: string
  ls_format :: string
  ls_as :: string
  ls_keyExpr :: string

record FilterStep =
  fs_from :: string
  fs_where :: string

record MapStep =
  ms_from :: string
  ms_expr :: string

record GroupStep =
  gs_from :: string
  gs_keyExpr :: string

record MergeStep =
  mgs_from :: "string list"

record PipelineStep =
  ps_name :: string
  ps_load :: "LoadStep option"
  ps_filter :: "FilterStep option"
  ps_map :: "MapStep option"
  ps_group :: "GroupStep option"
  ps_merge :: "MergeStep option"

record ForEachSpec =
  fe_from :: string
  fe_as :: string

record TemplateSpec =
  ts_from :: string
  ts_to :: string

record ManifestArtifact =
  ma_name :: string
  ma_revision :: string
  ma_originRevision :: string
  ma_forEach :: "ForEachSpec option"
  ma_templates :: "TemplateSpec list"

record ManifestGeneratorSpec =
  sp_interval :: int
  sp_suspend :: bool
  sp_sources :: "SourceReference list"
  sp_values :: "string option"
  sp_valuesFrom :: "ValuesReference list"
  sp_pipeline :: "PipelineStep list"
  sp_artifacts :: "ManifestArtifact list"

section \<open>The status and the object\<close>

record ExternalArtifactReference =
  ear_name :: string
  ear_namespace :: string
  ear_digest :: string
  ear_filename :: string

record Condition =
  c_type :: string
  c_status :: string
  c_reason :: string
  c_message :: string

record ManifestGeneratorStatus =
  st_lastHandledReconcileAt :: string
  st_conditions :: "Condition list"
  st_observedGeneration :: int
  st_inventory :: "ExternalArtifactReference list"
  st_observedSourcesDigest :: string

record ManifestGenerator =
  mg_name :: string
  mg_namespace :: string
  mg_uid :: string
  mg_generation :: int
  mg_annotations :: "string gmap"
  mg_finalizers :: "string list"
  mg_deleting :: bool
  mg_spec :: ManifestGeneratorSpec
  mg_status :: ManifestGeneratorStatus

section \<open>Methods of the object\<close>

definition GetConditions :: "ManifestGenerator \<Rightarrow> Condition list" where
  "GetConditions obj = st_conditions (mg_status obj)"

definition SetConditions :: "ManifestGenerator \<Rightarrow> Condition list \<Rightarrow> ManifestGenerator" where
  "SetConditions obj cs = obj\<lparr>mg_status := (mg_status obj)\<lparr>st_conditions := cs\<rparr>\<rparr>"

text \<open>A duration is its nanoseconds; \<open>time.Hour\<close> is the fallback.\<close>

definition time_Hour :: int where
  "time_Hour = 3600000000000"

definition GetRequeueAfter :: "ManifestGenerator \<Rightarrow> int" where
  "GetRequeueAfter obj =
     (if sp_interval (mg_spec obj) > 0 then sp_interval (mg_spec obj) else time_Hour)"

definition SetLastHandledReconcileAt :: "ManifestGenerator \<Rightarrow> string \<Rightarrow> ManifestGenerator" where
  "SetLastHandledReconcileAt obj v =
     obj\<lparr>mg_status := (mg_status obj)\<lparr>st_lastHandledReconcileAt := v\<rparr>\<rparr>"

definition IsDisabled :: "ManifestGenerator \<Rightarrow> bool" where
  "IsDisabled obj =
     (if sp_suspend (mg_spec obj) then True
      else case mget (mg_annotations obj) ReconcileAnnotation of
          None \<Rightarrow> False
        | Some val \<Rightarrow> to_lower val = DisabledValue)"

fun inventory_has :: "ExternalArtifactReference list \<Rightarrow> string \<Rightarrow> string \<Rightarrow> string \<Rightarrow> bool" where
  "inventory_has [] name namespace digest = False"
| "inventory_has (ref # refs) name namespace digest =
     (if ear_name ref = name \<and> ear_namespace ref = namespace \<and> ear_digest ref = digest then True
      else inventory_has refs name namespace digest)"

definition HasArtifactInInventory ::
  "ManifestGenerator \<Rightarrow> string \<Rightarrow> string \<Rightarrow> string \<Rightarrow> bool" where
  "HasArtifactInInventory obj name namespace digest =
     inventory_has (st_inventory (mg_status obj)) name namespace digest"

lemma inventory_has_iff:
  "inventory_has refs n ns d \<longleftrightarrow>
     (\<exists>ref \<in> set refs. ear_name ref = n \<and> ear_namespace ref = ns \<and> ear_digest ref = d)"
  by (induction refs) auto

lemma GetRequeueAfter_pos: "GetRequeueAfter obj > 0"
  by (simp add: GetRequeueAfter_def time_Hour_def)

section \<open>Sample object\<close>

text \<open>A generator with one source and artifacts of the given names, for the concrete runs.\<close>

definition sample_artifact :: ManifestArtifact where
  "sample_artifact = \<lparr>ma_name = ''out'', ma_revision = [], ma_originRevision = [], ma_forEach = None,
     ma_templates = [\<lparr>ts_from = ''@src/cfg.yaml'', ts_to = ''@artifact/out.yaml''\<rparr>]\<rparr>"

definition sample_spec :: "string list \<Rightarrow> ManifestGeneratorSpec" where
  "sample_spec names = \<lparr>sp_interval = 0, sp_suspend = False,
     sp_sources = [\<lparr>sr_alias = ''src'', sr_name = ''repo'', sr_namespace = [], sr_kind = ''GitRepository''\<rparr>],
     sp_values = None, sp_valuesFrom = [], sp_pipeline = [],
     sp_artifacts = map (\<lambda>n. sample_artifact\<lparr>ma_name := n\<rparr>) names\<rparr>"

definition sample_ref :: "string \<Rightarrow> ExternalArtifactReference" where
  "sample_ref n = \<lparr>ear_name = n, ear_namespace = ''apps'', ear_digest = ''sha256:0'', ear_filename = ''f''\<rparr>"

definition sample_obj :: "string list \<Rightarrow> string list \<Rightarrow> string list \<Rightarrow> ManifestGenerator" where
  "sample_obj names finalizers old = \<lparr>mg_name = ''gen'', mg_namespace = ''apps'', mg_uid = ''1'', mg_generation = 7,
     mg_annotations = [], mg_finalizers = finalizers, mg_deleting = False, mg_spec = sample_spec names,
     mg_status = \<lparr>st_lastHandledReconcileAt = [], st_conditions = [], st_observedGeneration = 0,
       st_inventory = map sample_ref old, st_observedSourcesDigest = []\<rparr>\<rparr>"

end
