(* ===== verification/Deep_Merge.thy ===== *)
theory Deep_Merge
  imports Go_Value
begin

text \<open>
  Deep merging of value trees: \<open>deepClone\<close> and \<open>deepMerge\<close>, which the packages \<open>values\<close> and
  \<open>pipeline\<close> define in the same words (\<open>internal/values/values.go\<close> and
  \<open>internal/pipeline/merge.go\<close>). The contract of a merge is the locale \<open>value_merge\<close>; the facts
  the callers need are proved from it, and both definitions are interpretations of it.

  The specification is a tree seen from its paths: at a path a value has nothing, a leaf or a
  map. Merging gives every path to the later tree if that tree has something there, and to the
  earlier tree unless the later one has a leaf on the way.
\<close>

section \<open>Well-formed values\<close>

text \<open>Every map of the tree has strictly increasing keys.\<close>

fun wf_val :: "gval \<Rightarrow> bool" where
  "wf_val (VList vs) = (\<forall>v \<in> set vs. wf_val v)"
| "wf_val (VMap m) = (keys_ok m \<and> (\<forall>kv \<in> set m. wf_val (snd kv)))"
| "wf_val v = True"

definition wf_map :: "gval gmap \<Rightarrow> bool" where
  "wf_map m \<longleftrightarrow> keys_ok m \<and> (\<forall>kv \<in> set m. wf_val (snd kv))"

lemma wf_VMap [simp]: "wf_val (VMap m) \<longleftrightarrow> wf_map m"
  by (simp add: wf_map_def)

declare wf_val.simps(2) [simp del]

lemma wf_map_Nil [simp, wf_intros]: "wf_map []"
  by (simp add: wf_map_def)

lemma wf_map_keys: "wf_map m \<Longrightarrow> keys_ok m"
  by (simp add: wf_map_def)

lemma wf_map_get: "wf_map m \<Longrightarrow> mget m k = Some v \<Longrightarrow> wf_val v"
  using mget_Some_mem by (fastforce simp: wf_map_def)

lemma wf_map_iff: "wf_map m \<longleftrightarrow> keys_ok m \<and> (\<forall>k v. mget m k = Some v \<longrightarrow> wf_val v)"
proof
  assume m: "keys_ok m \<and> (\<forall>k v. mget m k = Some v \<longrightarrow> wf_val v)"
  then have "wf_val v" if "(k, v) \<in> set m" for k v
    using that mem_mget [of m k v] by metis
  with m show "wf_map m" unfolding wf_map_def by force
qed (auto dest: wf_map_keys wf_map_get)

lemma wf_map_put [wf_intros]: "wf_map m \<Longrightarrow> wf_val v \<Longrightarrow> wf_map (mput k v m)"
  by (auto simp: wf_map_iff keys_ok_mput mget_mput)

lemma wf_map_Cons: "wf_map ((k, v) # m) \<Longrightarrow> wf_val v \<and> wf_map m"
  by (auto simp: wf_map_def)

section \<open>The specification: a tree seen from its paths\<close>

datatype at = Absent | Leaf gval | Node

fun at_path :: "gval \<Rightarrow> string list \<Rightarrow> at" where
  "at_path (VMap m) [] = Node"
| "at_path (VMap m) (k # ks) = (case mget m k of None \<Rightarrow> Absent | Some v \<Rightarrow> at_path v ks)"
| "at_path v [] = Leaf v"
| "at_path v (k # ks) = Absent"

text \<open>A leaf of the tree lies strictly above the path.\<close>

fun cut_by :: "gval \<Rightarrow> string list \<Rightarrow> bool" where
  "cut_by v [] = False"
| "cut_by (VMap m) (k # ks) = (case mget m k of None \<Rightarrow> False | Some v \<Rightarrow> cut_by v ks)"
| "cut_by v (k # ks) = True"

lemma at_path_leaf: "\<not> is_VMap v \<Longrightarrow> at_path v p = (if p = [] then Leaf v else Absent)"
  by (cases v; cases p) auto

lemma cut_by_leaf: "\<not> is_VMap v \<Longrightarrow> cut_by v p \<longleftrightarrow> p \<noteq> []"
  by (cases v; cases p) auto

lemma size_mget: "mget m k = Some v \<Longrightarrow> size v < size (VMap m)"
proof (induction m)
  case Nil
  then show ?case by simp
next
  case (Cons kv m)
  then show ?case by (cases kv) (auto split: if_splits)
qed

text \<open>
  What a path holds in a stack of trees, the topmost first, over an empty map: the first tree
  with something on the path decides, and a leaf above the path hides everything below it.
\<close>

fun layer_lookup :: "gval list \<Rightarrow> string list \<Rightarrow> at" where
  "layer_lookup [] p = (if p = [] then Node else Absent)"
| "layer_lookup (b # bs) p =
     (case at_path b p of
        Absent \<Rightarrow> if cut_by b p then Absent else layer_lookup bs p
      | Leaf v \<Rightarrow> Leaf v
      | Node \<Rightarrow> Node)"

text \<open>A well-formed tree is determined by what its paths hold.\<close>

lemma at_path_ext:
  "wf_val v \<Longrightarrow> wf_val w \<Longrightarrow> (\<And>p. at_path v p = at_path w p) \<Longrightarrow> v = w"
proof (induction "size v" arbitrary: v w rule: less_induct)
  case less
  show ?case
  proof (cases v)
    case (VMap m)
    with less.prems(3) [of "[]"] obtain n where n: "w = VMap n"
      by (cases w) auto
    have "mget m k = mget n k" for k
    proof (cases "mget m k")
      case None
      then show ?thesis
      proof (cases "mget n k")
        case (Some y)
        with None VMap n less.prems(3) [of "[k]"] show ?thesis by (cases y) auto
      qed simp
    next
      case (Some x)
      with VMap n less.prems(3) [of "[k]"] obtain y where y: "mget n k = Some y"
        by (cases x) (auto split: option.splits)
      have "at_path x p = at_path y p" for p
        using less.prems(3) [of "k # p"] VMap n Some y by simp
      moreover have "size x < size v" using Some VMap size_mget by blast
      moreover have "wf_val x" "wf_val y"
        using less.prems(1,2) VMap n Some y by (auto dest: wf_map_get)
      ultimately have "x = y" using less.hyps by blast
      with Some y show ?thesis by simp
    qed
    then show ?thesis
      using VMap n less.prems(1,2) by (simp add: keys_ok_ext wf_map_keys)
  qed (use less.prems(3) [of "[]"] in \<open>cases w; auto\<close>)+
qed

section \<open>The contract of a merge\<close>

locale value_merge =
  fixes merge :: "gval \<Rightarrow> gval \<Rightarrow> gval"
  assumes merge_other: "wf_val b \<Longrightarrow> \<not> (is_VMap a \<and> is_VMap b) \<Longrightarrow> merge a b = b"
    and merge_maps: "wf_map am \<Longrightarrow> wf_map bm \<Longrightarrow> \<exists>c. merge (VMap am) (VMap bm) = VMap c \<and> keys_ok c \<and>
      (\<forall>k. mget c k = (case mget bm k of None \<Rightarrow> mget am k
         | Some v \<Rightarrow> (case mget am k of None \<Rightarrow> Some v | Some u \<Rightarrow> Some (merge u v))))"
begin

lemma merge_wf: "wf_val a \<Longrightarrow> wf_val b \<Longrightarrow> wf_val (merge a b)"
proof (induction "size b" arbitrary: a b rule: less_induct)
  case less
  show ?case
  proof (cases "is_VMap a \<and> is_VMap b")
    case True
    then obtain am bm where ab: "a = VMap am" "b = VMap bm" by (auto simp: is_VMap_iff)
    then have wf: "wf_map am" "wf_map bm" using less.prems by auto
    from merge_maps [OF wf] obtain c where c: "merge a b = VMap c" "keys_ok c"
      and get: "\<And>k. mget c k = (case mget bm k of None \<Rightarrow> mget am k
         | Some v \<Rightarrow> (case mget am k of None \<Rightarrow> Some v | Some u \<Rightarrow> Some (merge u v)))"
      unfolding ab by blast
    have "wf_val x" if "mget c k = Some x" for k x
    proof (cases "mget bm k")
      case None
      with that get have "mget am k = Some x" by simp
      with wf show ?thesis by (auto dest: wf_map_get)
    next
      case (Some v)
      then have v: "wf_val v" "size v < size b"
        using wf_map_get [OF wf(2)] size_mget [of bm k v] ab by auto
      show ?thesis
      proof (cases "mget am k")
        case None
        with that get Some v show ?thesis by simp
      next
        case (Some u)
        then have "wf_val u" using wf_map_get [OF wf(1)] by blast
        with less.hyps [OF v(2) _ v(1)] that get Some \<open>mget bm k = Some v\<close>
        show ?thesis by auto
      qed
    qed
    with c show ?thesis by (simp add: wf_map_iff)
  next
    case False
    with less.prems show ?thesis by (simp add: merge_other)
  qed
qed

lemma merge_map_map:
  assumes "wf_map a" and "wf_map b"
  obtains c where "merge (VMap a) (VMap b) = VMap c" "wf_map c"
    "\<And>k. mget c k = (case mget b k of None \<Rightarrow> mget a k
       | Some v \<Rightarrow> (case mget a k of None \<Rightarrow> Some v | Some u \<Rightarrow> Some (merge u v)))"
proof -
  from merge_maps [OF assms] obtain c where c: "merge (VMap a) (VMap b) = VMap c"
    "\<And>k. mget c k = (case mget b k of None \<Rightarrow> mget a k
       | Some v \<Rightarrow> (case mget a k of None \<Rightarrow> Some v | Some u \<Rightarrow> Some (merge u v)))" by blast
  moreover have "wf_map c" using merge_wf [of "VMap a" "VMap b"] assms c(1) by simp
  ultimately show thesis using that by blast
qed

text \<open>A merge that is no merge of two maps replaces the first tree.\<close>

lemma at_path_merge_other:
  assumes "wf_val a" and "wf_val b" and "\<not> (is_VMap a \<and> is_VMap b)"
  shows "at_path (merge a b) p =
     (case at_path b p of
        Absent \<Rightarrow> if cut_by b p then Absent else at_path a p
      | Leaf v \<Rightarrow> Leaf v
      | Node \<Rightarrow> Node)"
proof (cases p)
  case Nil
  then show ?thesis using assms by (cases b) (simp_all add: merge_other)
next
  case (Cons k q)
  have m: "merge a b = b" using assms by (simp add: merge_other)
  show ?thesis
  proof (cases "is_VMap b")
    case True
    with assms(3) have "at_path a (k # q) = Absent" by (simp add: at_path_leaf)
    with m Cons show ?thesis by (simp split: at.splits)
  next
    case False
    then show ?thesis using m Cons by (simp add: at_path_leaf cut_by_leaf)
  qed
qed

text \<open>Below a key, a merge of two maps is the merge of what they have there.\<close>

lemma at_path_merge_map:
  assumes "wf_map am" and "wf_map bm"
  shows "at_path (merge (VMap am) (VMap bm)) (k # p) =
    (case mget bm k of
       None \<Rightarrow> at_path (VMap am) (k # p)
     | Some v \<Rightarrow> (case mget am k of None \<Rightarrow> at_path v p | Some u \<Rightarrow> at_path (merge u v) p))"
proof -
  obtain c where c: "merge (VMap am) (VMap bm) = VMap c"
    "\<And>k. mget c k = (case mget bm k of None \<Rightarrow> mget am k
       | Some v \<Rightarrow> (case mget am k of None \<Rightarrow> Some v | Some u \<Rightarrow> Some (merge u v)))"
    using merge_map_map [OF assms] by metis
  then show ?thesis by (simp split: option.split)
qed

text \<open>The complete specification of a merge, path by path.\<close>

lemma at_path_merge:
  "wf_val a \<Longrightarrow> wf_val b \<Longrightarrow>
   at_path (merge a b) p =
     (case at_path b p of
        Absent \<Rightarrow> if cut_by b p then Absent else at_path a p
      | Leaf v \<Rightarrow> Leaf v
      | Node \<Rightarrow> Node)"
proof (induction p arbitrary: a b)
  case Nil
  show ?case
  proof (cases "is_VMap a \<and> is_VMap b")
    case True
    then obtain am bm where ab: "a = VMap am" "b = VMap bm" by (auto simp: is_VMap_iff)
    with Nil merge_map_map [of am bm] show ?thesis by (metis at.simps(10) at_path.simps(1) wf_VMap)
  qed (use Nil in \<open>intro at_path_merge_other\<close>)
next
  case (Cons k p)
  show ?case
  proof (cases "is_VMap a \<and> is_VMap b")
    case True
    then obtain am bm where ab: "a = VMap am" "b = VMap bm" by (auto simp: is_VMap_iff)
    with Cons.prems have wf: "wf_map am" "wf_map bm" by auto
    have "at_path (merge u v) p = (case at_path v p of
        Absent \<Rightarrow> if cut_by v p then Absent else at_path u p | Leaf w \<Rightarrow> Leaf w | Node \<Rightarrow> Node)"
      if "mget am k = Some u" "mget bm k = Some v" for u v
      using that wf by (intro Cons.IH) (auto dest: wf_map_get)
    then show ?thesis
      unfolding ab at_path_merge_map [OF wf] by (auto split: option.split at.split)
  qed (use Cons.prems in \<open>intro at_path_merge_other\<close>)
qed

text \<open>Laws of merging, read off the specification.\<close>

lemma merge_empty_right:
  assumes "wf_map a"
  shows "merge (VMap a) (VMap []) = VMap a"
proof (rule at_path_ext)
  fix p
  have "at_path (VMap []) p = (if p = [] then Node else Absent)" "\<not> cut_by (VMap []) p"
    by (cases p; simp)+
  then show "at_path (merge (VMap a) (VMap [])) p = at_path (VMap a) p"
    using assms by (cases p) (simp_all add: at_path_merge)
qed (use assms in \<open>auto intro: merge_wf\<close>)

lemma merge_empty_left:
  assumes "wf_map b"
  shows "merge (VMap []) (VMap b) = VMap b"
proof (rule at_path_ext)
  fix p
  have "at_path (VMap []) p = (if p = [] then Node else Absent)" by (cases p) simp_all
  then show "at_path (merge (VMap []) (VMap b)) p = at_path (VMap b) p"
    using assms by (cases p) (simp_all add: at_path_merge split: at.splits)
qed (use assms in \<open>auto intro: merge_wf\<close>)

lemma merge_idem:
  assumes "wf_val a"
  shows "merge a a = a"
proof (rule at_path_ext)
  fix p
  have "cut_by a p \<Longrightarrow> at_path a p = Absent"
    by (induction a p rule: cut_by.induct) (auto split: option.splits)
  then show "at_path (merge a a) p = at_path a p"
    using assms by (auto simp: at_path_merge split: at.splits)
qed (use assms in \<open>auto intro: merge_wf\<close>)

text \<open>Two merges that keep the contract are the same function on well-formed values.\<close>

lemma merge_unique:
  assumes "value_merge other" and "wf_val a" and "wf_val b"
  shows "other a b = merge a b"
proof (rule at_path_ext)
  show "wf_val (other a b)" using value_merge.merge_wf [OF assms(1)] assms(2,3) by blast
  show "wf_val (merge a b)" using merge_wf assms(2,3) by blast
  show "at_path (other a b) p = at_path (merge a b) p" for p
    using assms by (simp add: at_path_merge value_merge.at_path_merge [OF assms(1)])
qed

text \<open>Merging a list of maps, later ones over earlier ones: what both callers do.\<close>

lemma fold_merge_wf:
  "wf_val a \<Longrightarrow> list_all wf_val bs \<Longrightarrow> wf_val (fold (\<lambda>b acc. merge acc b) bs a)"
  by (induction bs arbitrary: a) (auto intro: merge_wf)

lemma merge_is_VMap: "wf_val a \<Longrightarrow> wf_val b \<Longrightarrow> is_VMap b \<Longrightarrow> is_VMap (merge a b)"
  using at_path_merge [of a b "[]"] by (cases b; cases "merge a b") auto

lemma fold_merge_is_VMap:
  "wf_val a \<Longrightarrow> is_VMap a \<Longrightarrow> list_all (\<lambda>b. wf_val b \<and> is_VMap b) bs \<Longrightarrow>
   is_VMap (fold (\<lambda>b acc. merge acc b) bs a)"
  by (induction bs arbitrary: a) (auto intro: merge_wf merge_is_VMap)

lemma at_path_fold_merge:
  "list_all wf_val bs \<Longrightarrow>
   at_path (fold (\<lambda>b acc. merge acc b) bs (VMap [])) p = layer_lookup (rev bs) p"
proof (induction bs rule: rev_induct)
  case Nil
  then show ?case by (cases p) simp_all
next
  case (snoc b bs)
  then have "wf_val (fold (\<lambda>b acc. merge acc b) bs (VMap []))" by (simp add: fold_merge_wf)
  with snoc show ?case by (simp add: at_path_merge split: at.split)
qed

text \<open>The last tree with something on a path decides it.\<close>

lemma fold_merge_last:
  assumes "wf_val a" and "list_all wf_val bs" and "wf_val b" and "at_path b p = Leaf v"
    and "list_all (\<lambda>c. wf_val c \<and> at_path c p = Absent \<and> \<not> cut_by c p) cs"
  shows "at_path (fold (\<lambda>b acc. merge acc b) (bs @ b # cs) a) p = Leaf v"
proof -
  have keep: "list_all (\<lambda>c. wf_val c \<and> at_path c p = Absent \<and> \<not> cut_by c p) cs \<Longrightarrow> wf_val x \<Longrightarrow>
    at_path (fold (\<lambda>b acc. merge acc b) cs x) p = at_path x p" for x
    by (induction cs arbitrary: x) (auto simp: at_path_merge merge_wf)
  have "wf_val (fold (\<lambda>b acc. merge acc b) bs a)" using assms fold_merge_wf by blast
  then show ?thesis using keep [OF assms(5)] assms(3,4) by (simp add: at_path_merge merge_wf)
qed

end

section \<open>The code of package values\<close>

text \<open>
  \<open>make([]any, len(val))\<close> followed by writes at every index is a map over the list; the map branch
  is a loop that stores a clone under every key.
\<close>

fun values_deepClone :: "gval \<Rightarrow> gval"
  and values_clone_entries :: "gval gmap \<Rightarrow> gval gmap \<Rightarrow> gval gmap" where
  "values_deepClone v =
     (case v of
        VMap m \<Rightarrow> VMap (values_clone_entries m [])
      | VList vs \<Rightarrow> VList (map values_deepClone vs)
      | _ \<Rightarrow> v)"
| "values_clone_entries [] out = out"
| "values_clone_entries ((k, v) # m) out = values_clone_entries m (mput k (values_deepClone v) out)"

declare values_deepClone.simps [simp del]

fun values_deepMerge :: "gval \<Rightarrow> gval \<Rightarrow> gval"
  and values_merge_entries :: "gval gmap \<Rightarrow> gval gmap \<Rightarrow> gval gmap" where
  "values_deepMerge a b =
     (case (a, b) of
        (VMap am, VMap bm) \<Rightarrow> VMap (values_merge_entries (values_clone_entries am []) bm)
      | _ \<Rightarrow> values_deepClone b)"
| "values_merge_entries out [] = out"
| "values_merge_entries out ((k, v) # bm) =
     values_merge_entries
       (case mget out k of
          Some cur \<Rightarrow> mput k (values_deepMerge cur v) out
        | None \<Rightarrow> mput k (values_deepClone v) out) bm"

declare values_deepMerge.simps [simp del]

section \<open>The code of package pipeline\<close>

fun pipeline_deepClone :: "gval \<Rightarrow> gval"
  and pipeline_clone_entries :: "gval gmap \<Rightarrow> gval gmap \<Rightarrow> gval gmap" where
  "pipeline_deepClone v =
     (case v of
        VMap m \<Rightarrow> VMap (pipeline_clone_entries m [])
      | VList vs \<Rightarrow> VList (map pipeline_deepClone vs)
      | _ \<Rightarrow> v)"
| "pipeline_clone_entries [] out = out"
| "pipeline_clone_entries ((k, v) # m) out =
     pipeline_clone_entries m (mput k (pipeline_deepClone v) out)"

declare pipeline_deepClone.simps [simp del]

fun pipeline_deepMerge :: "gval \<Rightarrow> gval \<Rightarrow> gval"
  and pipeline_merge_entries :: "gval gmap \<Rightarrow> gval gmap \<Rightarrow> gval gmap" where
  "pipeline_deepMerge a b =
     (case (a, b) of
        (VMap am, VMap bm) \<Rightarrow> VMap (pipeline_merge_entries (pipeline_clone_entries am []) bm)
      | _ \<Rightarrow> pipeline_deepClone b)"
| "pipeline_merge_entries out [] = out"
| "pipeline_merge_entries out ((k, v) # bm) =
     pipeline_merge_entries
       (case mget out k of
          Some cur \<Rightarrow> mput k (pipeline_deepMerge cur v) out
        | None \<Rightarrow> mput k (pipeline_deepClone v) out) bm"

declare pipeline_deepMerge.simps [simp del]

lemmas deep_merge_eval = values_deepClone.simps values_deepMerge.simps
  pipeline_deepClone.simps pipeline_deepMerge.simps

section \<open>Cloning\<close>

text \<open>A clone of a well-formed value is an equal value, whatever the iteration order.\<close>

lemma values_clone_entries_fold:
  "values_clone_entries m out = fold (\<lambda>(k, v). mput k v) (map (\<lambda>(k, v). (k, values_deepClone v)) m) out"
  by (induction m arbitrary: out) auto

lemma fold_mput_self:
  assumes "keys_ok m"
  shows "fold (\<lambda>(k, v). mput k v) m [] = m"
proof (rule keys_ok_ext)
  have "map_of (rev m) = map_of m"
    using keys_ok_distinct [OF assms] by (intro map_of_inject_set [THEN iffD2]) (auto simp: rev_map [symmetric])
  then show "mget (fold (\<lambda>(k, v). mput k v) m []) k = mget m k" for k
    using gm.get_fold_put [of "[]" m k] by (simp add: mget_def split: option.splits)
qed (simp_all add: assms gm.inv_fold_put)

lemma values_deepClone_id: "wf_val v \<Longrightarrow> values_deepClone v = v"
proof (induction v)
  case (VList vs)
  then show ?case by (simp add: values_deepClone.simps map_idI)
next
  case (VMap m)
  then have "map (\<lambda>(k, v). (k, values_deepClone v)) m = m"
    by (intro map_idI) (auto simp: wf_map_def)
  then show ?case
    using VMap.prems by (simp add: values_deepClone.simps values_clone_entries_fold fold_mput_self wf_map_keys)
qed (simp_all add: values_deepClone.simps)

lemma values_clone_entries_id: "wf_map m \<Longrightarrow> values_clone_entries m [] = m"
  using values_deepClone_id [of "VMap m"] by (simp add: values_deepClone.simps)

section \<open>Both packages keep the contract\<close>

lemma values_merge_entries_spec:
  "keys_ok out \<Longrightarrow> wf_map bm \<Longrightarrow>
   keys_ok (values_merge_entries out bm) \<and>
   (\<forall>k. mget (values_merge_entries out bm) k =
      (case mget bm k of None \<Rightarrow> mget out k
       | Some v \<Rightarrow> (case mget out k of None \<Rightarrow> Some v | Some u \<Rightarrow> Some (values_deepMerge u v))))"
proof (induction bm arbitrary: out)
  case Nil
  then show ?case by simp
next
  case (Cons kv bm)
  obtain k v where kv: "kv = (k, v)" by (cases kv)
  let ?w = "case mget out k of Some cur \<Rightarrow> values_deepMerge cur v | None \<Rightarrow> v"
  have wf: "wf_val v" "wf_map bm" using wf_map_Cons Cons.prems(2) kv by blast+
  have step: "values_merge_entries out (kv # bm) = values_merge_entries (mput k ?w out) bm"
    using wf(1) kv by (simp add: values_deepClone_id split: option.split)
  have "mget bm k = None"
    using wf_map_keys [OF Cons.prems(2)] kv by (auto simp: mget_None_iff)
  with Cons.IH [of "mput k ?w out"] Cons.prems(1) wf(2) show ?case
    unfolding step unfolding kv by (auto simp: keys_ok_mput mget_mput split: option.splits)
qed

interpretation vals: value_merge values_deepMerge
proof
  show "values_deepMerge a b = b" if "wf_val b" "\<not> (is_VMap a \<and> is_VMap b)" for a b
    using that by (cases a; cases b) (simp_all add: values_deepMerge.simps values_deepClone_id)
  fix a b
  assume wf: "wf_map a" "wf_map b"
  show "\<exists>c. values_deepMerge (VMap a) (VMap b) = VMap c \<and> keys_ok c \<and>
      (\<forall>k. mget c k = (case mget b k of None \<Rightarrow> mget a k
         | Some v \<Rightarrow> (case mget a k of None \<Rightarrow> Some v | Some u \<Rightarrow> Some (values_deepMerge u v))))"
    using wf values_merge_entries_spec [of a b]
    by (simp add: values_deepMerge.simps values_clone_entries_id wf_map_keys)
qed

text \<open>The two packages carry the same code.\<close>

lemma same_clone:
  "pipeline_deepClone v = values_deepClone v"
  "pipeline_clone_entries m out = values_clone_entries m out"
  by (induction v and m out rule: values_deepClone_values_clone_entries.induct)
    (auto simp: values_deepClone.simps pipeline_deepClone.simps split: gval.split)

lemma same_merge:
  "pipeline_deepMerge a b = values_deepMerge a b"
  "pipeline_merge_entries out bm = values_merge_entries out bm"
  by (induction a b and out bm rule: values_deepMerge_values_merge_entries.induct)
    (auto simp: values_deepMerge.simps pipeline_deepMerge.simps same_clone split: gval.split option.split)

lemma same_functions: "pipeline_deepMerge = values_deepMerge" "pipeline_deepClone = values_deepClone"
  by (intro ext, simp add: same_merge same_clone)+

interpretation pipe: value_merge pipeline_deepMerge
  unfolding same_functions by (rule vals.value_merge_axioms)

section \<open>What a merge computes\<close>

text \<open>
  C39. Both merges of the program are the same function, and it is the override of trees: at every path the
  later tree decides if it has something there, a leaf of the later tree hides everything below it, and
  everything else is the earlier tree's. Merging a tree into itself changes nothing, and the result
  is well formed.
\<close>

theorem merge_is_override:
  assumes "wf_val a" and "wf_val b"
  shows "pipeline_deepMerge a b = values_deepMerge a b \<and> wf_val (values_deepMerge a b) \<and>
    values_deepMerge a a = a \<and>
    at_path (values_deepMerge a b) p =
      (case at_path b p of
         Absent \<Rightarrow> if cut_by b p then Absent else at_path a p
       | Leaf v \<Rightarrow> Leaf v
       | Node \<Rightarrow> Node)"
  using vals.at_path_merge [OF assms, of p] vals.merge_wf [OF assms] vals.merge_idem [OF assms(1)]
  by (simp add: same_merge)

theorem merge_is_override_witness:
  "at_path (values_deepMerge (VMap [(''a'', VInt 1), (''b'', VInt 2)]) (VMap [(''a'', VMap [])])) [''b''] = Leaf (VInt 2)"
  using merge_is_override [of "VMap [(''a'', VInt 1), (''b'', VInt 2)]" "VMap [(''a'', VMap [])]" "[''b'']"]
  by (simp add: wf_map_def)

end
