(* ===== verification/Item_Template.thy ===== *)
theory Item_Template
  imports Api_Types Deep_Merge
begin

text \<open>
  The evaluation environment of the pipeline and its per-item expressions
  (\<open>internal/pipeline/template.go\<close>, the types of \<open>pipeline.go\<close>, and \<open>iter.go\<close>).

  Parameters of the model, in the record \<open>pipe_env\<close>:
  \<^item> \<open>pe_ctx\<close>, the context of the reconcile: the answer of \<open>ctx.Err()\<close> at each poll of the code.
    A poll is named by the place where it happens, so a cancellation may arrive at any of them.
  \<^item> \<open>pe_yaml\<close> and \<open>pe_json\<close>, the decoders.
  \<^item> \<open>pe_parse\<close> and \<open>pe_exec\<close>, parsing and executing a template with the shared function map and
    \<open>missingkey=error\<close>: the function map is Sprig's.
  \<^item> the file system, in \<open>os_env\<close>: opening a file, and \<open>Stat\<close> and \<open>Glob\<close> below a directory. An open
    file has the result of its \<open>Stat\<close> and of reading it to the end; nothing ties the two together,
    since the file may grow between them.
\<close>

section \<open>Environment\<close>

datatype poll =
    AtStep string
  | AtFile string string
  | AtIndex string nat
  | AtKey string string
  | AtSource string string
  | AtIteration string nat
  | AtTemplate string nat nat

type_synonym ctx = "poll \<Rightarrow> goerr option"

type_synonym decoder = "string \<Rightarrow> gval res"

record finfo =
  fi_regular :: bool
  fi_size :: int
  fi_mode :: nat

record ofile =
  of_stat :: "finfo res"
  of_data :: "string res"

record os_env =
  os_open :: "string \<Rightarrow> ofile res"
  dirfs_stat :: "string \<Rightarrow> string \<Rightarrow> finfo res"
  dirfs_glob :: "string \<Rightarrow> string \<Rightarrow> string list res"

record pipe_env =
  pe_ctx :: ctx
  pe_yaml :: decoder
  pe_json :: decoder
  pe_parse :: "string \<Rightarrow> string \<Rightarrow> goerr option"
  pe_exec :: "string \<Rightarrow> string \<Rightarrow> gval gmap \<Rightarrow> string res"
  pe_os :: os_env

text \<open>What the program relies on: decoded maps have one entry per key.\<close>

definition decoder_ok :: "decoder \<Rightarrow> bool" where
  "decoder_ok dec \<longleftrightarrow> (\<forall>raw v. dec raw = Inr v \<longrightarrow> wf_val v)"

definition env_ok :: "pipe_env \<Rightarrow> bool" where
  "env_ok env \<longleftrightarrow> decoder_ok (pe_yaml env) \<and> decoder_ok (pe_json env)"

text \<open>\<open>io.ReadAll(io.LimitReader(f, n))\<close>\<close>

definition read_limited :: "ofile \<Rightarrow> int \<Rightarrow> string res" where
  "read_limited f n = map_sum id (take (nat n)) (of_data f)"

lemma read_limited_length: "read_limited f n = Inr d \<Longrightarrow> length d \<le> nat n"
  by (auto simp: read_limited_def map_sum_def split: sum.splits)

text \<open>A bounded read that succeeds has the whole file, also when the file grew meanwhile.\<close>

lemma read_limited_whole:
  assumes "read_limited f (n + 1) = Inr d" and "int (length d) \<le> n" and "0 \<le> n"
  shows "of_data f = Inr d"
proof -
  from assms(1) obtain w where w: "of_data f = Inr w" "d = take (nat (n + 1)) w"
    by (auto simp: read_limited_def map_sum_def split: sum.splits)
  have "\<not> nat (n + 1) \<le> length w"
  proof
    assume "nat (n + 1) \<le> length w"
    then have "length d = nat (n + 1)" using w by simp
    with assms(2,3) show False by simp
  qed
  with w show ?thesis by simp
qed

section \<open>Scope\<close>

definition ValuesKey :: string where
  "ValuesKey = ''values''"

record Scope =
  Sources :: "string gmap"
  Values :: "gval gmap"
  Outputs :: "gval gmap"

definition scope_ok :: "Scope \<Rightarrow> bool" where
  "scope_ok scope \<longleftrightarrow> wf_map (Values scope) \<and> wf_map (Outputs scope)"

text \<open>Copying the entries of a map into another: \<open>for k, v := range m { out[k] = v }\<close>.\<close>

definition copy_into :: "'v gmap \<Rightarrow> 'v gmap \<Rightarrow> 'v gmap" where
  "copy_into m out = fold (\<lambda>(k, v). mput k v) m out"

lemma keys_ok_copy_into: "keys_ok out \<Longrightarrow> keys_ok (copy_into m out)"
  by (simp add: copy_into_def gm.inv_fold_put)

lemma map_of_rev_keys: "keys_ok m \<Longrightarrow> map_of (rev m) = map_of m"
  using keys_ok_distinct [of m]
  by (intro map_of_inject_set [THEN iffD2]) (auto simp: rev_map [symmetric])

lemma mget_copy_into:
  "keys_ok m \<Longrightarrow> keys_ok out \<Longrightarrow>
   mget (copy_into m out) k = (case mget m k of None \<Rightarrow> mget out k | Some v \<Rightarrow> Some v)"
  using gm.get_fold_put [of out m k] by (simp add: copy_into_def mget_def map_of_rev_keys)

text \<open>Go's random iteration order does not matter for a copy.\<close>

lemma copy_into_perm:
  "keys_ok m \<Longrightarrow> keys_ok out \<Longrightarrow> mset m' = mset m \<Longrightarrow> copy_into m' out = copy_into m out"
  unfolding copy_into_def by (rule gm.fold_put_perm) (auto simp: keys_ok_distinct)

definition withOutputs :: "gval gmap \<Rightarrow> Scope \<Rightarrow> gval gmap" where
  "withOutputs bindings scope =
     copy_into bindings (mput ValuesKey (VMap (Values scope)) (copy_into (Outputs scope) []))"

lemma mget_withOutputs:
  assumes "keys_ok bindings" and "scope_ok scope"
  shows "mget (withOutputs bindings scope) k =
    (case mget bindings k of
       Some v \<Rightarrow> Some v
     | None \<Rightarrow> if k = ValuesKey then Some (VMap (Values scope)) else mget (Outputs scope) k)"
  using assms
  by (simp add: withOutputs_def scope_ok_def mget_copy_into keys_ok_copy_into keys_ok_mput mget_mput
      wf_map_keys split: option.split)

section \<open>Per-item templates\<close>

record itemTemplate =
  it_name :: string
  it_text :: string

definition newItemTemplate :: "pipe_env \<Rightarrow> string \<Rightarrow> string \<Rightarrow> string \<Rightarrow> itemTemplate res" where
  "newItemTemplate env field stepName expr =
     (if expr = [] then Inl (Errorf ''%s is empty'' [AStr field])
      else let name = field @ ''['' @ stepName @ '']'' in
        case pe_parse env name expr of
          Some err \<Rightarrow> Inl err
        | None \<Rightarrow> Inr \<lparr>it_name = name, it_text = expr\<rparr>)"

definition item_render :: "pipe_env \<Rightarrow> itemTemplate \<Rightarrow> gval gmap \<Rightarrow> string res" where
  "item_render env it data = pe_exec env (it_name it) (it_text it) data"

text \<open>A \<open>keyExprEvaluator\<close> is its template; \<open>eval\<close> trims the rendered key and rejects an empty one.\<close>

definition newKeyExprEvaluator :: "pipe_env \<Rightarrow> string \<Rightarrow> string \<Rightarrow> itemTemplate res" where
  "newKeyExprEvaluator env stepName expr = newItemTemplate env ''keyExpr'' stepName expr"

definition keyExpr_eval :: "pipe_env \<Rightarrow> itemTemplate \<Rightarrow> gval gmap \<Rightarrow> Scope \<Rightarrow> string res" where
  "keyExpr_eval env k bindings scope =
     (case item_render env k (withOutputs bindings scope) of
        Inl err \<Rightarrow> Inl err
      | Inr out \<Rightarrow>
          let key = trim_space out in
          if key = [] then Inl (Errorf ''keyExpr produced an empty key'' []) else Inr key)"

lemma keyExpr_eval_nonempty: "keyExpr_eval env k b sc = Inr key \<Longrightarrow> key \<noteq> []"
  by (auto simp: keyExpr_eval_def Let_def split: sum.splits if_splits)

text \<open>The bindings of an item of a list and of an entry of a map.\<close>

definition index_bindings :: "nat \<Rightarrow> gval \<Rightarrow> gval gmap" where
  "index_bindings i item = mput ''index'' (VInt (int i)) (mput ''value'' item [])"

definition key_bindings :: "string \<Rightarrow> gval \<Rightarrow> gval gmap" where
  "key_bindings key item = mput ''key'' (VStr key) (mput ''value'' item [])"

lemma keys_ok_bindings [simp]: "keys_ok (index_bindings i v)" "keys_ok (key_bindings k v)"
  by (simp_all add: index_bindings_def key_bindings_def keys_ok_mput)

text \<open>
  The data an expression sees: the item's own bindings first, then \<open>.values\<close>, then the outputs of
  the earlier steps. No step can hide \<open>.value\<close>, \<open>.index\<close>, \<open>.key\<close> or \<open>.values\<close>.
\<close>

theorem withOutputs_shadowing:
  assumes "keys_ok bindings" and "scope_ok scope"
  shows "keys_ok (withOutputs bindings scope) \<and>
    mget (withOutputs bindings scope) k =
    (case mget bindings k of
       Some v \<Rightarrow> Some v
     | None \<Rightarrow> if k = ValuesKey then Some (VMap (Values scope)) else mget (Outputs scope) k)"
  using mget_withOutputs [OF assms, of k]
  by (simp add: withOutputs_def keys_ok_copy_into keys_ok_mput)

theorem withOutputs_shadowing_witness:
  "mget (withOutputs (index_bindings 3 VNil)
     \<lparr>Sources = [], Values = [(''a'', VNil)], Outputs = [(''value'', VBool True), (''x'', VInt 1)]\<rparr>)
     ''value'' = Some VNil"
  using withOutputs_shadowing [of "index_bindings 3 VNil"
      "\<lparr>Sources = [], Values = [(''a'', VNil)], Outputs = [(''value'', VBool True), (''x'', VInt 1)]\<rparr>"
      "''value''"]
  by (simp add: scope_ok_def wf_map_def index_bindings_def)

section \<open>Helpers of the iterating verbs\<close>

definition listInput :: "gval gmap \<Rightarrow> string \<Rightarrow> gval list res" where
  "listInput outputs frm =
     (case mget outputs frm of
        None \<Rightarrow> Inl (Errorf ''from %q is not defined'' [AStr frm])
      | Some (VList list) \<Rightarrow> Inr list
      | Some v \<Rightarrow> Inl (Errorf ''from %q is not a list (got %T)'' [AStr frm, AStr (go_type v)]))"

definition sortedKeys :: "'v gmap \<Rightarrow> string list" where
  "sortedKeys m = sort (mkeys m)"

lemma sortedKeys_mkeys: "keys_ok m \<Longrightarrow> sortedKeys m = mkeys m"
  by (simp add: sortedKeys_def sorted_sort_id keys_ok_sorted)

text \<open>Sorting makes the result independent of the order in which Go iterates over the map.\<close>

lemma sortedKeys_perm: "mset m' = mset m \<Longrightarrow> sortedKeys m' = sortedKeys m"
proof -
  assume "mset m' = mset m"
  then have "mset (mkeys m') = mset (mkeys m)" by (simp add: mkeys_def)
  then show ?thesis
    unfolding sortedKeys_def by (metis mset_sort properties_for_sort sorted_sort)
qed

lemma sortedKeys_mget: "k \<in> set (sortedKeys m) \<Longrightarrow> \<exists>v. mget m k = Some v"
  using mget_None_iff [of m k] by (auto simp: sortedKeys_def)

section \<open>Sample environment\<close>

text \<open>
  A small environment for the concrete runs: a template text is the name of a datum, whose string is the
  output, or stands for itself; the decoder knows one document; every file holds its own path, and a
  glob finds two files.
\<close>

definition sample_exec :: "string \<Rightarrow> string \<Rightarrow> gval gmap \<Rightarrow> string res" where
  "sample_exec name text data = (case mget data text of Some (VStr s) \<Rightarrow> Inr s | _ \<Rightarrow> Inr text)"

definition sample_decoder :: decoder where
  "sample_decoder raw =
     (if raw = [] then Inr VNil else if raw = ''tree'' then Inr (VMap [(''a'', VStr ''1'')]) else Inr (VStr raw))"

definition sample_os :: os_env where
  "sample_os = \<lparr>os_open = (\<lambda>p. Inr \<lparr>of_stat = Inr \<lparr>fi_regular = True, fi_size = int (length p), fi_mode = 420\<rparr>,
       of_data = Inr p\<rparr>),
     dirfs_stat = (\<lambda>d p. Inr \<lparr>fi_regular = True, fi_size = 1, fi_mode = 420\<rparr>),
     dirfs_glob = (\<lambda>d p. Inr [''b'', ''a''])\<rparr>"

definition sample_pipe :: pipe_env where
  "sample_pipe = \<lparr>pe_ctx = (\<lambda>_. None), pe_yaml = sample_decoder, pe_json = sample_decoder,
     pe_parse = (\<lambda>_ _. None), pe_exec = sample_exec, pe_os = sample_os\<rparr>"

lemma sample_decoder_ok: "decoder_ok sample_decoder"
  by (auto simp: decoder_ok_def sample_decoder_def wf_map_def split: if_splits)

lemma sample_pipe_ok: "env_ok sample_pipe"
  by (simp add: env_ok_def sample_pipe_def sample_decoder_ok)

end
