(* ===== verification/Render_Engine.thy ===== *)
theory Render_Engine
  imports Item_Template
begin

text \<open>
  The artifact template engine (\<open>internal/render\<close> and the function map of \<open>internal/template\<close>):
  the Helm-style helpers, the function table, the namespace of associated templates and
  \<open>GoEngine.Render\<close>.

  Parameters, in the record \<open>tmpl_lib\<close>: the parser and the evaluator of \<open>text/template\<close>, Sprig's
  functions, and the YAML and JSON codecs. \<open>tl_parse names name text\<close> is the map from template names
  to bodies that parsing \<open>text\<close> yields when the functions \<open>names\<close> are known: the text's own body under
  \<open>name\<close> and one body per \<open>define\<close> block. \<open>tl_exec funcs ns body data\<close> runs a body with a function
  table and a namespace for its \<open>template\<close> actions. What the engine does with these is modelled: the
  association of bodies with names follows \<open>Template.AddParseTree\<close> of the standard library, where
  an empty body never replaces one that is there.

  The helpers \<open>include\<close> and \<open>tpl\<close> call the evaluator again. The nesting of such calls is bounded by
  the stack of the goroutine only; \<open>depth\<close> is the number of nested calls the stack holds, and
  exceeding it aborts the process, which is the value \<open>Panicked\<close>.
\<close>

type_synonym tfunc = "gval list \<Rightarrow> gval res"

record tmpl_lib =
  tl_parse :: "string list \<Rightarrow> string \<Rightarrow> string \<Rightarrow> string gmap res"
  tl_empty :: "string \<Rightarrow> bool"
  tl_exec :: "tfunc gmap \<Rightarrow> string gmap \<Rightarrow> string \<Rightarrow> gval \<Rightarrow> string res"
  tl_sprig :: "tfunc gmap"
  tl_yaml_marshal :: "gval \<Rightarrow> string res"
  tl_json_marshal :: "gval \<Rightarrow> string res"
  tl_yaml_map :: "string \<Rightarrow> gval gmap res"
  tl_json_map :: "string \<Rightarrow> gval gmap res"
  tl_err_text :: "goerr \<Rightarrow> string"

section \<open>The shared function map\<close>

text \<open>\<open>delete(m, k)\<close>\<close>

definition mdel :: "string \<Rightarrow> 'v gmap \<Rightarrow> 'v gmap" where
  "mdel k m = filter (\<lambda>kv. fst kv \<noteq> k) m"

lemma mget_mdel: "mget (mdel k m) l = (if l = k then None else mget m l)"
  by (induction m) (auto simp: mdel_def)

lemma keys_ok_mdel: "keys_ok m \<Longrightarrow> keys_ok (mdel k m)"
  unfolding mdel_def by (induction m) (auto simp: mkeys_def)

definition FuncMap :: "tfunc gmap \<Rightarrow> tfunc gmap" where
  "FuncMap sprig = mdel ''tpl'' (mdel ''include'' (mdel ''expandenv'' (mdel ''env'' sprig)))"

section \<open>Helm-style helpers\<close>

definition newline :: string where
  "newline = [CHR 0x0A]"

definition toYAML :: "tmpl_lib \<Rightarrow> gval \<Rightarrow> string" where
  "toYAML lib v =
     (case tl_yaml_marshal lib v of Inl err \<Rightarrow> [] | Inr out \<Rightarrow> trim_suffix out newline)"

definition toJSON :: "tmpl_lib \<Rightarrow> gval \<Rightarrow> string" where
  "toJSON lib v = (case tl_json_marshal lib v of Inl err \<Rightarrow> [] | Inr out \<Rightarrow> out)"

text \<open>A failed decode leaves the map empty: only the document as a whole can mismatch the target.\<close>

definition fromYAML :: "tmpl_lib \<Rightarrow> string \<Rightarrow> gval gmap" where
  "fromYAML lib s =
     (case tl_yaml_map lib s of
        Inl err \<Rightarrow> mput ''Error'' (VStr (tl_err_text lib err)) []
      | Inr m \<Rightarrow> m)"

definition fromJSON :: "tmpl_lib \<Rightarrow> string \<Rightarrow> gval gmap" where
  "fromJSON lib s =
     (case tl_json_map lib s of
        Inl err \<Rightarrow> mput ''Error'' (VStr (tl_err_text lib err)) []
      | Inr m \<Rightarrow> m)"

definition required :: "string \<Rightarrow> gval \<Rightarrow> gval res" where
  "required msg val =
     (if val = VNil then Inl (Errorf msg [])
      else if val = VStr [] then Inl (Errorf msg [])
      else Inr val)"

text \<open>
  A function of the table receives its arguments as a list; the evaluator checks their number
  and their types before the call.
\<close>

definition bad_call :: "string \<Rightarrow> 'a res" where
  "bad_call name = Inl (Errorf ''wrong arguments for %s'' [AStr name])"

fun fn_any :: "string \<Rightarrow> (gval \<Rightarrow> gval res) \<Rightarrow> tfunc" where
  "fn_any name f [v] = f v"
| "fn_any name f args = bad_call name"

fun fn_str :: "string \<Rightarrow> (string \<Rightarrow> gval res) \<Rightarrow> tfunc" where
  "fn_str name f [VStr s] = f s"
| "fn_str name f args = bad_call name"

fun fn_str_any :: "string \<Rightarrow> (string \<Rightarrow> gval \<Rightarrow> gval res) \<Rightarrow> tfunc" where
  "fn_str_any name f [VStr s, v] = f s v"
| "fn_str_any name f args = bad_call name"

definition addHelmHelpers :: "tmpl_lib \<Rightarrow> tfunc gmap \<Rightarrow> tfunc gmap" where
  "addHelmHelpers lib fm =
     mput ''required'' (fn_str_any ''required'' required)
    (mput ''fromJson'' (fn_str ''fromJson'' (\<lambda>s. Inr (VMap (fromJSON lib s))))
    (mput ''toJson'' (fn_any ''toJson'' (\<lambda>v. Inr (VStr (toJSON lib v))))
    (mput ''fromYaml'' (fn_str ''fromYaml'' (\<lambda>s. Inr (VMap (fromYAML lib s))))
    (mput ''toYaml'' (fn_any ''toYaml'' (\<lambda>v. Inr (VStr (toYAML lib v)))) fm))))"

definition lookupFileFunc :: "(string \<Rightarrow> string res) option \<Rightarrow> string \<Rightarrow> string res" where
  "lookupFileFunc lookup path =
     (case lookup of
        None \<Rightarrow> Inl (Errorf ''lookupFile: not available in this rendering context'' [])
      | Some f \<Rightarrow> wrap_err ''lookupFile %q: %w'' [AStr path] (f path))"

section \<open>Associated templates\<close>

text \<open>\<open>t.AddParseTree(name, tree)\<close> on the namespace that the templates of one tree share.\<close>

definition add_tree :: "tmpl_lib \<Rightarrow> string \<Rightarrow> string \<Rightarrow> string gmap \<Rightarrow> string gmap" where
  "add_tree lib name body ns =
     (if mget ns name \<noteq> None \<and> tl_empty lib body then ns else mput name body ns)"

text \<open>\<open>t.Parse\<close> adds every body of the text.\<close>

definition add_trees :: "tmpl_lib \<Rightarrow> string gmap \<Rightarrow> string gmap \<Rightarrow> string gmap" where
  "add_trees lib trees ns = fold (\<lambda>(name, body). add_tree lib name body) trees ns"

section \<open>Running a template\<close>

text \<open>
  \<open>includeFunc\<close>, over the execution of a body one level deeper. A run-time abort is not an error
  value that the helper could wrap.
\<close>

definition wrap_run :: "string \<Rightarrow> farg list \<Rightarrow> string res \<Rightarrow> string res" where
  "wrap_run f args r =
     (case r of
        Inl (Panicked m) \<Rightarrow> Inl (Panicked m)
      | Inl err \<Rightarrow> Inl (Wrapf f args err)
      | Inr out \<Rightarrow> Inr out)"

definition includeFunc ::
  "string gmap \<Rightarrow> (string gmap \<Rightarrow> string \<Rightarrow> gval \<Rightarrow> string res) \<Rightarrow> string \<Rightarrow> gval \<Rightarrow> gval res" where
  "includeFunc root exec name data =
     (case mget root name of
        None \<Rightarrow> Inl (Errorf ''include: template %q is not defined'' [AStr name])
      | Some body \<Rightarrow> map_sum id VStr (wrap_run ''include %q: %w'' [AStr name] (exec root body data)))"

text \<open>
  \<open>tplFunc\<close>: the text is parsed in a clone of the namespace, and its own body runs there, even an
  empty one; the clone is dropped afterwards.
\<close>

definition tplFunc ::
  "tmpl_lib \<Rightarrow> string list \<Rightarrow> string gmap \<Rightarrow> (string gmap \<Rightarrow> string \<Rightarrow> gval \<Rightarrow> string res) \<Rightarrow>
   string \<Rightarrow> gval \<Rightarrow> gval res" where
  "tplFunc lib names root exec src data =
     (case tl_parse lib names ''tpl'' src of
        Inl err \<Rightarrow> Inl (Wrapf ''tpl: parse: %w'' [] err)
      | Inr trees \<Rightarrow>
          (case mget trees ''tpl'' of
             None \<Rightarrow> Inl (Panicked ''incomplete template'')
           | Some body \<Rightarrow> map_sum id VStr
               (wrap_run ''tpl: execute: %w'' [] (exec (add_trees lib trees root) body data))))"

definition engine_names :: "tfunc gmap \<Rightarrow> string list" where
  "engine_names base = mkeys (mput ''tpl'' () (mput ''include'' () (map (\<lambda>(k, _). (k, ())) base)))"

text \<open>
  Execution with the recursive helpers bound to the root namespace: the functions a body can call
  are those of \<open>base\<close> and the two that execute one level deeper.
\<close>

primrec exec_body ::
  "tmpl_lib \<Rightarrow> tfunc gmap \<Rightarrow> string gmap \<Rightarrow> nat \<Rightarrow> string gmap \<Rightarrow> string \<Rightarrow> gval \<Rightarrow> string res" where
  "exec_body lib base root 0 = (\<lambda>ns body data. Inl (Panicked ''stack overflow''))"
| "exec_body lib base root (Suc depth) = (\<lambda>ns body data.
     tl_exec lib
       (mput ''tpl'' (fn_str_any ''tpl'' (tplFunc lib (engine_names base) root (exec_body lib base root depth)))
       (mput ''include'' (fn_str_any ''include'' (includeFunc root (exec_body lib base root depth))) base))
       ns body data)"

section \<open>Render\<close>

record Partial =
  p_Name :: string
  p_Src :: string

record Options =
  o_Partials :: "Partial list"
  o_LookupFile :: "(string \<Rightarrow> string res) option"

definition no_options :: Options where
  "no_options = \<lparr>o_Partials = [], o_LookupFile = None\<rparr>"

definition engine_funcs :: "tmpl_lib \<Rightarrow> Options \<Rightarrow> tfunc gmap" where
  "engine_funcs lib opts =
     mput ''lookupFile'' (fn_str ''lookupFile'' (\<lambda>p. map_sum id VStr (lookupFileFunc (o_LookupFile opts) p)))
       (addHelmHelpers lib (FuncMap (tl_sprig lib)))"

definition parse_partial ::
  "tmpl_lib \<Rightarrow> string list \<Rightarrow> Partial \<Rightarrow> string gmap \<Rightarrow> string gmap res" where
  "parse_partial lib names p ns =
     (case tl_parse lib names (p_Name p) (p_Src p) of
        Inl err \<Rightarrow> Inl (RenderError (p_Name p) (Wrapf ''parse partial: %w'' [] err))
      | Inr trees \<Rightarrow> Inr (add_trees lib trees ns))"

text \<open>The namespace when the main template has been parsed.\<close>

definition parse_all :: "tmpl_lib \<Rightarrow> string list \<Rightarrow> string \<Rightarrow> string \<Rightarrow> Options \<Rightarrow> string gmap res" where
  "parse_all lib names name src opts =
     (case loopE (parse_partial lib names) (o_Partials opts) [] of
        Inl err \<Rightarrow> Inl err
      | Inr ns \<Rightarrow>
          (case tl_parse lib names name src of
             Inl err \<Rightarrow> Inl (RenderError name (Wrapf ''parse: %w'' [] err))
           | Inr trees \<Rightarrow> Inr (add_trees lib trees ns)))"

definition Render :: "tmpl_lib \<Rightarrow> nat \<Rightarrow> string \<Rightarrow> string \<Rightarrow> gval gmap \<Rightarrow> Options \<Rightarrow> string res" where
  "Render lib depth name src data opts =
     (let funcs = engine_funcs lib opts in
      case parse_all lib (engine_names funcs) name src opts of
        Inl err \<Rightarrow> Inl err
      | Inr ns \<Rightarrow>
          (case mget ns name of
             None \<Rightarrow> Inl (RenderError name (Wrapf ''execute: %w'' [] (Errorf ''no template %q'' [AStr name])))
           | Some body \<Rightarrow>
               (case exec_body lib funcs ns depth ns body (VMap data) of
                  Inl (Panicked m) \<Rightarrow> Inl (Panicked m)
                | Inl err \<Rightarrow> Inl (RenderError name (Wrapf ''execute: %w'' [] err))
                | Inr out \<Rightarrow> Inr out)))"

section \<open>Sample library\<close>

text \<open>
  A template library for the concrete runs: a text is one body without \<open>define\<close> blocks, and a body
  is its own output; a text that begins with \<open>{{\<close> does not parse; a \<open>self\<close> body includes itself.
\<close>

definition sample_tmpl :: tmpl_lib where
  "sample_tmpl = \<lparr>tl_parse = (\<lambda>names name src. if has_prefix src ''{{'' then Inl (ExtErr ''unclosed action'')
       else Inr [(name, src)]),
     tl_empty = (\<lambda>b. b = []),
     tl_exec = (\<lambda>funcs ns body data. if body = ''self'' then
         (case mget funcs ''include'' of
            None \<Rightarrow> Inl (ExtErr ''no function'')
          | Some f \<Rightarrow> map_sum id (\<lambda>_. []) (f [VStr ''self'', data]))
       else Inr body),
     tl_sprig = [(''env'', \<lambda>_. Inr VNil), (''upper'', \<lambda>_. Inr VNil)],
     tl_yaml_marshal = (\<lambda>v. Inl (ExtErr ''marshal'')), tl_json_marshal = (\<lambda>v. Inr ''1''),
     tl_yaml_map = (\<lambda>s. Inl (ExtErr ''decode'')), tl_json_map = (\<lambda>s. Inr []), tl_err_text = (\<lambda>_. ''error'')\<rparr>"

section \<open>The interface of an engine\<close>

text \<open>
  The contract the builder relies on (\<open>render.Engine\<close>): a failed render is a \<open>render.Error\<close>, which
  \<open>errors.As\<close> finds under every wrapper, unless the process is aborted.
\<close>

fun is_Panicked :: "goerr \<Rightarrow> bool" where
  "is_Panicked (Panicked m) = True"
| "is_Panicked e = False"

locale render_engine =
  fixes render :: "string \<Rightarrow> string \<Rightarrow> gval gmap \<Rightarrow> Options \<Rightarrow> string res"
  assumes render_errors: "render name src data opts = Inl e \<Longrightarrow> is_RenderError e \<or> is_Panicked e"
begin

lemma render_as_render: "render name src data opts = Inl e \<Longrightarrow> \<not> is_Panicked e \<Longrightarrow> as_render e"
  using render_errors [of name src data opts e] by (cases e) auto

end

lemma parse_all_errors: "parse_all lib names name src opts = Inl e \<Longrightarrow> is_RenderError e"
proof -
  have "is_RenderError e" if l: "loopE (parse_partial lib names) ps ns = Inl e" for ps ns
    by (rule loopE_fail [OF l]) (auto simp: parse_partial_def split: sum.splits)
  then show "parse_all lib names name src opts = Inl e \<Longrightarrow> is_RenderError e"
    by (auto simp: parse_all_def split: sum.splits)
qed

lemma Render_errors: "Render lib depth name src data opts = Inl e \<Longrightarrow> is_RenderError e \<or> is_Panicked e"
  by (auto simp: Render_def Let_def dest: parse_all_errors split: sum.splits option.splits goerr.splits)

interpretation go_engine: render_engine "Render lib depth" for lib depth
  by unfold_locales (rule Render_errors)

section \<open>The functions a template can call\<close>

text \<open>
  Host isolation: no template of the engine can call \<open>env\<close> or \<open>expandenv\<close>, and the function map
  shared with the pipeline has none of \<open>env\<close>, \<open>expandenv\<close>, \<open>include\<close> and \<open>tpl\<close>, whatever Sprig offers.
  Every other function of Sprig is there unchanged.
\<close>

theorem no_host_functions:
  "mget (engine_funcs lib opts) ''env'' = None \<and> mget (engine_funcs lib opts) ''expandenv'' = None \<and>
   (\<forall>f. mget (FuncMap (tl_sprig lib)) f =
     (if f \<in> {''env'', ''expandenv'', ''include'', ''tpl''} then None else mget (tl_sprig lib) f))"
  by (simp add: engine_funcs_def addHelmHelpers_def FuncMap_def mget_mput mget_mdel)

text \<open>
  Helper behaviour: \<open>required\<close> fails exactly on \<open>nil\<close> and the empty string and otherwise returns its
  argument; \<open>toYaml\<close> and \<open>toJson\<close> render a value that cannot be marshalled as the empty string;
  \<open>fromYaml\<close> and \<open>fromJson\<close> report a decode error under \<open>Error\<close>.
\<close>

theorem helm_helpers_spec:
  "(is_ok (required msg v) \<longleftrightarrow> v \<noteq> VNil \<and> v \<noteq> VStr []) \<and>
   (\<forall>w. required msg v = Inr w \<longrightarrow> w = v) \<and>
   (\<not> is_ok (tl_yaml_marshal lib v) \<longrightarrow> toYAML lib v = []) \<and>
   (\<not> is_ok (tl_json_marshal lib v) \<longrightarrow> toJSON lib v = []) \<and>
   (\<not> is_ok (tl_yaml_map lib s) \<longrightarrow> mget (fromYAML lib s) ''Error'' \<noteq> None) \<and>
   (\<not> is_ok (tl_json_map lib s) \<longrightarrow> mget (fromJSON lib s) ''Error'' \<noteq> None)"
  by (auto simp: required_def toYAML_def toJSON_def fromYAML_def fromJSON_def split: sum.splits)

text \<open>The output of \<open>toYaml\<close> has lost one trailing newline, no more.\<close>

lemma toYAML_newline: "tl_yaml_marshal lib v = Inr (out @ newline) \<Longrightarrow> toYAML lib v = out"
  by (simp add: toYAML_def trim_suffix_def has_suffix_def)

section \<open>Which definition wins\<close>

lemma mget_add_tree:
  "mget (add_tree lib name body ns) n =
     (if n = name then (if mget ns name \<noteq> None \<and> tl_empty lib body then mget ns name else Some body)
      else mget ns n)"
  by (auto simp: add_tree_def mget_mput)

lemma keys_ok_add_tree: "keys_ok ns \<Longrightarrow> keys_ok (add_tree lib name body ns)"
  by (simp add: add_tree_def keys_ok_mput)

text \<open>The binding of a name when the bodies of a text are added: its own body, if it has one that counts.\<close>

definition redefine :: "tmpl_lib \<Rightarrow> string option \<Rightarrow> string option \<Rightarrow> string option" where
  "redefine lib old new =
     (case new of
        None \<Rightarrow> old
      | Some body \<Rightarrow> if old \<noteq> None \<and> tl_empty lib body then old else Some body)"

lemma redefine_simps [simp]: "redefine lib old None = old"
  "\<not> tl_empty lib body \<Longrightarrow> redefine lib old (Some body) = Some body"
  by (simp_all add: redefine_def)

lemma mget_add_trees:
  "keys_ok trees \<Longrightarrow> mget (add_trees lib trees ns) n = redefine lib (mget ns n) (mget trees n)"
proof (induction trees arbitrary: ns)
  case Nil
  then show ?case by (simp add: add_trees_def)
next
  case (Cons nb trees)
  obtain name body where nb: "nb = (name, body)" by (cases nb)
  have st: "add_trees lib (nb # trees) ns = add_trees lib trees (add_tree lib name body ns)"
    by (simp add: add_trees_def nb)
  have "mget trees name = None" using Cons.prems by (auto simp: nb mget_None_iff)
  then show ?case
    using Cons.IH [of "add_tree lib name body ns"] Cons.prems unfolding st
    by (auto simp: nb mget_add_tree redefine_def)
qed

text \<open>Go adds the bodies of a text in the random order of a map: the order does not matter.\<close>

lemma keys_ok_add_trees: "keys_ok ns \<Longrightarrow> keys_ok (add_trees lib trees ns)"
  unfolding add_trees_def by (induction trees arbitrary: ns) (auto simp: keys_ok_add_tree)

lemma add_tree_commute:
  "keys_ok ns \<Longrightarrow> n \<noteq> m \<Longrightarrow>
   add_tree lib n b (add_tree lib m c ns) = add_tree lib m c (add_tree lib n b ns)"
  by (rule keys_ok_ext) (auto simp: keys_ok_add_tree mget_add_tree)

definition parser_ok :: "tmpl_lib \<Rightarrow> bool" where
  "parser_ok lib \<longleftrightarrow> (\<forall>names name src trees. tl_parse lib names name src = Inr trees \<longrightarrow>
     keys_ok trees \<and> mget trees name \<noteq> None)"

lemma sample_parser_ok: "parser_ok sample_tmpl"
  by (auto simp: parser_ok_def sample_tmpl_def split: if_splits)

lemma partials_keep:
  assumes "parser_ok lib" and "loopE (parse_partial lib names) ps ns = Inr ns'"
    and "\<And>p trees body. p \<in> set ps \<Longrightarrow> tl_parse lib names (p_Name p) (p_Src p) = Inr trees \<Longrightarrow>
      mget trees n = Some body \<Longrightarrow> tl_empty lib body"
    and "mget ns n = Some b"
  shows "mget ns' n = Some b"
proof (rule loopE_inv [OF assms(2), where I = "\<lambda>ns. mget ns n = Some b", OF assms(4)])
  fix p u v
  assume p: "p \<in> set ps" and u: "mget u n = Some b" and v: "parse_partial lib names p u = Inr v"
  then obtain trees where t: "tl_parse lib names (p_Name p) (p_Src p) = Inr trees" "v = add_trees lib trees u"
    by (auto simp: parse_partial_def split: sum.splits)
  then have "keys_ok trees" using assms(1) by (auto simp: parser_ok_def)
  then show "mget v n = Some b"
    using u t assms(3) [OF p t(1)] by (auto simp: mget_add_trees redefine_def split: option.split)
qed

text \<open>
  C34. The closest partial wins: when a partial defines a name with a non-empty body and neither a
  later partial nor the main template defines it with one, that body is what \<open>include\<close> and \<open>template\<close>
  run under the name, whatever the earlier partials define.
\<close>

theorem closest_definition_wins:
  assumes "parser_ok lib" and "parse_all lib names name src opts = Inr ns"
    and "o_Partials opts = before @ p # after"
    and "tl_parse lib names (p_Name p) (p_Src p) = Inr trees" and "mget trees n = Some body"
    and "\<not> tl_empty lib body"
    and "\<And>q ts b. q \<in> set after \<Longrightarrow> tl_parse lib names (p_Name q) (p_Src q) = Inr ts \<Longrightarrow>
      mget ts n = Some b \<Longrightarrow> tl_empty lib b"
    and "\<And>ts b. tl_parse lib names name src = Inr ts \<Longrightarrow> mget ts n = Some b \<Longrightarrow> tl_empty lib b"
  shows "mget ns n = Some body"
proof -
  from assms(2,3) obtain ps main where ps: "loopE (parse_partial lib names) (before @ p # after) [] = Inr ps"
    "tl_parse lib names name src = Inr main" "ns = add_trees lib main ps"
    by (auto simp: parse_all_def split: sum.splits)
  from ps(1) assms(4) obtain u where
    u: "loopE (parse_partial lib names) after (add_trees lib trees u) = Inr ps"
    by (auto simp: loopE_append parse_partial_def split: sum.splits)
  have "keys_ok trees" "keys_ok main" using assms(1,4) ps(2) by (auto simp: parser_ok_def)
  then have "mget (add_trees lib trees u) n = Some body" using assms(5,6) by (simp add: mget_add_trees)
  then have "mget ps n = Some body"
    by (intro partials_keep [OF assms(1) u]) (use assms(7) in blast)
  with \<open>keys_ok main\<close> ps(2,3) assms(8) show ?thesis
    by (auto simp: mget_add_trees redefine_def split: option.split)
qed

theorem closest_definition_wins_witness:
  "mget [(''h'', ''body''), (''main'', ''text'')] ''h'' = Some ''body''"
proof -
  have p: "parse_all sample_tmpl [] ''main'' ''text'' \<lparr>o_Partials = [\<lparr>p_Name = ''h'', p_Src = ''body''\<rparr>], o_LookupFile = None\<rparr> =
      Inr [(''h'', ''body''), (''main'', ''text'')]" by code_simp
  show ?thesis
    by (rule closest_definition_wins [OF sample_parser_ok p, where before = "[]" and after = "[]"])
      (auto simp: sample_tmpl_def has_prefix_def)
qed

text \<open>
  The template that runs is the main one: if its body is not empty, \<open>Render\<close> executes it, even
  when a partial has a template of the same name.
\<close>

theorem main_body_runs:
  assumes "parser_ok lib" and "parse_all lib (engine_names (engine_funcs lib opts)) name src opts = Inr ns"
    and "tl_parse lib (engine_names (engine_funcs lib opts)) name src = Inr main"
    and "mget main name = Some body" and "\<not> tl_empty lib body"
    and "exec_body lib (engine_funcs lib opts) ns depth ns body (VMap data) = Inr out"
  shows "Render lib depth name src data opts = Inr out"
proof -
  obtain ps where "ns = add_trees lib main ps"
    using assms(2,3) by (auto simp: parse_all_def split: sum.splits)
  moreover have "keys_ok main" using assms(1,3) by (auto simp: parser_ok_def)
  ultimately have "mget ns name = Some body" using assms(4,5) by (simp add: mget_add_trees)
  then show ?thesis using assms(2,6) by (simp add: Render_def)
qed

section \<open>Unbounded nesting\<close>

text \<open>
  C35. The engine puts no bound of its own on nested \<open>include\<close> calls: a template that includes itself
  ends in the abort of the process however deep the stack is, never in an error of the render.
\<close>

theorem include_recursion_unbounded:
  assumes "mget root name = Some body"
    and "\<And>funcs ns data f m. mget funcs ''include'' = Some f \<Longrightarrow> f [VStr name, data] = Inl (Panicked m) \<Longrightarrow>
      tl_exec lib funcs ns body data = Inl (Panicked m)"
  shows "exec_body lib base root depth ns body data = Inl (Panicked ''stack overflow'')"
proof (induction depth arbitrary: ns data)
  case 0
  then show ?case by simp
next
  case (Suc depth)
  then show ?case using assms(1)
    by (simp add: assms(2) [of _ "fn_str_any ''include''
          (includeFunc root (exec_body lib base root depth))"] mget_mput includeFunc_def wrap_run_def)
qed

theorem include_recursion_unbounded_witness:
  "exec_body sample_tmpl [] [(''self'', ''self'')] 100 [] ''self'' VNil = Inl (Panicked ''stack overflow'')"
  by (rule include_recursion_unbounded [where name = "''self''"]) (simp_all add: sample_tmpl_def)

end
