(* ===== verification/Go_Paths.thy ===== *)
theory Go_Paths
  imports Go_Strings
begin

text \<open>
  The lexical path functions of Go's \<open>path\<close> and \<open>path/filepath\<close> on a system whose separator is
  the slash, where the two packages agree: \<open>IsAbs\<close>, \<open>Clean\<close>, \<open>Dir\<close>, \<open>Join\<close> and \<open>Base\<close>. \<open>Clean\<close>
  works on the segments of the path with a stack, as the byte loop of the library does with its
  buffer and its \<open>dotdot\<close> mark.
\<close>

definition slash :: char where
  "slash = CHR ''/''"

definition dotdot :: string where
  "dotdot = ''..''"

definition is_abs :: "string \<Rightarrow> bool" where
  "is_abs p = has_prefix p ''/''"

text \<open>One segment against the stack of kept segments (the last one first).\<close>

definition clean_step :: "bool \<Rightarrow> string \<Rightarrow> string list \<Rightarrow> string list" where
  "clean_step rooted seg out =
     (if seg = [] \<or> seg = ''.'' then out
      else if seg = dotdot then
        (case out of
           [] \<Rightarrow> if rooted then [] else [dotdot]
         | tp # rest \<Rightarrow> if tp = dotdot then dotdot # out else rest)
      else seg # out)"

definition clean_segs :: "bool \<Rightarrow> string list \<Rightarrow> string list" where
  "clean_segs rooted segs = rev (fold (clean_step rooted) segs [])"

definition clean :: "string \<Rightarrow> string" where
  "clean p =
     (if p = [] then ''.''
      else let r = join_with slash (clean_segs (is_abs p) (split_on slash p))
           in if is_abs p then slash # r else if r = [] then ''.'' else r)"

text \<open>Everything up to and including the last slash: \<open>path.Split\<close>.\<close>

definition dir_part :: "string \<Rightarrow> string" where
  "dir_part p = rev (dropWhile (\<lambda>c. c \<noteq> slash) (rev p))"

definition path_dir :: "string \<Rightarrow> string" where
  "path_dir p = clean (dir_part p)"

definition path_join :: "string \<Rightarrow> string \<Rightarrow> string" where
  "path_join a b =
     (if a = [] then (if b = [] then [] else clean b)
      else if b = [] then clean a else clean (a @ slash # b))"

text \<open>\<open>filepath.Base\<close>: the last element, trailing slashes removed.\<close>

definition path_base :: "string \<Rightarrow> string" where
  "path_base p =
     (if p = [] then ''.''
      else let q = rev (dropWhile (\<lambda>c. c = slash) (rev p))
           in if q = [] then ''/'' else rev (takeWhile (\<lambda>c. c \<noteq> slash) (rev q)))"

lemmas path_eval = slash_def dotdot_def is_abs_def clean_step_def clean_segs_def clean_def
  dir_part_def path_dir_def path_join_def path_base_def

section \<open>Normal forms\<close>

text \<open>
  A segment is ordinary when it names an entry. A cleaned relative path is some \<open>..\<close> segments
  followed by ordinary ones; a cleaned rooted path has ordinary segments only.
\<close>

definition plain_seg :: "string \<Rightarrow> bool" where
  "plain_seg s \<longleftrightarrow> s \<noteq> [] \<and> s \<noteq> ''.'' \<and> s \<noteq> dotdot \<and> slash \<notin> set s"

definition norm_segs :: "bool \<Rightarrow> string list \<Rightarrow> bool" where
  "norm_segs rooted ss \<longleftrightarrow>
     (\<exists>k qs. ss = replicate k dotdot @ qs \<and> list_all plain_seg qs \<and> (rooted \<longrightarrow> k = 0))"

definition stack_ok :: "bool \<Rightarrow> string list \<Rightarrow> bool" where
  "stack_ok rooted out \<longleftrightarrow> norm_segs rooted (rev out)"

lemma norm_segs_Nil [simp]: "norm_segs rooted []"
  unfolding norm_segs_def by (rule exI [of _ 0]) simp

lemma norm_segs_snoc_plain:
  assumes "norm_segs rooted ss" and "plain_seg s"
  shows "norm_segs rooted (ss @ [s])"
proof -
  from assms(1) obtain k qs where "ss = replicate k dotdot @ qs" "list_all plain_seg qs"
    "rooted \<longrightarrow> k = 0" by (auto simp: norm_segs_def)
  with assms(2) show ?thesis
    unfolding norm_segs_def by (intro exI [of _ k] exI [of _ "qs @ [s]"]) simp
qed

lemma norm_segs_butlast:
  assumes "norm_segs rooted (ss @ [s])" and "s \<noteq> dotdot"
  shows "norm_segs rooted ss"
proof -
  from assms(1) obtain k qs where e: "ss @ [s] = replicate k dotdot @ qs"
    and q: "list_all plain_seg qs" "rooted \<longrightarrow> k = 0" by (auto simp: norm_segs_def)
  have "qs \<noteq> []"
  proof
    assume "qs = []"
    with e have "s \<in> set (replicate k dotdot)" by (metis append_Nil2 in_set_conv_decomp)
    with assms(2) show False by simp
  qed
  then obtain rs r where "qs = rs @ [r]" by (meson rev_exhaust)
  with e q show ?thesis
    unfolding norm_segs_def by (intro exI [of _ k] exI [of _ rs]) auto
qed

lemma norm_segs_dotdot_last:
  assumes "norm_segs rooted (ss @ [dotdot])"
  shows "\<not> rooted \<and> norm_segs rooted (ss @ [dotdot, dotdot])"
proof -
  from assms obtain k qs where e: "ss @ [dotdot] = replicate k dotdot @ qs"
    and q: "list_all plain_seg qs" "rooted \<longrightarrow> k = 0" by (auto simp: norm_segs_def)
  have "qs = []"
  proof (rule ccontr)
    assume "qs \<noteq> []"
    then obtain rs r where "qs = rs @ [r]" by (meson rev_exhaust)
    with e q show False by (simp add: plain_seg_def)
  qed
  with e have ss: "ss @ [dotdot] = replicate k dotdot" by simp
  then have "k \<noteq> 0" by (cases k) auto
  moreover have "ss @ [dotdot, dotdot] = replicate (Suc k) dotdot"
  proof -
    have "ss @ [dotdot, dotdot] = (ss @ [dotdot]) @ [dotdot]" by simp
    also have "\<dots> = replicate k dotdot @ [dotdot]" by (simp only: ss)
    also have "\<dots> = replicate (Suc k) dotdot" by (simp add: replicate_append_same)
    finally show ?thesis .
  qed
  then have "norm_segs False (ss @ [dotdot, dotdot])"
    unfolding norm_segs_def by (intro exI [of _ "Suc k"] exI [of _ "[]"]) simp
  ultimately show ?thesis using q(2) by (cases rooted) auto
qed

lemma clean_step_ok:
  assumes "stack_ok rooted out" and "slash \<notin> set seg"
  shows "stack_ok rooted (clean_step rooted seg out)"
proof -
  consider (skip) "seg = [] \<or> seg = ''.''" | (up) "seg = dotdot" | (plain) "plain_seg seg"
    using assms(2) by (auto simp: plain_seg_def)
  then show ?thesis
  proof cases
    case skip
    then show ?thesis using assms by (simp add: clean_step_def)
  next
    case up
    show ?thesis
    proof (cases out)
      case Nil
      have "norm_segs False [dotdot]"
        unfolding norm_segs_def by (intro exI [of _ 1] exI [of _ "[]"]) simp
      then show ?thesis using Nil up by (simp add: clean_step_def stack_ok_def dotdot_def)
    next
      case (Cons tp rest)
      then show ?thesis
        using assms up norm_segs_dotdot_last [of rooted "rev rest"]
          norm_segs_butlast [of rooted "rev rest" tp]
        by (auto simp: clean_step_def stack_ok_def dotdot_def)
    qed
  next
    case plain
    then show ?thesis
      using assms norm_segs_snoc_plain [of rooted "rev out" seg]
      by (auto simp: clean_step_def stack_ok_def plain_seg_def)
  qed
qed

lemma fold_clean_step_ok:
  "stack_ok rooted out \<Longrightarrow> list_all (\<lambda>s. slash \<notin> set s) segs \<Longrightarrow>
   stack_ok rooted (fold (clean_step rooted) segs out)"
proof (induction segs arbitrary: out)
  case Nil
  then show ?case by simp
next
  case (Cons s segs)
  then have "stack_ok rooted (clean_step rooted s out)" by (intro clean_step_ok) simp_all
  with Cons.IH Cons.prems(2) show ?case by simp
qed

lemma clean_segs_norm: "norm_segs rooted (clean_segs rooted (split_on slash p))"
proof -
  have "list_all (\<lambda>s. slash \<notin> set s) (split_on slash p)"
    unfolding list_all_iff using split_on_segs by blast
  moreover have "stack_ok rooted []" by (simp add: stack_ok_def)
  ultimately have "stack_ok rooted (fold (clean_step rooted) (split_on slash p) [])"
    by (intro fold_clean_step_ok)
  then show ?thesis by (simp add: clean_segs_def stack_ok_def)
qed

lemma norm_segs_member:
  assumes "norm_segs rooted ss" and "s \<in> set ss"
  shows "s = dotdot \<or> plain_seg s"
proof -
  from assms(1) obtain k qs where "ss = replicate k dotdot @ qs" "list_all plain_seg qs"
    unfolding norm_segs_def by blast
  with assms(2) show ?thesis by (auto simp: list_all_iff)
qed

lemma dotdot_facts [simp]: "dotdot \<noteq> []" "[] \<noteq> dotdot" "slash \<notin> set dotdot"
  by (simp_all add: dotdot_def slash_def)

lemma norm_segs_no_slash: "norm_segs rooted ss \<Longrightarrow> s \<in> set ss \<Longrightarrow> slash \<notin> set s"
  using norm_segs_member [of rooted ss s] by (auto simp: plain_seg_def)

lemma norm_segs_nonempty: "norm_segs rooted ss \<Longrightarrow> s \<in> set ss \<Longrightarrow> s \<noteq> []"
  using norm_segs_member [of rooted ss s] by (auto simp: plain_seg_def)

text \<open>Cleaning normal segments changes nothing.\<close>

lemma fold_clean_step_dotdots:
  "fold (clean_step False) (replicate k dotdot) (replicate n dotdot) = replicate (k + n) dotdot"
proof (induction k arbitrary: n)
  case 0
  then show ?case by simp
next
  case (Suc k)
  have "clean_step False dotdot (replicate n dotdot) = replicate (Suc n) dotdot"
    by (cases n) (simp_all add: clean_step_def dotdot_def)
  then show ?case using Suc [of "Suc n"] by simp
qed

lemma fold_clean_step_plain:
  "list_all plain_seg qs \<Longrightarrow> fold (clean_step rooted) qs out = rev qs @ out"
  by (induction qs arbitrary: out) (auto simp: clean_step_def plain_seg_def)

lemma clean_segs_id:
  assumes "norm_segs rooted ss"
  shows "clean_segs rooted ss = ss"
proof -
  from assms obtain k qs where ss: "ss = replicate k dotdot @ qs" "list_all plain_seg qs"
    "rooted \<longrightarrow> k = 0" by (auto simp: norm_segs_def)
  have "fold (clean_step rooted) (replicate k dotdot) [] = replicate k dotdot"
    using ss(3) fold_clean_step_dotdots [of k 0] by (cases rooted) auto
  with ss(1,2) show ?thesis
    by (simp add: clean_segs_def fold_clean_step_plain)
qed

section \<open>Cleaned relative paths\<close>

lemma join_with_Nil_iff:
  "(\<And>s. s \<in> set ss \<Longrightarrow> s \<noteq> []) \<Longrightarrow> join_with c ss = [] \<longleftrightarrow> ss = []"
  by (cases "(c, ss)" rule: join_with.cases) auto

lemma hd_join_with:
  "ss \<noteq> [] \<Longrightarrow> hd ss \<noteq> [] \<Longrightarrow> hd (join_with c ss) = hd (hd ss)"
  by (cases "(c, ss)" rule: join_with.cases) auto

text \<open>
  A relative path cleans to \<open>.\<close> or to the join of its non-empty list of normal segments.
\<close>

lemma clean_relative:
  assumes "\<not> is_abs p"
  shows "clean p = ''.'' \<or>
    (\<exists>ss. ss \<noteq> [] \<and> norm_segs False ss \<and> clean p = join_with slash ss)"
proof (cases "p = []")
  case True
  then show ?thesis by (simp add: clean_def)
next
  case False
  let ?ss = "clean_segs False (split_on slash p)"
  have n: "norm_segs False ?ss" by (rule clean_segs_norm)
  then have "join_with slash ?ss = [] \<longleftrightarrow> ?ss = []"
    by (intro join_with_Nil_iff) (rule norm_segs_nonempty)
  then show ?thesis using n False assms by (auto simp: clean_def Let_def)
qed

lemma split_norm:
  "norm_segs rooted ss \<Longrightarrow> ss \<noteq> [] \<Longrightarrow> split_on slash (join_with slash ss) = ss"
  by (rule split_join) (auto dest: norm_segs_no_slash)

lemma norm_not_abs:
  assumes "norm_segs rooted ss" and "ss \<noteq> []"
  shows "\<not> is_abs (join_with slash ss)"
proof -
  obtain s where s: "hd ss = s" "s \<in> set ss" using assms(2) by simp
  have "s \<noteq> []" "slash \<notin> set s"
    using assms(1) s norm_segs_nonempty norm_segs_no_slash by blast+
  then have "hd (join_with slash ss) \<noteq> slash"
    using s assms(2) by (metis hd_in_set hd_join_with)
  then show ?thesis
    by (cases "join_with slash ss") (auto simp: is_abs_def slash_def)
qed

lemma clean_norm:
  assumes "norm_segs False ss" and "ss \<noteq> []"
  shows "clean (join_with slash ss) = join_with slash ss"
proof -
  have "join_with slash ss \<noteq> []"
    using assms join_with_Nil_iff [of ss slash] norm_segs_nonempty [OF assms(1)] by blast
  then show ?thesis
    using assms by (simp add: clean_def norm_not_abs split_norm clean_segs_id Let_def)
qed

text \<open>\<open>Clean\<close> is idempotent on relative paths.\<close>

lemma clean_idem_relative:
  assumes "\<not> is_abs p"
  shows "clean (clean p) = clean p"
  using clean_relative [OF assms]
proof
  assume "clean p = ''.''"
  then show ?thesis by (simp add: path_eval has_prefix_def)
next
  assume "\<exists>ss. ss \<noteq> [] \<and> norm_segs False ss \<and> clean p = join_with slash ss"
  then show ?thesis using clean_norm by metis
qed

section \<open>Paths that stay below the root\<close>

text \<open>
  A path is inside when it is a non-empty relative path all of whose segments are ordinary: it
  names an entry below the directory it is opened in, and no lexical step leaves that directory.
\<close>

definition inside :: "string \<Rightarrow> bool" where
  "inside p \<longleftrightarrow> \<not> is_abs p \<and> list_all plain_seg (split_on slash p)"

lemma inside_no_dotdot: "inside p \<Longrightarrow> dotdot \<notin> set (split_on slash p)"
  by (auto simp: inside_def list_all_iff plain_seg_def)

lemma norm_inside:
  assumes "norm_segs False ss" and "ss \<noteq> []" and "hd ss \<noteq> dotdot"
  shows "inside (join_with slash ss)"
proof -
  from assms(1) obtain k qs where ss: "ss = replicate k dotdot @ qs" "list_all plain_seg qs"
    by (auto simp: norm_segs_def)
  have "k = 0" using ss(1) assms(2,3) by (cases k) auto
  with ss have "list_all plain_seg ss" by simp
  then show ?thesis
    using assms by (simp add: inside_def norm_not_abs split_norm)
qed

text \<open>The first segment of a joined path and its prefixes.\<close>

lemma join_hd_dotdot:
  assumes "ss \<noteq> []" and "hd ss = dotdot"
  shows "join_with slash ss = ''..'' \<or> has_prefix (join_with slash ss) ''../''"
  using assms by (cases "(slash, ss)" rule: join_with.cases) (auto simp: dotdot_def slash_def)

lemma clean_inside:
  assumes "\<not> is_abs p" and "clean p \<noteq> ''.''" and "clean p \<noteq> ''..''"
    and "\<not> has_prefix (clean p) ''../''"
  shows "inside (clean p)"
proof -
  from clean_relative [OF assms(1)] assms(2) obtain ss where
    ss: "ss \<noteq> []" "norm_segs False ss" "clean p = join_with slash ss" by auto
  have "hd ss \<noteq> dotdot" using join_hd_dotdot [of ss] ss assms(3,4) by auto
  with ss show ?thesis by (simp add: norm_inside)
qed

text \<open>
  \<open>Clean\<close> of a rooted path is rooted, so a cleaned path is relative only if the path was.
\<close>

lemma is_abs_clean: "is_abs p \<Longrightarrow> is_abs (clean p)"
  by (auto simp: clean_def is_abs_def slash_def Let_def)

lemma inside_nonempty: "inside p \<Longrightarrow> p \<noteq> []"
  by (auto simp: inside_def plain_seg_def)

lemma inside_clean:
  assumes "inside p"
  shows "clean p = p"
proof -
  let ?ss = "split_on slash p"
  have n: "norm_segs False ?ss"
    using assms unfolding inside_def norm_segs_def
    by (intro exI [of _ 0] exI [of _ ?ss]) simp
  have "clean (join_with slash ?ss) = join_with slash ?ss"
    by (rule clean_norm [OF n]) simp
  then show ?thesis by (simp only: join_split)
qed

section \<open>Joining below a directory\<close>

text \<open>Segments without \<open>..\<close> only add ordinary segments.\<close>

lemma fold_clean_step_down:
  assumes "dotdot \<notin> set segs" and "list_all (\<lambda>s. slash \<notin> set s) segs"
  shows "\<exists>qs. list_all plain_seg qs \<and> fold (clean_step rooted) segs out = rev qs @ out"
  using assms
proof (induction segs arbitrary: out)
  case Nil
  then show ?case by (intro exI [of _ "[]"]) simp
next
  case (Cons s segs)
  then obtain qs where qs: "list_all plain_seg qs"
    "fold (clean_step rooted) segs (clean_step rooted s out) = rev qs @ clean_step rooted s out"
    by fastforce
  show ?case
  proof (cases "s = [] \<or> s = ''.''")
    case True
    then have "clean_step rooted s out = out" by (auto simp: clean_step_def)
    with qs show ?thesis by (intro exI [of _ qs]) simp
  next
    case False
    with Cons.prems have "plain_seg s" by (auto simp: plain_seg_def)
    moreover from False Cons.prems have "clean_step rooted s out = s # out"
      by (auto simp: clean_step_def)
    ultimately show ?thesis using qs by (intro exI [of _ "s # qs"]) simp
  qed
qed

text \<open>
  Joining a relative path without \<open>..\<close> to a cleaned rooted directory stays at or below the
  directory: the directory's segments, then ordinary ones.
\<close>

lemma path_join_below:
  assumes "is_abs dir" and "clean dir = dir" and "p \<noteq> []"
    and "dotdot \<notin> set (split_on slash p)"
  shows "\<exists>ds qs. dir = slash # join_with slash ds \<and> list_all plain_seg qs \<and>
    path_join dir p = slash # join_with slash (ds @ qs)"
proof -
  let ?ds = "clean_segs True (split_on slash dir)"
  have nd: "dir \<noteq> []" using assms(1) by (auto simp: is_abs_def)
  have d: "dir = slash # join_with slash ?ds"
    using assms(1,2) nd by (simp add: clean_def Let_def)
  have "list_all (\<lambda>s. slash \<notin> set s) (split_on slash p)"
    unfolding list_all_iff using split_on_segs by blast
  then obtain qs where qs: "list_all plain_seg qs"
    "fold (clean_step True) (split_on slash p) (fold (clean_step True) (split_on slash dir) []) =
     rev qs @ fold (clean_step True) (split_on slash dir) []"
    using fold_clean_step_down [OF assms(4)] by blast
  have a: "is_abs (dir @ slash # p)" using assms(1) by (auto simp: is_abs_def has_prefix_iff)
  have "clean_segs True (split_on slash (dir @ slash # p)) = ?ds @ qs"
    using qs(2) by (simp add: clean_segs_def split_on_append_gen)
  then have "path_join dir p = slash # join_with slash (?ds @ qs)"
    using a nd assms(3) by (simp add: path_join_def clean_def Let_def)
  with d qs(1) show ?thesis by blast
qed

section \<open>The directory of a path\<close>

lemma dir_part_base: "slash \<notin> set b \<Longrightarrow> dir_part b = []"
proof -
  assume "slash \<notin> set b"
  then have "dropWhile (\<lambda>c. c \<noteq> slash) (rev b) = []" by (auto simp: dropWhile_eq_Nil_conv)
  then show ?thesis by (simp add: dir_part_def)
qed

lemma dir_part_append: "slash \<notin> set b \<Longrightarrow> dir_part (q @ slash # b) = q @ [slash]"
proof -
  assume b: "slash \<notin> set b"
  have "dropWhile (\<lambda>c. c \<noteq> slash) (rev b @ slash # rev q) = slash # rev q"
    by (subst dropWhile_append2) (use b in auto)
  then show ?thesis by (simp add: dir_part_def)
qed

lemma path_cases:
  obtains (base) "slash \<notin> set p" | (split) q b where "p = q @ slash # b" "slash \<notin> set b"
  by (metis split_list_last)

lemma join_with_snoc: "ss \<noteq> [] \<Longrightarrow> join_with c (ss @ [s]) = join_with c ss @ c # s"
  by (induction c ss rule: join_with.induct) auto

text \<open>The directory of an entry below the root drops its last segment.\<close>

lemma path_dir_inside:
  assumes "list_all plain_seg ss" and "plain_seg b"
  shows "path_dir (join_with slash (ss @ [b])) = (if ss = [] then ''.'' else join_with slash ss)"
proof (cases "ss = []")
  case True
  then show ?thesis using assms(2) by (simp add: path_dir_def dir_part_base plain_seg_def clean_def)
next
  case False
  have n: "norm_segs False ss" unfolding norm_segs_def by (intro exI [of _ 0] exI [of _ ss]) (simp add: assms)
  have "\<not> is_abs (join_with slash ss @ [slash])"
    using norm_not_abs [OF n False] join_with_Nil_iff [of ss slash] norm_segs_nonempty [OF n] False
    by (auto simp: is_abs_def has_prefix_def take_Suc_conv_app_nth)
  moreover have "clean_segs False (split_on slash (join_with slash ss @ [slash])) = ss"
    using clean_segs_id [OF n]
    by (simp add: split_on_append_gen split_norm [OF n False] clean_segs_def clean_step_def)
  ultimately show ?thesis
    using False assms(2) join_with_Nil_iff [of ss slash] norm_segs_nonempty [OF n]
    by (auto simp: join_with_snoc path_dir_def dir_part_append plain_seg_def clean_def Let_def)
qed

text \<open>\<open>Dir\<close> shortens a path until it reaches a fixed point: the recursion over parents ends.\<close>

definition segs_weight :: "string list \<Rightarrow> nat" where
  "segs_weight ss = sum_list (map (\<lambda>s. Suc (length s)) ss)"

lemma segs_weight_simps [simp]:
  "segs_weight [] = 0"
  "segs_weight (s # ss) = Suc (length s) + segs_weight ss"
  "segs_weight (ss @ ts) = segs_weight ss + segs_weight ts"
  "segs_weight (rev ss) = segs_weight ss"
  by (simp_all add: segs_weight_def rev_map [symmetric])

lemma length_join: "ss \<noteq> [] \<Longrightarrow> Suc (length (join_with c ss)) = segs_weight ss"
  by (induction c ss rule: join_with.induct) auto

lemma segs_weight_split: "segs_weight (split_on c p) = Suc (length p)"
  using length_join [of "split_on c p" c] by (simp add: join_split)

lemma clean_step_weight:
  "segs_weight (clean_step rooted s out) \<le> segs_weight out + segs_weight (filter (\<lambda>s. s \<noteq> []) [s])"
  by (auto simp: clean_step_def split: list.splits)

lemma clean_segs_weight:
  "segs_weight (clean_segs rooted segs) \<le> segs_weight (filter (\<lambda>s. s \<noteq> []) segs)"
proof -
  have "segs_weight (fold (clean_step rooted) segs out) \<le>
      segs_weight out + segs_weight (filter (\<lambda>s. s \<noteq> []) segs)" for out
  proof (induction segs arbitrary: out)
    case (Cons s segs)
    show ?case
      using Cons [of "clean_step rooted s out"] clean_step_weight [of rooted s out]
      by (auto split: if_splits)
  qed simp
  from this [of "[]"] show ?thesis by (simp add: clean_segs_def)
qed

lemma filter_weight: "segs_weight (filter P segs) \<le> segs_weight segs"
  by (induction segs) auto

lemma segs_weight_prefix: "segs_weight (filter (\<lambda>s. s \<noteq> []) (split_on slash q)) \<le>
    (if q = [] then 0 else if is_abs (q @ [slash]) then length q else Suc (length q))"
proof (cases q)
  case (Cons c q')
  have "c = slash" if "is_abs (q @ [slash])" using that Cons by (simp add: is_abs_def slash_def)
  then show ?thesis
    using Cons filter_weight [of "\<lambda>s. s \<noteq> []" "split_on slash q"]
      filter_weight [of "\<lambda>s. s \<noteq> []" "split_on slash q'"]
      segs_weight_split [of slash q'] segs_weight_split [of slash q] by auto
qed simp

lemma length_clean_dir:
  "length (clean (q @ [slash])) \<le> (if q = [] then 1 else length q) \<or> clean (q @ [slash]) = ''.''"
proof -
  let ?p = "q @ [slash]"
  let ?ss = "clean_segs (is_abs ?p) (split_on slash ?p)"
  have w: "segs_weight ?ss \<le> segs_weight (filter (\<lambda>s. s \<noteq> []) (split_on slash q))"
    using clean_segs_weight [of "is_abs ?p" "split_on slash ?p"] by (simp add: split_on_append_gen)
  have j: "length (join_with slash ?ss) = segs_weight ?ss - 1"
    using length_join [of ?ss slash] by (cases "?ss = []") auto
  have cl: "clean ?p = (let r = join_with slash ?ss in
      if is_abs ?p then slash # r else if r = [] then ''.'' else r)"
    by (simp add: clean_def)
  let ?j = "join_with slash ?ss"
  have jq: "length ?j \<le> (if q = [] then 0 else if is_abs ?p then length q - 1 else length q)"
    using w j segs_weight_prefix [of q] by (cases "q = []") (auto split: if_splits)
  show ?thesis
  proof (cases "is_abs ?p")
    case True
    then have "clean ?p = slash # ?j" using cl by (simp only: Let_def if_True)
    then have l: "length (clean ?p) = Suc (length ?j)" by simp
    have "length (clean ?p) \<le> (if q = [] then 1 else length q)"
    proof (cases "q = []")
      case True
      then show ?thesis using jq l by simp
    next
      case False
      then have "length ?j \<le> length q - 1" "0 < length q" using jq \<open>is_abs ?p\<close> by simp_all
      then have "length (clean ?p) \<le> length q" using l by linarith
      then show ?thesis using False by simp
    qed
    then show ?thesis ..
  next
    case False
    then have "clean ?p = (if ?j = [] then ''.'' else ?j)" using cl by (simp only: Let_def if_False)
    then show ?thesis using jq False by (auto split: if_splits)
  qed
qed

lemma path_dir_shorter: "path_dir p \<noteq> ''.'' \<Longrightarrow> path_dir p \<noteq> p \<Longrightarrow> length (path_dir p) < length p"
proof (cases p rule: path_cases)
  case base
  then show "path_dir p \<noteq> ''.'' \<Longrightarrow> length (path_dir p) < length p"
    by (simp add: path_dir_def dir_part_base clean_def)
next
  case (split q b)
  assume n: "path_dir p \<noteq> ''.''" "path_dir p \<noteq> p"
  have d: "path_dir p = clean (q @ [slash])" using split by (simp add: path_dir_def dir_part_append)
  show "length (path_dir p) < length p"
  proof (cases "q = []")
    case True
    have "clean [slash] = [slash]" by (simp add: path_eval has_prefix_def)
    then show ?thesis using True split n d by (cases b) simp_all
  next
    case False
    then show ?thesis using length_clean_dir [of q] n(1) d split(1) by simp
  qed
qed

end
