(* ===== verification/Partials.thy ===== *)
theory Partials
  imports Render_Engine Go_Paths
begin

text \<open>
  Reading below a source root (\<open>internal/builder/partials.go\<close>): the bounded read, the discovery of
  the \<open>_helpers.tpl\<close> files between the root and a template, and the \<open>lookupFile\<close> helper. An \<open>os.Root\<close>
  is a parameter, the record \<open>root_env\<close>: what \<open>Stat\<close> and \<open>Open\<close> answer for a path below it.
\<close>

record root_env =
  rt_stat :: "string \<Rightarrow> finfo res"
  rt_open :: "string \<Rightarrow> ofile res"

definition ErrNotExist :: goerr where
  "ErrNotExist = ExtErr ''file does not exist''"

definition os_IsNotExist :: "goerr \<Rightarrow> bool" where
  "os_IsNotExist err = (err = ErrNotExist)"

definition partialFilename :: string where
  "partialFilename = ''_helpers.tpl''"

definition maxPartialFileBytes :: int where
  "maxPartialFileBytes = 10 * 2 ^ 20"

definition maxLookupFileBytes :: int where
  "maxLookupFileBytes = 10 * 2 ^ 20"

section \<open>Bounded reads\<close>

definition readSmallFile :: "root_env \<Rightarrow> string \<Rightarrow> int \<Rightarrow> string res" where
  "readSmallFile root rel maxBytes =
     (case rt_open root rel of
        Inl err \<Rightarrow> Inl err
      | Inr f \<Rightarrow>
          (case read_limited f (maxBytes + 1) of
             Inl err \<Rightarrow> Inl err
           | Inr b \<Rightarrow>
               if int (length b) > maxBytes then
                 Inl (Errorf ''file exceeded the per-file limit of %d bytes during read'' [AInt maxBytes])
               else Inr b))"

lemma readSmallFile_whole:
  "readSmallFile root rel n = Inr b \<Longrightarrow> 0 \<le> n \<Longrightarrow>
   \<exists>f. rt_open root rel = Inr f \<and> of_data f = Inr b \<and> int (length b) \<le> n"
  by (auto simp: readSmallFile_def dest: read_limited_whole split: sum.splits if_splits)

section \<open>Discovery of partials\<close>

definition chain_step :: "string \<Rightarrow> string \<times> string list \<Rightarrow> string \<times> string list" where
  "chain_step p st =
     (case st of (cur, out) \<Rightarrow>
        if p = [] then (cur, out)
        else let cur' = (if cur = [] then p else cur @ slash # p) in (cur', out @ [cur']))"

definition partialChainDirs :: "string \<Rightarrow> string list" where
  "partialChainDirs dir =
     (if dir = [] then [[]]
      else snd (fold chain_step (split_on slash dir) ([], [[]])))"

definition partial_rel :: "string \<Rightarrow> string" where
  "partial_rel d = (if d \<noteq> [] then d @ slash # partialFilename else partialFilename)"

definition discover_in :: "root_env \<Rightarrow> string \<Rightarrow> Partial list \<Rightarrow> Partial list res" where
  "discover_in root d partials =
     (let rel = partial_rel d in
      case rt_stat root rel of
        Inl err \<Rightarrow>
          if os_IsNotExist err then Inr partials else Inl (Wrapf ''stat %q: %w'' [AStr rel] err)
      | Inr info \<Rightarrow>
          if \<not> fi_regular info then Inr partials
          else if fi_size info > maxPartialFileBytes then
            Inl (Errorf ''partial %q is %d bytes which exceeds the per-file limit of %d bytes''
              [AStr rel, AInt (fi_size info), AInt maxPartialFileBytes])
          else case readSmallFile root rel maxPartialFileBytes of
              Inl err \<Rightarrow> Inl (Wrapf ''read partial %q: %w'' [AStr rel] err)
            | Inr body \<Rightarrow> Inr (partials @ [\<lparr>p_Name = rel, p_Src = body\<rparr>]))"

definition discoverPartials :: "root_env \<Rightarrow> string \<Rightarrow> Partial list res" where
  "discoverPartials root srcPath =
     (let dir = path_dir srcPath;
          dir' = (if dir = ''.'' then [] else dir) in
      loopE (discover_in root) (partialChainDirs dir') [])"

section \<open>lookupFile\<close>

definition cleanLookupPath :: "string \<Rightarrow> string res" where
  "cleanLookupPath p =
     (if p = [] then Inl (Errorf ''lookupFile path is empty'' [])
      else if is_abs p then Inl (Errorf ''lookupFile path %q must be relative'' [AStr p])
      else let cleaned = clean p in
        if cleaned = ''.'' \<or> cleaned = ''..'' \<or> has_prefix cleaned ''../'' then
          Inl (Errorf ''lookupFile path %q escapes the alias root'' [AStr p])
        else Inr cleaned)"

definition newLookupFile :: "root_env \<Rightarrow> string \<Rightarrow> string res" where
  "newLookupFile root p =
     (case cleanLookupPath p of
        Inl err \<Rightarrow> Inl err
      | Inr cleaned \<Rightarrow>
          (case rt_stat root cleaned of
             Inl err \<Rightarrow> Inl (Wrapf ''stat: %w'' [] err)
           | Inr info \<Rightarrow>
               if \<not> fi_regular info then Inl (Errorf ''%q is not a regular file'' [AStr p])
               else if fi_size info > maxLookupFileBytes then
                 Inl (Errorf ''%q is %d bytes which exceeds the per-file limit of %d bytes''
                   [AStr p, AInt (fi_size info), AInt maxLookupFileBytes])
               else readSmallFile root cleaned maxLookupFileBytes))"

lemma inside_not_parent:
  assumes "inside p"
  shows "p \<noteq> ''.''" and "p \<noteq> ''..''" and "\<not> has_prefix p ''../''"
proof -
  have segs: "dotdot \<notin> set (split_on slash p)" "''.'' \<notin> set (split_on slash p)"
    using assms by (auto simp: inside_def list_all_iff plain_seg_def)
  show "p \<noteq> ''.''" using segs(2) by (auto simp: slash_def)
  show "p \<noteq> ''..''" using segs(1) by (auto simp: slash_def dotdot_def)
  show "\<not> has_prefix p ''../''"
  proof
    assume "has_prefix p ''../''"
    then obtain r where "p = ''..'' @ slash # r" by (auto simp: has_prefix_iff slash_def)
    then have "dotdot \<in> set (split_on slash p)"
      using split_on_append [of slash "''..''" r] by (simp add: slash_def dotdot_def)
    with segs(1) show False by simp
  qed
qed

text \<open>
  The paths \<open>lookupFile\<close> accepts: the relative ones whose cleaned form names an entry below the root, all
  of whose segments are ordinary.
\<close>

lemma cleanLookupPath_Inr:
  "cleanLookupPath p = Inr c \<longleftrightarrow> \<not> is_abs p \<and> c = clean p \<and> inside c"
proof
  assume "cleanLookupPath p = Inr c"
  then have "\<not> is_abs p" "clean p \<noteq> ''.''" "clean p \<noteq> ''..''" "\<not> has_prefix (clean p) ''../''" "c = clean p"
    by (auto simp: cleanLookupPath_def Let_def split: if_splits)
  then show "\<not> is_abs p \<and> c = clean p \<and> inside c" using clean_inside by simp
next
  assume r: "\<not> is_abs p \<and> c = clean p \<and> inside c"
  have "p \<noteq> []"
  proof
    assume "p = []"
    then have "clean p = ''.''" by (simp add: clean_def)
    with r show False using inside_not_parent(1) [of c] by auto
  qed
  then show "cleanLookupPath p = Inr c"
    using r inside_not_parent [of c] by (auto simp add: cleanLookupPath_def Let_def)
qed

text \<open>
  C15. The jail of \<open>lookupFile\<close>. When a path is relative and its cleaned form names an entry below the
  root, all of whose segments are ordinary, the call looks at that entry alone: under two roots that agree
  on the \<open>Stat\<close> and the \<open>Open\<close> of the cleaned path it gives the same result, whatever else they hold. Any
  other path is refused with one and the same error under every root, so nothing is looked at.
\<close>

theorem newLookupFile_jail:
  "if \<not> is_abs p \<and> inside (clean p) then
     (\<forall>root root'. rt_stat root (clean p) = rt_stat root' (clean p) \<longrightarrow>
        rt_open root (clean p) = rt_open root' (clean p) \<longrightarrow> newLookupFile root p = newLookupFile root' p)
   else (\<exists>err. \<forall>root. newLookupFile root p = Inl err)"
proof (cases "cleanLookupPath p")
  case (Inl err)
  then have "\<not> (\<not> is_abs p \<and> inside (clean p))" using cleanLookupPath_Inr [of p "clean p"] by auto
  then show ?thesis using Inl by (simp add: newLookupFile_def)
next
  case (Inr c)
  then have "\<not> is_abs p \<and> c = clean p \<and> inside c" using cleanLookupPath_Inr by blast
  then have i: "\<not> is_abs p \<and> inside (clean p)" and c: "c = clean p" by auto
  have e: "newLookupFile root p = newLookupFile root' p"
    if "rt_stat root c = rt_stat root' c" "rt_open root c = rt_open root' c" for root root'
  proof -
    have "readSmallFile root c = readSmallFile root' c" using that(2) by (simp add: fun_eq_iff readSmallFile_def)
    then show ?thesis using Inr that(1) by (simp add: newLookupFile_def split: sum.split)
  qed
  show ?thesis unfolding if_P [OF i] using e [unfolded c] by blast
qed

text \<open>Two roots that differ everywhere but at one file.\<close>

definition sample_file :: "string \<Rightarrow> root_env" where
  "sample_file others = \<lparr>rt_stat = (\<lambda>p. Inr \<lparr>fi_regular = True, fi_size = 1, fi_mode = 420\<rparr>),
     rt_open = (\<lambda>p. Inr \<lparr>of_stat = Inr \<lparr>fi_regular = True, fi_size = 1, fi_mode = 420\<rparr>,
       of_data = Inr (if p = ''d/f'' then ''x'' else others)\<rparr>)\<rparr>"

theorem newLookupFile_jail_witness:
  "newLookupFile (sample_file ''y'') ''d/e/../f'' = newLookupFile (sample_file ''z'') ''d/e/../f'' \<and>
   newLookupFile (sample_file ''z'') ''d/e/../f'' = Inr ''x'' \<and>
   (\<exists>err. \<forall>root. newLookupFile root ''d/../../f'' = Inl err)"
proof -
  have p: "\<not> is_abs ''d/e/../f'' \<and> inside (clean ''d/e/../f'')" "clean ''d/e/../f'' = ''d/f''" by (code_simp+)
  have "newLookupFile (sample_file ''y'') ''d/e/../f'' = newLookupFile (sample_file ''z'') ''d/e/../f''"
    using newLookupFile_jail [of "''d/e/../f''"] p by (simp add: sample_file_def)
  moreover have "newLookupFile (sample_file ''z'') ''d/e/../f'' = Inr ''x''" by code_simp
  moreover have "\<not> (\<not> is_abs ''d/../../f'' \<and> inside (clean ''d/../../f''))" by code_simp
  then have "\<exists>err. \<forall>root. newLookupFile root ''d/../../f'' = Inl err"
    using newLookupFile_jail [of "''d/../../f''"] by meson
  ultimately show ?thesis by blast
qed

text \<open>
  What \<open>lookupFile\<close> returns is the whole content of a regular file below the root, at most 10 MiB.
\<close>

theorem newLookupFile_bounded:
  assumes "newLookupFile root p = Inr b"
  shows "\<exists>c info f. inside c \<and> rt_stat root c = Inr info \<and> fi_regular info \<and>
    rt_open root c = Inr f \<and> of_data f = Inr b \<and> length b \<le> 10485760"
proof -
  from assms obtain c info where c: "cleanLookupPath p = Inr c" "rt_stat root c = Inr info"
    "fi_regular info" "readSmallFile root c maxLookupFileBytes = Inr b"
    by (auto simp: newLookupFile_def split: sum.splits if_splits)
  have "inside c"
    using c(1) clean_inside by (auto simp: cleanLookupPath_def Let_def split: if_splits)
  then show ?thesis
    using c readSmallFile_whole [OF c(4)] by (auto simp: maxLookupFileBytes_def)
qed

section \<open>Which partials are found, and in which order\<close>

text \<open>The directories from the root down to the one with the given segments.\<close>

definition ancestors :: "string list \<Rightarrow> string list" where
  "ancestors segs = map (\<lambda>i. join_with slash (take i segs)) [0..<Suc (length segs)]"

lemma chain_fold:
  assumes "list_all plain_seg segs"
  shows "fold chain_step segs ([], [[]]) = (join_with slash segs, ancestors segs)"
  using assms
proof (induction segs rule: rev_induct)
  case Nil
  then show ?case by (simp add: ancestors_def)
next
  case (snoc s segs)
  then have s: "s \<noteq> []" "list_all plain_seg segs" by (simp_all add: plain_seg_def [of s])
  have "join_with slash segs = [] \<longleftrightarrow> segs = []"
    using s(2) by (cases "(slash, segs)" rule: join_with.cases) (auto simp: plain_seg_def)
  then have "chain_step s (join_with slash segs, ancestors segs) =
      (join_with slash (segs @ [s]), ancestors segs @ [join_with slash (segs @ [s])])"
    using s(1) by (auto simp: chain_step_def join_with_snoc Let_def)
  then show ?case using snoc s by (simp add: ancestors_def)
qed

lemma partialChainDirs_ancestors:
  assumes "list_all plain_seg segs"
  shows "partialChainDirs (join_with slash segs) = ancestors segs"
proof (cases "segs = []")
  case True
  then show ?thesis by (simp add: partialChainDirs_def ancestors_def)
next
  case False
  then have "split_on slash (join_with slash segs) = segs"
    using assms by (intro split_join) (auto simp: list_all_iff plain_seg_def)
  moreover have "join_with slash segs \<noteq> []"
    using False assms by (cases "(slash, segs)" rule: join_with.cases) (auto simp: plain_seg_def)
  ultimately show ?thesis using chain_fold [OF assms] by (simp add: partialChainDirs_def)
qed

lemma discover_in_Inr:
  assumes "discover_in root d ps = Inr ps'"
  shows "if is_ok (rt_stat root (partial_rel d)) \<and> fi_regular (projr (rt_stat root (partial_rel d)))
     then \<exists>b. readSmallFile root (partial_rel d) maxPartialFileBytes = Inr b \<and>
       ps' = ps @ [\<lparr>p_Name = partial_rel d, p_Src = b\<rparr>]
     else ps' = ps"
  using assms by (auto simp: discover_in_def Let_def split: sum.splits if_splits)

text \<open>The path of a partial is a regular file.\<close>

definition has_partial :: "root_env \<Rightarrow> string \<Rightarrow> bool" where
  "has_partial root rel \<longleftrightarrow> is_ok (rt_stat root rel) \<and> fi_regular (projr (rt_stat root rel))"

lemma discover_loop:
  assumes "loopE (discover_in root) ds [] = Inr ps"
  shows "map p_Name ps = filter (has_partial root) (map partial_rel ds) \<and>
    (\<forall>p \<in> set ps. readSmallFile root (p_Name p) maxPartialFileBytes = Inr (p_Src p))"
proof (rule loopE_prefix [OF assms, where I = "\<lambda>ds ps.
    map p_Name ps = filter (has_partial root) (map partial_rel ds) \<and>
    (\<forall>p \<in> set ps. readSmallFile root (p_Name p) maxPartialFileBytes = Inr (p_Src p))"])
  fix ys :: "string list" and y zs u v
  assume "map p_Name u = filter (has_partial root) (map partial_rel ys) \<and>
      (\<forall>p \<in> set u. readSmallFile root (p_Name p) maxPartialFileBytes = Inr (p_Src p))"
    and "discover_in root y u = Inr v"
  then show "map p_Name v = filter (has_partial root) (map partial_rel (ys @ [y])) \<and>
      (\<forall>p \<in> set v. readSmallFile root (p_Name p) maxPartialFileBytes = Inr (p_Src p))"
    using discover_in_Inr [of root y u v] by (auto simp: has_partial_def split: if_splits)
qed simp

lemma inside_segs:
  assumes "inside p"
  obtains segs base where "p = join_with slash (segs @ [base])" "list_all plain_seg segs" "plain_seg base"
proof -
  have "split_on slash p \<noteq> []" by simp
  then obtain segs base where sb: "split_on slash p = segs @ [base]" by (metis rev_exhaust)
  with assms have "list_all plain_seg segs" "plain_seg base" by (simp_all add: inside_def)
  moreover have "p = join_with slash (segs @ [base])" using sb by (metis join_split)
  ultimately show thesis using that by blast
qed

text \<open>
  C33. Which partials a template sees, and in which order: for a template at \<open>s1/.../sn/base\<close> the
  directories are the root, \<open>s1\<close>, up to \<open>s1/.../sn\<close>; every one with a regular \<open>_helpers.tpl\<close> gives
  one partial under that path, the root's first and the closest last, with the whole content of the
  file, at most 10 MiB.
\<close>

theorem discoverPartials_root_first:
  assumes "inside srcPath" and "discoverPartials root srcPath = Inr ps"
  shows "\<exists>segs base. srcPath = join_with slash (segs @ [base]) \<and>
    map p_Name ps = filter (has_partial root) (map partial_rel (ancestors segs)) \<and>
    (\<forall>p \<in> set ps. \<exists>f. rt_open root (p_Name p) = Inr f \<and> of_data f = Inr (p_Src p) \<and>
       length (p_Src p) \<le> 10485760)"
proof -
  obtain segs base where sb: "srcPath = join_with slash (segs @ [base])"
    "list_all plain_seg segs" "plain_seg base" using inside_segs [OF assms(1)] by blast
  let ?d = "if path_dir srcPath = ''.'' then [] else path_dir srcPath"
  have "?d = join_with slash segs"
  proof (cases "segs = []")
    case False
    have n: "norm_segs False segs"
      unfolding norm_segs_def by (intro exI [of _ 0] exI [of _ segs]) (simp add: sb)
    have "split_on slash ''.'' = [''.'']" by (simp add: slash_def)
    then have "join_with slash segs \<noteq> ''.''"
      using split_norm [OF n False] sb(2) by (auto simp: plain_seg_def)
    then show ?thesis using path_dir_inside [OF sb(2,3)] sb(1) False by simp
  qed (use path_dir_inside [OF sb(2,3)] sb(1) in simp)
  then have "loopE (discover_in root) (ancestors segs) [] = Inr ps"
    using assms(2) partialChainDirs_ancestors [OF sb(2)] by (simp add: discoverPartials_def Let_def)
  from discover_loop [OF this]
  have "map p_Name ps = filter (has_partial root) (map partial_rel (ancestors segs))"
    and "\<forall>p \<in> set ps. readSmallFile root (p_Name p) maxPartialFileBytes = Inr (p_Src p)" by simp_all
  then show ?thesis using sb(1) readSmallFile_whole [of root _ maxPartialFileBytes]
    by (fastforce simp: maxPartialFileBytes_def)
qed

theorem discoverPartials_root_first_witness:
  "\<exists>segs base. ''a/t.yaml'' = join_with slash (segs @ [base]) \<and>
    [''_helpers.tpl'', ''a/_helpers.tpl''] = filter (has_partial \<lparr>rt_stat = (\<lambda>_. Inr \<lparr>fi_regular = True, fi_size = 1, fi_mode = 420\<rparr>),
       rt_open = (\<lambda>p. Inr \<lparr>of_stat = Inr \<lparr>fi_regular = True, fi_size = 1, fi_mode = 420\<rparr>, of_data = Inr p\<rparr>)\<rparr>)
      (map partial_rel (ancestors segs))"
proof -
  let ?root = "\<lparr>rt_stat = (\<lambda>_. Inr \<lparr>fi_regular = True, fi_size = 1, fi_mode = 420\<rparr>),
     rt_open = (\<lambda>p. Inr \<lparr>of_stat = Inr \<lparr>fi_regular = True, fi_size = 1, fi_mode = 420\<rparr>, of_data = Inr p\<rparr>)\<rparr>"
  have i: "inside ''a/t.yaml''" by code_simp
  have d: "discoverPartials ?root ''a/t.yaml'' = Inr [\<lparr>p_Name = ''_helpers.tpl'', p_Src = ''_helpers.tpl''\<rparr>,
      \<lparr>p_Name = ''a/_helpers.tpl'', p_Src = ''a/_helpers.tpl''\<rparr>]" by code_simp
  from discoverPartials_root_first [OF i d] show ?thesis by auto
qed

end
