(* ===== verification/Staging.thy ===== *)
theory Staging
  imports Item_Template Go_Paths
begin

text \<open>
  The staging directory of an artifact and the two functions that write into it, \<open>mkdirAll\<close> and
  \<open>writeStagedFile\<close> (\<open>internal/builder/builder.go\<close>). The directory is modelled: its entries by
  relative path, each a directory or a file with its bytes and mode. The operations of \<open>os.Root\<close> on
  it are the operating system's; \<open>io\<close> lets any of them fail, as a full disk does.
\<close>

datatype node = NDir | NFile string nat

type_synonym staging = "node gmap"

type_synonym io_faults = "string \<Rightarrow> string \<Rightarrow> goerr option"

definition ErrExist :: goerr where
  "ErrExist = ExtErr ''file exists''"

definition os_IsExist :: "goerr \<Rightarrow> bool" where
  "os_IsExist err = (err = ErrExist)"

definition root_is_dir :: "staging \<Rightarrow> string \<Rightarrow> bool" where
  "root_is_dir sg p \<longleftrightarrow> p = ''.'' \<or> mget sg p = Some NDir"

definition root_Mkdir :: "io_faults \<Rightarrow> string \<Rightarrow> staging \<Rightarrow> staging res" where
  "root_Mkdir io path sg =
     (case io ''mkdir'' path of
        Some err \<Rightarrow> Inl err
      | None \<Rightarrow>
          if path = ''.'' \<or> mget sg path \<noteq> None then Inl ErrExist
          else if \<not> root_is_dir sg (path_dir path) then Inl (ExtErr ''no such directory'')
          else Inr (mput path NDir sg))"

definition root_Create :: "io_faults \<Rightarrow> string \<Rightarrow> staging \<Rightarrow> staging res" where
  "root_Create io path sg =
     (case io ''create'' path of
        Some err \<Rightarrow> Inl err
      | None \<Rightarrow>
          if root_is_dir sg path then Inl (ExtErr ''is a directory'')
          else if \<not> root_is_dir sg (path_dir path) then Inl (ExtErr ''no such directory'')
          else Inr (mput path (NFile [] 438) sg))"

section \<open>The code\<close>

function mkdirAll :: "io_faults \<Rightarrow> string \<Rightarrow> staging \<Rightarrow> staging res" where
  "mkdirAll io path sg =
     (if path = ''.'' \<or> path = [] then Inr sg
      else case root_Mkdir io path sg of
          Inr sg' \<Rightarrow> Inr sg'
        | Inl err \<Rightarrow>
            if os_IsExist err then Inr sg
            else
              case (if path_dir path \<noteq> path then mkdirAll io (path_dir path) sg else Inr sg) of
                Inl err \<Rightarrow> Inl err
              | Inr sg' \<Rightarrow>
                  (case root_Mkdir io path sg' of
                     Inr sg'' \<Rightarrow> Inr sg''
                   | Inl err \<Rightarrow> if \<not> os_IsExist err then Inl err else Inr sg'))"
  by pat_completeness auto
termination
proof (relation "measure (\<lambda>(io, path, sg). if path = ''.'' then 0 else length path)")
  fix io :: io_faults and path :: string and sg :: staging
  assume "\<not> (path = ''.'' \<or> path = [])" "path_dir path \<noteq> path"
  then show "((io, path_dir path, sg), io, path, sg) \<in>
      measure (\<lambda>(io, path, sg). if path = ''.'' then 0 else length path)"
    using path_dir_shorter [of path] by auto
qed simp

declare mkdirAll.simps [simp del]

definition stage_parent :: "io_faults \<Rightarrow> string \<Rightarrow> staging \<Rightarrow> staging res" where
  "stage_parent io dstPath sg =
     (let dir = path_dir dstPath in
      if dir \<noteq> ''.'' \<and> dir \<noteq> [] then
        wrap_err ''create destination directory %q: %w'' [AStr dir] (mkdirAll io dir sg)
      else Inr sg)"

definition writeStagedFile :: "io_faults \<Rightarrow> string \<Rightarrow> string \<Rightarrow> nat \<Rightarrow> staging \<Rightarrow> staging res" where
  "writeStagedFile io dstPath rendered mode sg =
     (case stage_parent io dstPath sg of
        Inl err \<Rightarrow> Inl err
      | Inr sg1 \<Rightarrow>
          (case root_Create io dstPath sg1 of
             Inl err \<Rightarrow> Inl (Wrapf ''create destination %q: %w'' [AStr dstPath] err)
           | Inr sg2 \<Rightarrow>
               (case io ''write'' dstPath of
                  Some err \<Rightarrow> Inl (Wrapf ''write destination %q: %w'' [AStr dstPath] err)
                | None \<Rightarrow>
                    (case io ''chmod'' dstPath of
                       Some err \<Rightarrow> Inl err
                     | None \<Rightarrow> Inr (mput dstPath (NFile rendered mode) sg2)))))"

section \<open>What a write changes\<close>

text \<open>A directory grows: entries stay as they are, and new ones are directories.\<close>

definition grows :: "staging \<Rightarrow> staging \<Rightarrow> bool" where
  "grows sg sg' \<longleftrightarrow> (\<forall>p. mget sg' p = mget sg p \<or> (mget sg p = None \<and> mget sg' p = Some NDir))"

lemma grows_refl [simp, intro]: "grows sg sg"
  by (simp add: grows_def)

lemma grows_trans: "grows a b \<Longrightarrow> grows b c \<Longrightarrow> grows a c"
  unfolding grows_def by metis

lemma grows_get: "grows sg sg' \<Longrightarrow> mget sg p = Some n \<Longrightarrow> mget sg' p = Some n"
  unfolding grows_def by (metis option.discI)

lemma grows_file: "grows sg sg' \<Longrightarrow> mget sg' p = Some (NFile d m) \<Longrightarrow> mget sg p = Some (NFile d m)"
  unfolding grows_def by (metis node.distinct(1) option.inject)

text \<open>Every entry lies in a directory of the tree and is named by a path below the root.\<close>

definition tree_ok :: "staging \<Rightarrow> bool" where
  "tree_ok sg \<longleftrightarrow> keys_ok sg \<and>
     (\<forall>p. mget sg p \<noteq> None \<longrightarrow> inside p \<and> root_is_dir sg (path_dir p))"

lemma tree_ok_Nil [simp]: "tree_ok []"
  by (simp add: tree_ok_def)

lemma root_Mkdir_Inr:
  "root_Mkdir io path sg = Inr sg' \<longleftrightarrow> io ''mkdir'' path = None \<and> path \<noteq> ''.'' \<and> mget sg path = None \<and>
     root_is_dir sg (path_dir path) \<and> sg' = mput path NDir sg"
  by (auto simp: root_Mkdir_def split: option.splits)

lemma grows_put: "mget sg path = None \<Longrightarrow> grows sg (mput path NDir sg)"
  by (simp add: grows_def mget_mput)

lemma root_Mkdir_grows: "root_Mkdir io path sg = Inr sg' \<Longrightarrow> grows sg sg'"
  by (auto simp: root_Mkdir_Inr grows_put)

lemma mkdirAll_grows: "mkdirAll io path sg = Inr sg' \<Longrightarrow> grows sg sg'"
proof (induction io path sg arbitrary: sg' rule: mkdirAll.induct)
  case (1 io path sg)
  show ?case
  proof (cases "path = ''.'' \<or> path = []")
    case True
    with "1.prems" show ?thesis by (simp add: mkdirAll.simps [of io path])
  next
    case False
    show ?thesis
    proof (cases "root_Mkdir io path sg")
      case (Inr s)
      with "1.prems" False show ?thesis
        by (auto simp: mkdirAll.simps [of io path] intro: root_Mkdir_grows)
    next
      case (Inl err)
      show ?thesis
      proof (cases "os_IsExist err")
        case True
        with "1.prems" False Inl show ?thesis by (simp add: mkdirAll.simps [of io path])
      next
        case ne: False
        let ?up = "if path_dir path \<noteq> path then mkdirAll io (path_dir path) sg else Inr sg"
        from "1.prems" False Inl ne obtain s where s: "?up = Inr s"
          and r: "root_Mkdir io path s = Inr sg' \<or> sg' = s"
          by (auto simp: mkdirAll.simps [of io path] split: sum.splits if_splits)
        have "grows sg s"
          using s "1.IH" [OF False Inl ne, of s] by (cases "path_dir path = path") auto
        then show ?thesis using r root_Mkdir_grows grows_trans by blast
      qed
    qed
  qed
qed

lemma tree_ok_put:
  assumes "tree_ok sg" and "inside p" and "root_is_dir sg (path_dir p)" and "n = NDir \<or> mget sg p \<noteq> Some NDir"
  shows "tree_ok (mput p n sg)"
  unfolding tree_ok_def
proof (intro conjI allI impI)
  show "keys_ok (mput p n sg)" using assms(1) by (simp add: tree_ok_def keys_ok_mput)
  have dir: "root_is_dir (mput p n sg) q" if "root_is_dir sg q" for q
    using that assms(4) by (auto simp: root_is_dir_def mget_mput)
  fix q
  assume "mget (mput p n sg) q \<noteq> None"
  then have "q = p \<or> mget sg q \<noteq> None" by (auto simp: mget_mput split: if_splits)
  then show "inside q" "root_is_dir (mput p n sg) (path_dir q)"
    using assms dir by (auto simp: tree_ok_def)
qed

lemma root_Create_Inr: "root_Create io path sg = Inr sg' \<Longrightarrow>
    \<not> root_is_dir sg path \<and> root_is_dir sg (path_dir path) \<and> sg' = mput path (NFile [] 438) sg"
  by (auto simp: root_Create_def split: option.splits if_splits)

lemma writeStagedFile_Inr:
  assumes "writeStagedFile io p rendered mode sg = Inr sg'"
  obtains sg1 where "grows sg sg1" "\<not> root_is_dir sg1 p" "root_is_dir sg1 (path_dir p)"
    "sg' = mput p (NFile rendered mode) (mput p (NFile [] 438) sg1)"
    "sg1 = sg \<or> mkdirAll io (path_dir p) sg = Inr sg1"
proof -
  from assms obtain sg1 where d: "stage_parent io p sg = Inr sg1"
    by (auto simp: writeStagedFile_def split: sum.splits)
  with assms obtain sg2 where c: "root_Create io p sg1 = Inr sg2" and "sg' = mput p (NFile rendered mode) sg2"
    by (auto simp: writeStagedFile_def split: sum.splits option.splits)
  with root_Create_Inr [OF c] have
    r: "\<not> root_is_dir sg1 p" "root_is_dir sg1 (path_dir p)"
      "sg' = mput p (NFile rendered mode) (mput p (NFile [] 438) sg1)" by auto
  from d have "grows sg sg1 \<and> (sg1 = sg \<or> mkdirAll io (path_dir p) sg = Inr sg1)"
    using mkdirAll_grows by (auto simp: stage_parent_def Let_def split: if_splits)
  with r that show thesis by blast
qed

text \<open>
  A write puts the rendered bytes under the destination with the source's mode. Every other file
  of the tree keeps its bytes and mode, and no file but the destination appears.
\<close>

lemma writeStagedFile_files:
  assumes "writeStagedFile io p rendered mode sg = Inr sg'"
  shows "mget sg' q = Some (NFile d m) \<longleftrightarrow>
    (if q = p then d = rendered \<and> m = mode else mget sg q = Some (NFile d m))"
proof -
  obtain sg1 where s: "grows sg sg1" "sg' = mput p (NFile rendered mode) (mput p (NFile [] 438) sg1)"
    by (rule writeStagedFile_Inr [OF assms])
  have "mget sg1 q = Some (NFile d m) \<longleftrightarrow> mget sg q = Some (NFile d m)"
    using grows_get [OF s(1)] grows_file [OF s(1)] by blast
  then show ?thesis by (auto simp: s(2) mget_mput)
qed

section \<open>The staging tree stays a tree\<close>

lemma inside_path_dir:
  assumes "inside p"
  shows "path_dir p = ''.'' \<or> inside (path_dir p) \<and> path_dir p \<noteq> p \<and> path_dir p \<noteq> []"
proof -
  have "split_on slash p \<noteq> []" by simp
  then obtain ss b where sb: "split_on slash p = ss @ [b]" by (metis rev_exhaust)
  then have pl: "list_all plain_seg ss" "plain_seg b" using assms by (simp_all add: inside_def)
  have p: "p = join_with slash (ss @ [b])" using sb by (metis join_split)
  show ?thesis
  proof (cases "ss = []")
    case True
    then show ?thesis using path_dir_inside [OF pl] p by simp
  next
    case False
    have n: "norm_segs False ss"
      unfolding norm_segs_def by (intro exI [of _ 0] exI [of _ ss]) (simp add: pl)
    have "hd ss \<noteq> dotdot" using pl(1) False by (cases ss) (auto simp: plain_seg_def)
    then have i: "inside (join_with slash ss)" using norm_inside n False by blast
    have "join_with slash ss \<noteq> p"
    proof
      assume "join_with slash ss = p"
      then have "ss = ss @ [b]" using split_norm [OF n False] sb by simp
      then show False by simp
    qed
    then show ?thesis using path_dir_inside [OF pl] p False i inside_nonempty [OF i] by simp
  qed
qed

lemma mkdirAll_tree_ok:
  "mkdirAll io path sg = Inr sg' \<Longrightarrow> inside path \<Longrightarrow> tree_ok sg \<Longrightarrow> tree_ok sg'"
proof (induction io path sg arbitrary: sg' rule: mkdirAll.induct)
  case (1 io path sg)
  have mk: "tree_ok s'" if "root_Mkdir io path s = Inr s'" "tree_ok s" for s s'
    using that "1.prems"(2) by (auto simp: root_Mkdir_Inr intro!: tree_ok_put)
  show ?case
  proof (cases "path = ''.'' \<or> path = []")
    case True
    with "1.prems" show ?thesis by (simp add: mkdirAll.simps [of io path])
  next
    case False
    show ?thesis
    proof (cases "root_Mkdir io path sg")
      case (Inr s)
      with "1.prems" False mk show ?thesis by (simp add: mkdirAll.simps [of io path])
    next
      case (Inl err)
      show ?thesis
      proof (cases "os_IsExist err")
        case True
        with "1.prems" False Inl show ?thesis by (simp add: mkdirAll.simps [of io path])
      next
        case ne: False
        let ?up = "if path_dir path \<noteq> path then mkdirAll io (path_dir path) sg else Inr sg"
        from "1.prems" False Inl ne obtain s where s: "?up = Inr s"
          and r: "root_Mkdir io path s = Inr sg' \<or> sg' = s"
          by (auto simp: mkdirAll.simps [of io path] split: sum.splits if_splits)
        have "tree_ok s"
        proof (cases "path_dir path = ''.''")
          case True
          then show ?thesis using s "1.prems"(3) by (auto simp: mkdirAll.simps [of io "''.''"] split: if_splits)
        next
          case d: False
          then have "path_dir path \<noteq> path" "inside (path_dir path)"
            using inside_path_dir "1.prems"(2) by blast+
          then show ?thesis using s "1.IH" [OF False Inl ne _, of s] "1.prems"(3) by simp
        qed
        then show ?thesis using r mk by blast
      qed
    qed
  qed
qed

lemma writeStagedFile_tree_ok:
  assumes "writeStagedFile io p rendered mode sg = Inr sg'" and "inside p" and "tree_ok sg"
  shows "tree_ok sg'"
proof -
  obtain sg1 where s: "\<not> root_is_dir sg1 p" "root_is_dir sg1 (path_dir p)"
    "sg' = mput p (NFile rendered mode) (mput p (NFile [] 438) sg1)"
    "sg1 = sg \<or> mkdirAll io (path_dir p) sg = Inr sg1"
    by (rule writeStagedFile_Inr [OF assms(1)])
  have "tree_ok sg1"
  proof (cases "sg1 = sg \<or> path_dir p = ''.''")
    case True
    then show ?thesis using s(4) assms(3) by (auto simp: mkdirAll.simps [of io "''.''"])
  next
    case False
    then have "inside (path_dir p)" using inside_path_dir [OF assms(2)] by blast
    then show ?thesis using False s(4) mkdirAll_tree_ok assms(3) by blast
  qed
  then have "tree_ok (mput p (NFile [] 438) sg1)"
    using s(1,2) assms(2) by (intro tree_ok_put) (auto simp: root_is_dir_def)
  then show ?thesis
    unfolding s(3) using s(1,2) assms(2) inside_path_dir [OF assms(2)] tree_ok_put [of "mput p (NFile [] 438) sg1" p "NFile rendered mode"]
    by (auto simp: root_is_dir_def mget_mput)
qed

text \<open>
  C27. A staged write is exact: the destination holds the rendered bytes and the template's mode,
  every other file keeps its bytes and mode, no other file appears, and the tree stays a tree
  of entries below the root with every entry in a directory.
\<close>

theorem writeStagedFile_exact:
  assumes "writeStagedFile io p rendered mode sg = Inr sg'" and "inside p" and "tree_ok sg"
  shows "mget sg' p = Some (NFile rendered mode) \<and> tree_ok sg' \<and>
    (\<forall>q d m. q \<noteq> p \<longrightarrow> mget sg' q = Some (NFile d m) \<longleftrightarrow> mget sg q = Some (NFile d m))"
  using writeStagedFile_files [OF assms(1)] writeStagedFile_tree_ok [OF assms] by auto

theorem writeStagedFile_exact_witness:
  "mget [(''d'', NDir), (''d/f'', NFile ''x'' 420)] ''d/f'' = Some (NFile ''x'' 420) \<and>
   tree_ok [(''d'', NDir), (''d/f'', NFile ''x'' 420)]"
proof -
  have w: "writeStagedFile (\<lambda>_ _. None) ''d/f'' ''x'' 420 [] = Inr [(''d'', NDir), (''d/f'', NFile ''x'' 420)]" by code_simp
  have i: "inside ''d/f''" by code_simp
  from writeStagedFile_exact [OF w i tree_ok_Nil] show ?thesis by blast
qed

section \<open>Writing succeeds\<close>

text \<open>The directories above a path are free of files: \<open>mkdirAll\<close> can make each of them.\<close>

definition no_file :: "staging \<Rightarrow> string \<Rightarrow> bool" where
  "no_file sg p \<longleftrightarrow> (\<forall>d m. mget sg p \<noteq> Some (NFile d m))"

lemma no_file_grows: "grows sg sg' \<Longrightarrow> no_file sg p \<Longrightarrow> no_file sg' p"
  unfolding no_file_def using grows_file by blast

lemma no_file_cases: "no_file sg p \<Longrightarrow> mget sg p = None \<or> mget sg p = Some NDir"
  by (cases "mget sg p") (auto simp: no_file_def intro: node.exhaust)

lemma joined_plain:
  assumes "list_all plain_seg ss" and "plain_seg b"
  shows "path_dir (join_with slash (ss @ [b])) = (if ss = [] then ''.'' else join_with slash ss)"
    and "join_with slash (ss @ [b]) \<noteq> ''.''" and "join_with slash (ss @ [b]) \<noteq> []"
proof -
  show "path_dir (join_with slash (ss @ [b])) = (if ss = [] then ''.'' else join_with slash ss)"
    by (rule path_dir_inside [OF assms])
  have "norm_segs False (ss @ [b])"
    unfolding norm_segs_def by (intro exI [of _ 0] exI [of _ "ss @ [b]"]) (simp add: assms)
  then have sp: "split_on slash (join_with slash (ss @ [b])) = ss @ [b]" using split_norm by simp
  have "split_on slash ''.'' = [''.'']" by (simp add: slash_def)
  then show "join_with slash (ss @ [b]) \<noteq> ''.''" "join_with slash (ss @ [b]) \<noteq> []"
    using sp assms(2) by (auto simp: plain_seg_def)
qed

lemma root_Mkdir_works:
  "(\<And>op p. io op p = None) \<Longrightarrow> p \<noteq> ''.'' \<Longrightarrow> root_Mkdir io p s =
     (if mget s p \<noteq> None then Inl ErrExist
      else if \<not> root_is_dir s (path_dir p) then Inl (ExtErr ''no such directory'')
      else Inr (mput p NDir s))"
  by (simp add: root_Mkdir_def)

text \<open>The last step: the parent is there, or has just been made.\<close>

lemma mkdirAll_here:
  assumes "\<And>op p. io op p = None" and "p \<noteq> ''.''" and "p \<noteq> []" and "no_file sg p"
    and "mget sg p \<noteq> None \<or> root_is_dir sg (path_dir p)"
  shows "\<exists>sg'. mkdirAll io p sg = Inr sg' \<and> root_is_dir sg' p"
proof (cases "mget sg p")
  case None
  then have "mkdirAll io p sg = Inr (mput p NDir sg)"
    using assms(2,3,5) by (simp add: mkdirAll.simps [of io p] root_Mkdir_works [OF assms(1,2)])
  then show ?thesis by (auto simp: root_is_dir_def mget_mput)
next
  case (Some x)
  then show ?thesis
    using assms(2,3) no_file_cases [OF assms(4)]
    by (simp add: mkdirAll.simps [of io p] root_Mkdir_works [OF assms(1,2)] os_IsExist_def root_is_dir_def)
qed

lemma mkdirAll_succeeds:
  assumes "\<And>op p. io op p = None"
    and "list_all plain_seg ss" and "ss \<noteq> []"
    and "\<And>i. 0 < i \<Longrightarrow> i \<le> length ss \<Longrightarrow> no_file sg (join_with slash (take i ss))"
  shows "\<exists>sg'. mkdirAll io (join_with slash ss) sg = Inr sg' \<and> root_is_dir sg' (join_with slash ss)"
  using assms(2-)
proof (induction ss rule: rev_induct)
  case Nil
  then show ?case by simp
next
  case (snoc b ss)
  let ?p = "join_with slash (ss @ [b])"
  have pl: "list_all plain_seg ss" "plain_seg b" using snoc.prems(1) by simp_all
  note dir = joined_plain(1) [OF pl] and ne = joined_plain(2,3) [OF pl]
  have free: "no_file sg ?p" using snoc.prems(3) [of "Suc (length ss)"] by simp
  show ?case
  proof (cases "mget sg ?p \<noteq> None \<or> root_is_dir sg (path_dir ?p)")
    case True
    then show ?thesis by (rule mkdirAll_here [OF assms(1) ne free])
  next
    case False
    then have ss: "ss \<noteq> []" using dir by (auto simp: root_is_dir_def)
    have "no_file sg (join_with slash (take i ss))" if "0 < i" "i \<le> length ss" for i
      using snoc.prems(3) [of i] that by simp
    then obtain s where s: "mkdirAll io (join_with slash ss) sg = Inr s" "root_is_dir s (join_with slash ss)"
      using snoc.IH pl(1) ss by blast
    have c: "mget s ?p = None \<or> mget s ?p = Some NDir"
      using no_file_cases no_file_grows mkdirAll_grows [OF s(1)] free by blast
    have "path_dir ?p \<noteq> ?p"
      using dir ss length_join [of "ss @ [b]" slash] length_join [of ss slash] by auto
    then have "mkdirAll io ?p sg = Inr (if mget s ?p = None then mput ?p NDir s else s)"
      using ne c False s dir ss
      by (auto simp: mkdirAll.simps [of io ?p] root_Mkdir_works [OF assms(1) ne(1)] os_IsExist_def ErrExist_def)
    with c show ?thesis by (auto simp: root_is_dir_def mget_mput)
  qed
qed

text \<open>\<open>mkdirAll\<close> touches no path longer than its argument.\<close>

lemma mkdirAll_short:
  "mkdirAll io path sg = Inr sg' \<Longrightarrow> length path < length q \<Longrightarrow> mget sg' q = mget sg q"
proof (induction io path sg arbitrary: sg' rule: mkdirAll.induct)
  case (1 io path sg)
  have mk: "mget s' q = mget s q" if "root_Mkdir io path s = Inr s'" for s s'
    using that "1.prems"(2) by (auto simp: root_Mkdir_Inr mget_mput)
  show ?case
  proof (cases "path = ''.'' \<or> path = []")
    case True
    with "1.prems" show ?thesis by (simp add: mkdirAll.simps [of io path])
  next
    case False
    show ?thesis
    proof (cases "root_Mkdir io path sg")
      case (Inr s)
      with "1.prems" False mk show ?thesis by (simp add: mkdirAll.simps [of io path])
    next
      case (Inl err)
      show ?thesis
      proof (cases "os_IsExist err")
        case True
        with "1.prems" False Inl show ?thesis by (simp add: mkdirAll.simps [of io path])
      next
        case ne: False
        let ?up = "if path_dir path \<noteq> path then mkdirAll io (path_dir path) sg else Inr sg"
        from "1.prems"(1) False Inl ne obtain s where s: "?up = Inr s"
          and r: "root_Mkdir io path s = Inr sg' \<or> sg' = s"
          by (auto simp: mkdirAll.simps [of io path] split: sum.splits if_splits)
        have "mget s q = mget sg q"
        proof (cases "path_dir path = ''.'' \<or> path_dir path = path")
          case True
          then show ?thesis using s by (auto simp: mkdirAll.simps [of io "''.''"] split: if_splits)
        next
          case d: False
          then have "length (path_dir path) < length q"
            using path_dir_shorter [of path] "1.prems"(2) by simp
          then show ?thesis using s "1.IH" [OF False Inl ne _, of s] d by simp
        qed
        then show ?thesis using r mk by metis
      qed
    qed
  qed
qed

text \<open>
  A staged write succeeds whenever it can: with a file system that works, a destination below the
  root is written unless it is a directory already or one of the directories above it is a file;
  \<open>mkdirAll\<close> makes every missing directory on the way.
\<close>

theorem writeStagedFile_succeeds:
  assumes "\<And>op q. io op q = None" and "p = join_with slash (ss @ [b])" and "list_all plain_seg (ss @ [b])"
    and "mget sg p \<noteq> Some NDir"
    and "\<And>i. 0 < i \<Longrightarrow> i \<le> length ss \<Longrightarrow> no_file sg (join_with slash (take i ss))"
  shows "is_ok (writeStagedFile io p rendered mode sg)"
proof -
  have pl: "list_all plain_seg ss" "plain_seg b" using assms(3) by simp_all
  note dir = joined_plain(1) [OF pl, folded assms(2)] and ne = joined_plain(2) [OF pl, folded assms(2)]
  have "\<exists>sg1. stage_parent io p sg = Inr sg1 \<and> root_is_dir sg1 (path_dir p) \<and> mget sg1 p \<noteq> Some NDir"
  proof (cases "ss = []")
    case True
    then show ?thesis using dir assms(4) by (simp add: stage_parent_def root_is_dir_def)
  next
    case False
    obtain sg1 where s: "mkdirAll io (path_dir p) sg = Inr sg1" "root_is_dir sg1 (path_dir p)"
      using mkdirAll_succeeds [of io ss sg, OF assms(1) pl(1) False assms(5)] dir False by auto
    have "length (path_dir p) < length p"
      using dir False length_join [of "ss @ [b]" slash] length_join [of ss slash] assms(2) by auto
    then have "mget sg1 p \<noteq> Some NDir" using mkdirAll_short [OF s(1)] assms(4) by simp
    with s show ?thesis
      using assms(4) by (auto simp: stage_parent_def Let_def mkdirAll.simps [of io "''.''"] mkdirAll.simps [of io "[]"])
  qed
  then obtain sg1 where "stage_parent io p sg = Inr sg1" "root_is_dir sg1 (path_dir p)" "mget sg1 p \<noteq> Some NDir"
    by blast
  then show ?thesis
    using ne by (simp add: writeStagedFile_def root_Create_def root_is_dir_def assms(1))
qed

theorem writeStagedFile_succeeds_witness:
  "is_ok (writeStagedFile (\<lambda>_ _. None) (join_with slash ([''d''] @ [''f''])) ''x'' 420 [])"
  by (rule writeStagedFile_succeeds [OF refl refl]) (simp_all add: plain_seg_def slash_def dotdot_def no_file_def)

end
