(* ===== verification/Dir_Hash.thy ===== *)
theory Dir_Hash
  imports Flux_Prelude Go_Strings "HOL-Library.Word" "HOL-Library.Multiset"
begin

text \<open>
  The content hash of a staged artifact (\<open>internal/builder/dirhash.go\<close>): Adler-32 over one line per
  file, in sorted order. \<open>hash/adler32\<close> of the standard library is modelled; listing the files of
  the directory and opening one are arguments.
\<close>

section \<open>Adler-32\<close>

definition adler_mod :: nat where
  "adler_mod = 65521"

definition adler_byte :: "char \<Rightarrow> nat \<times> nat \<Rightarrow> nat \<times> nat" where
  "adler_byte c st =
     (case st of (a, b) \<Rightarrow>
        let a' = (a + of_char c) mod adler_mod in (a', (b + a') mod adler_mod))"

definition adler_state :: "string \<Rightarrow> nat \<times> nat" where
  "adler_state s = fold adler_byte s (1, 0)"

definition adler32 :: "string \<Rightarrow> 32 word" where
  "adler32 s = (case adler_state s of (a, b) \<Rightarrow> word_of_nat (b * 65536 + a))"

lemma adler_byte_less: "fst (adler_byte c st) < adler_mod" "snd (adler_byte c st) < adler_mod"
  by (auto simp: adler_byte_def adler_mod_def Let_def split: prod.split)

lemma fold_adler_less:
  "fst st < adler_mod \<Longrightarrow> snd st < adler_mod \<Longrightarrow>
   fst (fold adler_byte s st) < adler_mod \<and> snd (fold adler_byte s st) < adler_mod"
  by (induction s arbitrary: st) (simp_all add: adler_byte_less)

lemma adler_state_less: "fst (adler_state s) < 65521" "snd (adler_state s) < 65521"
  using fold_adler_less [of "(1, 0)" s] by (simp_all add: adler_state_def adler_mod_def)

text \<open>The two sums fill the two halves of the word without overflow.\<close>

lemma unat_adler32: "unat (adler32 s) = snd (adler_state s) * 65536 + fst (adler_state s)"
proof -
  have "snd (adler_state s) * 65536 + fst (adler_state s) < 2 ^ 32"
    using adler_state_less [of s] by simp
  then have "unat (word_of_nat (snd (adler_state s) * 65536 + fst (adler_state s)) :: 32 word) =
      snd (adler_state s) * 65536 + fst (adler_state s)"
    by (simp only: unat_of_nat len_of_numeral_defs mod_less) simp
  then show ?thesis by (simp only: adler32_def case_prod_beta)
qed

lemma fst_fold_adler:
  "fst (fold adler_byte s (a, b)) = (a + sum_list (map of_char s)) mod adler_mod" if "a < adler_mod"
  using that
proof (induction s arbitrary: a b)
  case Nil
  then show ?case by simp
next
  case (Cons c s)
  then show ?case
    by (simp add: adler_byte_def Let_def adler_mod_def mod_simps add.assoc)
qed

lemma fst_adler_state: "fst (adler_state s) = (1 + sum_list (map of_char s)) mod 65521"
  using fst_fold_adler [of 1 s 0] by (simp add: adler_state_def adler_mod_def)

text \<open>
  The checksum notices every change of a single byte: two strings that differ in one byte have
  different checksums, so a file cannot keep its line when one byte of it changes.
\<close>

theorem adler32_detects_byte:
  assumes "c \<noteq> d"
  shows "adler32 (p @ c # s) \<noteq> adler32 (p @ d # s)"
proof
  assume "adler32 (p @ c # s) = adler32 (p @ d # s)"
  then have "unat (adler32 (p @ c # s)) mod 65536 = unat (adler32 (p @ d # s)) mod 65536" by simp
  then have "fst (adler_state (p @ c # s)) = fst (adler_state (p @ d # s))"
    using adler_state_less(1) less_trans [OF adler_state_less(1), of 65536] by (simp add: unat_adler32)
  then have "(1 + sum_list (map of_char p) + sum_list (map of_char s) + of_char c) mod (65521 :: nat) =
      (1 + sum_list (map of_char p) + sum_list (map of_char s) + of_char d) mod 65521"
    by (simp add: fst_adler_state ac_simps)
  then have "(of_char c :: nat) mod 65521 = of_char d mod 65521"
    unfolding nat_mod_eq_iff by auto
  moreover have "(of_char c :: nat) < 256" "(of_char d :: nat) < 256"
    using nat_of_char_less_256 by blast+
  ultimately show False using assms by simp
qed

section \<open>The hash of a directory\<close>

definition hash_line :: "string \<Rightarrow> string \<Rightarrow> string" where
  "hash_line file data = fmt_x (unat (adler32 data)) @ ''  '' @ file @ [CHR 0x0A]"

definition hash_file :: "(string \<Rightarrow> string res) \<Rightarrow> string \<Rightarrow> string \<Rightarrow> string res" where
  "hash_file open_file file h =
     (if contains_byte file (CHR 0x0A) then
        Inl (Errorf ''filenames with newlines are not supported'' [])
      else case open_file file of
          Inl err \<Rightarrow> Inl err
        | Inr data \<Rightarrow> Inr (h @ hash_line file data))"

definition dirHashFn :: "string list \<Rightarrow> (string \<Rightarrow> string res) \<Rightarrow> string res" where
  "dirHashFn files open_file =
     map_sum id (\<lambda>h. fmt_d (unat (adler32 h))) (loopE (hash_file open_file) (sort files) [])"

lemma hash_files:
  "loopE (hash_file open_file) files h = Inr h' \<Longrightarrow>
   h' = h @ concat (map (\<lambda>f. hash_line f (projr (open_file f))) files) \<and>
   (\<forall>f \<in> set files. is_ok (open_file f) \<and> CHR 0x0A \<notin> set f)"
proof (induction files arbitrary: h)
  case Nil
  then show ?case by simp
next
  case (Cons f files)
  then obtain d where d: "open_file f = Inr d" "CHR 0x0A \<notin> set f"
    "loopE (hash_file open_file) files (h @ hash_line f d) = Inr h'"
    unfolding loopE.simps(2)
    by (cases "open_file f") (auto simp: hash_file_def [of _ f] contains_byte_def split: if_splits)
  from Cons.IH [OF d(3)] d(1,2) show ?case by simp
qed

text \<open>
  C36. The content hash is a function of the set of files: it does not depend on the order in which
  the directory walk lists them, and it is the checksum of one line per file in sorted order; a
  file name with a newline, which could forge a line, is refused.
\<close>

theorem dirHashFn_spec:
  assumes "mset files' = mset files"
  shows "dirHashFn files' open_file = dirHashFn files open_file \<and>
    (\<forall>h. dirHashFn files open_file = Inr h \<longrightarrow>
       h = fmt_d (unat (adler32 (concat (map (\<lambda>f. hash_line f (projr (open_file f))) (sort files))))) \<and>
       (\<forall>f \<in> set files. is_ok (open_file f) \<and> CHR 0x0A \<notin> set f))"
proof -
  have "sort files' = sort files"
    using assms by (metis mset_sort properties_for_sort sorted_sort)
  moreover have "h = fmt_d (unat (adler32 (concat (map (\<lambda>f. hash_line f (projr (open_file f))) (sort files))))) \<and>
      (\<forall>f \<in> set files. is_ok (open_file f) \<and> CHR 0x0A \<notin> set f)"
    if "dirHashFn files open_file = Inr h" for h
    using that hash_files [of open_file "sort files" "[]"]
    by (auto simp: dirHashFn_def map_sum_def split: sum.splits)
  ultimately show ?thesis by (simp add: dirHashFn_def)
qed

theorem dirHashFn_spec_witness:
  "dirHashFn [''b'', ''a''] (\<lambda>f. Inr f) = dirHashFn [''a'', ''b''] (\<lambda>f. Inr f)"
  using dirHashFn_spec [of "[''b'', ''a'']" "[''a'', ''b'']" "\<lambda>f. Inr f"] by (simp add: add_mset_commute)

end
