(* ===== verification/Source_Ref.thy ===== *)
theory Source_Ref
  imports Go_Strings
begin

text \<open>
  References \<open>@alias/rest\<close>, which the program parses in three places: \<open>splitSourceRef\<close> of the
  pipeline (\<open>internal/pipeline/load.go\<close>), \<open>templateSourceAlias\<close> of the validator
  (\<open>internal/controller/manifestgenerator_validation.go\<close>) and \<open>parseSourceRef\<close> of the builder
  (\<open>internal/builder/builder.go\<close>). Their common contract is the locale \<open>source_ref_parser\<close>.
\<close>

definition slash_char :: char where
  "slash_char = CHR ''/''"

text \<open>\<open>internal/pipeline/load.go\<close>\<close>

definition splitSourceRef :: "string \<Rightarrow> (string \<times> string) option" where
  "splitSourceRef ref =
     (if \<not> has_prefix ref ''@'' then None
      else let body = drop 1 ref; idx = index_byte body slash_char in
        if idx \<le> 0 \<or> idx = int (length body) - 1 then None
        else Some (take (nat idx) body, drop (nat idx + 1) body))"

text \<open>\<open>internal/controller/manifestgenerator_validation.go\<close>\<close>

definition templateSourceAlias :: "string \<Rightarrow> string option" where
  "templateSourceAlias ref =
     (if \<not> has_prefix ref ''@'' then None
      else let rest = drop 1 ref; idx = index_byte rest slash_char in
        if idx \<le> 0 \<or> idx = int (length rest) - 1 then None
        else Some (take (nat idx) rest))"

text \<open>\<open>internal/builder/builder.go\<close>\<close>

definition parseSourceRef :: "string \<Rightarrow> (string \<times> string) res" where
  "parseSourceRef ref =
     (if \<not> has_prefix ref ''@'' then Inl (Errorf ''source ref must start with @'' [])
      else case splitn2 slash_char (drop 1 ref) of
          [a, p] \<Rightarrow>
            if a = [] \<or> p = [] then Inl (Errorf ''source ref must be @<alias>/<path>'' [])
            else if a = ''artifact'' then
              Inl (Errorf ''@artifact is not valid as a template source'' [])
            else Inr (a, p)
        | _ \<Rightarrow> Inl (Errorf ''source ref must be @<alias>/<path>'' []))"

lemmas source_ref_eval = splitSourceRef_def templateSourceAlias_def parseSourceRef_def
  slash_char_def has_prefix_def

section \<open>The contract of a parser of references\<close>

text \<open>
  A reference names an alias and a rest: \<open>@\<close>, a non-empty alias without a slash, a slash and a
  non-empty rest. \<open>reserved\<close> holds the aliases the parser refuses.
\<close>

definition source_ref :: "string \<Rightarrow> string \<Rightarrow> string \<Rightarrow> bool" where
  "source_ref ref a r \<longleftrightarrow>
     ref = CHR ''@'' # a @ slash_char # r \<and> a \<noteq> [] \<and> slash_char \<notin> set a \<and> r \<noteq> []"

lemma source_ref_unique: "source_ref ref a r \<Longrightarrow> source_ref ref a' r' \<Longrightarrow> a = a' \<and> r = r'"
  by (auto simp: source_ref_def first_sep_unique)

locale source_ref_parser =
  fixes parse :: "string \<Rightarrow> (string \<times> string) option"
    and reserved :: "string set"
  assumes parse_iff: "parse ref = Some (a, r) \<longleftrightarrow> source_ref ref a r \<and> a \<notin> reserved"
begin

lemma parse_print: "a \<noteq> [] \<Longrightarrow> slash_char \<notin> set a \<Longrightarrow> r \<noteq> [] \<Longrightarrow> a \<notin> reserved \<Longrightarrow>
    parse (CHR ''@'' # a @ slash_char # r) = Some (a, r)"
  by (simp add: parse_iff source_ref_def)

lemma print_parse: "parse ref = Some (a, r) \<Longrightarrow> ref = CHR ''@'' # a @ slash_char # r"
  by (simp add: parse_iff source_ref_def)

lemma parse_None: "parse ref = None \<longleftrightarrow> \<not> (\<exists>a r. source_ref ref a r \<and> a \<notin> reserved)"
proof (cases "parse ref")
  case (Some ar)
  then show ?thesis using parse_iff [of ref "fst ar" "snd ar"] by auto
next
  case None
  then have "\<not> (source_ref ref a r \<and> a \<notin> reserved)" for a r
    using parse_iff [of ref a r] by simp
  with None show ?thesis by blast
qed

text \<open>Two parsers with the same reserved aliases are the same function.\<close>

lemma parser_agree:
  assumes "source_ref_parser other reserved'"
    and "\<And>a r. source_ref ref a r \<Longrightarrow> a \<in> reserved \<longleftrightarrow> a \<in> reserved'"
  shows "other ref = parse ref"
proof -
  have "other ref = Some ar \<longleftrightarrow> parse ref = Some ar" for ar
    using assms(2) source_ref_parser.parse_iff [OF assms(1), of ref "fst ar" "snd ar"]
      parse_iff [of ref "fst ar" "snd ar"] by auto
  then show ?thesis by (metis not_Some_eq)
qed

end

section \<open>The three parsers keep the contract\<close>

lemma splitSourceRef_iff: "splitSourceRef ref = Some (a, r) \<longleftrightarrow> source_ref ref a r"
proof (cases ref)
  case Nil
  then show ?thesis by (simp add: splitSourceRef_def source_ref_def)
next
  case (Cons c body)
  show ?thesis
  proof (cases "c = CHR ''@''")
    case False
    with Cons show ?thesis by (simp add: splitSourceRef_def source_ref_def)
  next
    case True
    show ?thesis
    proof (cases rule: index_byte_cases [of slash_char body])
      case absent
      then show ?thesis using Cons True by (auto simp: splitSourceRef_def source_ref_def)
    next
      case (found p q)
      then have s: "source_ref ref a r \<longleftrightarrow> a = p \<and> r = q \<and> p \<noteq> [] \<and> q \<noteq> []"
        using Cons True first_sep_unique [of slash_char p a q r]
        unfolding source_ref_def by auto
      show ?thesis unfolding s using Cons True found by (auto simp: splitSourceRef_def Let_def)
    qed
  qed
qed

interpretation pref: source_ref_parser splitSourceRef "{}"
  by unfold_locales (simp add: splitSourceRef_iff)

lemma templateSourceAlias_split: "templateSourceAlias ref = map_option fst (splitSourceRef ref)"
  by (simp add: templateSourceAlias_def splitSourceRef_def Let_def)

definition parseSourceRef_opt :: "string \<Rightarrow> (string \<times> string) option" where
  "parseSourceRef_opt ref = (case parseSourceRef ref of Inl e \<Rightarrow> None | Inr ar \<Rightarrow> Some ar)"

lemma parseSourceRef_iff: "parseSourceRef ref = Inr (a, r) \<longleftrightarrow> source_ref ref a r \<and> a \<noteq> ''artifact''"
proof (cases ref)
  case Nil
  then show ?thesis by (simp add: parseSourceRef_def source_ref_def)
next
  case (Cons c body)
  show ?thesis
  proof (cases "c = CHR ''@''")
    case False
    with Cons show ?thesis by (simp add: parseSourceRef_def source_ref_def)
  next
    case True
    show ?thesis
    proof (cases rule: index_byte_cases [of slash_char body])
      case absent
      then show ?thesis using Cons True by (auto simp: parseSourceRef_def source_ref_def)
    next
      case (found p q)
      then have s: "source_ref ref a r \<longleftrightarrow> a = p \<and> r = q \<and> p \<noteq> [] \<and> q \<noteq> []"
        using Cons True first_sep_unique [of slash_char p a q r]
        unfolding source_ref_def by auto
      show ?thesis unfolding s using Cons True found
        by (auto simp: parseSourceRef_def splitn2_append)
    qed
  qed
qed

interpretation bref: source_ref_parser parseSourceRef_opt "{''artifact''}"
proof
  show "parseSourceRef_opt ref = Some (a, r) \<longleftrightarrow> source_ref ref a r \<and> a \<notin> {''artifact''}" for ref a r
    using parseSourceRef_iff [of ref a r] by (auto simp: parseSourceRef_opt_def split: sum.splits)
qed

text \<open>
  C37. Round trip of references: printing a non-empty alias without a slash and a non-empty rest
  and parsing it back gives both, and every accepted reference is printed from its parts.
\<close>

theorem splitSourceRef_roundtrip:
  "splitSourceRef ref = Some (a, r) \<longleftrightarrow>
     ref = CHR ''@'' # a @ slash_char # r \<and> a \<noteq> [] \<and> slash_char \<notin> set a \<and> r \<noteq> []"
  by (simp add: splitSourceRef_iff source_ref_def)

text \<open>
  The validator and the builder read a template's source in the same way, but for one alias:
  what the validator accepts the builder parses to the same alias, except \<open>artifact\<close>, which only
  the builder refuses. The index arithmetic of the validator never leaves the string.
\<close>

theorem validator_builder_refs_agree:
  "templateSourceAlias ref = Some a \<and> a \<noteq> ''artifact'' \<longleftrightarrow> (\<exists>r. parseSourceRef ref = Inr (a, r))"
proof -
  have "templateSourceAlias ref = Some a \<longleftrightarrow> (\<exists>r. source_ref ref a r)"
    by (auto simp: templateSourceAlias_split splitSourceRef_iff [symmetric])
  then show ?thesis by (auto simp: parseSourceRef_iff)
qed

end
