(* ===== verification/Artifact_Builder.thy ===== *)
theory Artifact_Builder
  imports Partials Staging Dir_Hash Source_Ref
begin

text \<open>
  The artifact builder (\<open>internal/builder/builder.go\<close> and \<open>desttemplate.go\<close>): the iterations of
  \<open>forEach\<close>, the destination paths, rendering a template into the staging directory, and the
  assembly of one artifact.

  Parameters, in the record \<open>bld_env\<close>: the polls of the context, opening a source directory as an
  \<open>os.Root\<close>, the render engine (the contract \<open>render_engine\<close>), the faults of the staging file system,
  the directory walk of \<open>dirhash\<close> and the artifact storage with its filters. What a source directory
  holds may differ from one template to the next: it may be the staging directory, which the templates
  before have written into. So \<open>be_open_root\<close> also takes the moment of the call, as a \<open>poll\<close>.
\<close>

record Artifact =
  af_name :: string
  af_namespace :: string
  af_filename :: string
  af_revision :: string
  af_digest :: string
  af_metadata :: "string gmap"

text \<open>
  A filter of the storage takes the full path of an entry and whether it is a directory, and says
  whether the entry is left out. \<open>Storage.Archive\<close> of a directory gives the artifact with its digest
  and the archive it stores, the bytes of each file by its path below the directory.
\<close>

type_synonym ignore_filter = "string \<Rightarrow> bool \<Rightarrow> bool"

record bld_env =
  be_ctx :: ctx
  be_open_root :: "poll \<Rightarrow> string \<Rightarrow> root_env res"
  be_engine :: "string \<Rightarrow> string \<Rightarrow> gval gmap \<Rightarrow> Options \<Rightarrow> string res"
  be_io :: io_faults
  be_walk :: "staging \<Rightarrow> string \<Rightarrow> (string list \<times> (string \<Rightarrow> string res)) res"
  be_mkdir :: "Artifact \<Rightarrow> goerr option"
  be_lock :: "Artifact \<Rightarrow> goerr option"
  be_SourceIgnoreFilter :: "string list \<Rightarrow> string list \<Rightarrow> ignore_filter"
  be_archive :: "Artifact \<Rightarrow> string \<Rightarrow> ignore_filter \<Rightarrow> staging \<Rightarrow> (Artifact \<times> string gmap) res"

definition maxTemplateFileBytes :: int where
  "maxTemplateFileBytes = 10 * 2 ^ 20"

definition artifactRefPrefix :: string where
  "artifactRefPrefix = ''@artifact/''"

section \<open>Iterations\<close>

record iteration =
  it_label :: string
  it_bindings :: "gval gmap"

definition index_iteration :: "ForEachSpec \<Rightarrow> nat \<times> gval \<Rightarrow> iteration" where
  "index_iteration fe ix =
     (case ix of (i, item) \<Rightarrow>
        \<lparr>it_label = ''list index:'' @ fmt_d i,
         it_bindings = mput (fe_as fe) (VMap (index_bindings i item)) []\<rparr>)"

definition key_iteration :: "ForEachSpec \<Rightarrow> gval gmap \<Rightarrow> string \<Rightarrow> iteration" where
  "key_iteration fe v k =
     \<lparr>it_label = ''map key:'' @ k,
      it_bindings = mput (fe_as fe) (VMap (key_bindings k (case mget v k of None \<Rightarrow> VNil | Some x \<Rightarrow> x))) []\<rparr>"

definition buildIterations :: "ManifestArtifact \<Rightarrow> gval gmap \<Rightarrow> iteration list res" where
  "buildIterations spec data =
     (case ma_forEach spec of
        None \<Rightarrow> Inr [\<lparr>it_label = [], it_bindings = []\<rparr>]
      | Some fe \<Rightarrow>
          (case mget data (fe_from fe) of
             None \<Rightarrow> Inl (Errorf ''forEach.from %q is not defined'' [AStr (fe_from fe)])
           | Some (VList v) \<Rightarrow> Inr (map (index_iteration fe) (enumerate 0 v))
           | Some (VMap v) \<Rightarrow> Inr (map (key_iteration fe v) (sort (mkeys v)))
           | Some src \<Rightarrow> Inl (Errorf ''forEach.from %q is not a list or map (got %T)''
                           [AStr (fe_from fe), AStr (go_type src)])))"

definition overlayData :: "gval gmap \<Rightarrow> gval gmap \<Rightarrow> gval gmap" where
  "overlayData base overlay = copy_into overlay (copy_into base [])"

section \<open>Destination paths\<close>

definition renderDestPath :: "bld_env \<Rightarrow> string \<Rightarrow> gval gmap \<Rightarrow> string res" where
  "renderDestPath env toRef data =
     (if \<not> has_prefix toRef artifactRefPrefix then
        Inl (Errorf ''invalid template destination %q: must start with %q''
          [AStr toRef, AStr artifactRefPrefix])
      else let pathTemplate = trim_prefix toRef artifactRefPrefix in
        if pathTemplate = [] then
          Inl (Errorf ''invalid template destination %q: empty path'' [AStr toRef])
        else case be_engine env (''destination:'' @ toRef) pathTemplate data no_options of
            Inl err \<Rightarrow> Inl err
          | Inr out \<Rightarrow>
              let rendered = trim_space out in
              if rendered = [] then
                Inl (Errorf ''template destination %q rendered to empty path'' [AStr toRef])
              else let cleaned = clean rendered in
                if cleaned = ''.'' \<or> has_prefix cleaned ''..'' \<or> is_abs cleaned then
                  Inl (Errorf ''template destination %q rendered to invalid path %q''
                    [AStr toRef, AStr rendered])
                else Inr cleaned)"

text \<open>The parse check of the validator: a template \<open>dest\<close> with the shared functions only.\<close>

definition parseDestTemplate :: "tmpl_lib \<Rightarrow> string \<Rightarrow> unit res" where
  "parseDestTemplate lib pathTemplate =
     (case tl_parse lib (mkeys (FuncMap (tl_sprig lib))) ''dest'' pathTemplate of
        Inl err \<Rightarrow> Inl (Wrapf ''parse: %w'' [] err)
      | Inr _ \<Rightarrow> Inr ())"

definition ValidateDestTemplate :: "tmpl_lib \<Rightarrow> string \<Rightarrow> unit res" where
  "ValidateDestTemplate lib ref =
     (if \<not> has_prefix ref artifactRefPrefix then
        Inl (Errorf ''must start with %q'' [AStr artifactRefPrefix])
      else let pathTemplate = trim_prefix ref artifactRefPrefix in
        if pathTemplate = [] then Inl (Errorf ''empty path'' [])
        else parseDestTemplate lib pathTemplate)"

section \<open>Rendering one template\<close>

definition renderTemplate ::
  "bld_env \<Rightarrow> root_env \<Rightarrow> string \<Rightarrow> string \<Rightarrow> string \<Rightarrow> gval gmap \<Rightarrow> string res" where
  "renderTemplate env srcRoot srcPath tmplName iterLabel data =
     (case rt_open srcRoot srcPath of
        Inl err \<Rightarrow> Inl (Wrapf ''open template source %q: %w'' [AStr srcPath] err)
      | Inr f \<Rightarrow>
          (case read_limited f (maxTemplateFileBytes + 1) of
             Inl err \<Rightarrow> Inl (Wrapf ''read template source %q: %w'' [AStr srcPath] err)
           | Inr src \<Rightarrow>
               if int (length src) > maxTemplateFileBytes then
                 Inl (Errorf ''template source %q exceeded the per-file limit of %d bytes during read''
                   [AStr srcPath, AInt maxTemplateFileBytes])
               else case discoverPartials srcRoot srcPath of
                   Inl err \<Rightarrow> Inl (Wrapf ''discover partials for %q: %w'' [AStr srcPath] err)
                 | Inr partials \<Rightarrow>
                     let name = (if iterLabel \<noteq> [] then tmplName @ '' ('' @ iterLabel @ '')'' else tmplName) in
                     wrap_err ''render: %w'' []
                       (be_engine env name src data
                         \<lparr>o_Partials = partials, o_LookupFile = Some (newLookupFile srcRoot)\<rparr>)))"

text \<open>The source of a template: its root, its cleaned path and the result of its \<open>Stat\<close>.\<close>

definition open_source ::
  "bld_env \<Rightarrow> poll \<Rightarrow> TemplateSpec \<Rightarrow> string gmap \<Rightarrow> (root_env \<times> string \<times> finfo) res" where
  "open_source env p tmpl sources =
     (case parseSourceRef (ts_from tmpl) of
        Inl err \<Rightarrow> Inl (Wrapf ''invalid template source: %w'' [] err)
      | Inr (srcAlias, srcPath0) \<Rightarrow>
          (case mget sources srcAlias of
             None \<Rightarrow> Inl (Errorf ''source alias %q not found'' [AStr srcAlias])
           | Some srcDir \<Rightarrow>
               (case be_open_root env p srcDir of
                  Inl err \<Rightarrow> Inl (Wrapf ''failed to open source root %q: %w'' [AStr srcDir] err)
                | Inr srcRoot \<Rightarrow>
                    let srcPath = clean srcPath0 in
                    (case rt_stat srcRoot srcPath of
                       Inl err \<Rightarrow>
                         if os_IsNotExist err then
                           Inl (Errorf ''source path %q does not exist in alias %q''
                             [AStr srcPath, AStr srcAlias])
                         else Inl (Wrapf ''failed to stat source %q: %w'' [AStr srcPath] err)
                     | Inr info \<Rightarrow>
                         if \<not> fi_regular info then
                           Inl (Errorf ''source path %q is not a regular file'' [AStr srcPath])
                         else if fi_size info > maxTemplateFileBytes then
                           Inl (Errorf ''template source %q is %d bytes which exceeds the per-file limit of %d bytes''
                             [AStr srcPath, AInt (fi_size info), AInt maxTemplateFileBytes])
                         else Inr (srcRoot, srcPath, info)))))"

definition applyTemplate ::
  "bld_env \<Rightarrow> poll \<Rightarrow> TemplateSpec \<Rightarrow> string gmap \<Rightarrow> gval gmap \<Rightarrow> string \<Rightarrow>
   staging \<times> string gmap \<Rightarrow> (staging \<times> string gmap) res" where
  "applyTemplate env p tmpl sources data iterLabel st =
     (case st of (sg, written) \<Rightarrow>
        (case be_ctx env p of
           Some err \<Rightarrow> Inl err
         | None \<Rightarrow>
             (case open_source env p tmpl sources of
                Inl err \<Rightarrow> Inl err
              | Inr (srcRoot, srcPath, info) \<Rightarrow>
                  (case renderDestPath env (ts_to tmpl) data of
                     Inl err \<Rightarrow> Inl err
                   | Inr destPath \<Rightarrow>
                       (case mget written destPath of
                          Some prev \<Rightarrow> Inl (Errorf ''destination %q already written by template %q''
                                         [AStr destPath, AStr prev])
                        | None \<Rightarrow>
                            (case renderTemplate env srcRoot srcPath (ts_from tmpl) iterLabel data of
                               Inl err \<Rightarrow> Inl err
                             | Inr rendered \<Rightarrow>
                                 (case writeStagedFile (be_io env) destPath rendered (fi_mode info) sg of
                                    Inl err \<Rightarrow> Inl err
                                  | Inr sg' \<Rightarrow> Inr (sg', mput destPath (ts_from tmpl) written))))))))"

section \<open>One artifact\<close>

definition wrap_template :: "TemplateSpec \<Rightarrow> string \<Rightarrow> 'a res \<Rightarrow> 'a res" where
  "wrap_template t label r =
     (if label \<noteq> [] then
        wrap_err ''template %q -> %q (iteration %s): %w'' [AStr (ts_from t), AStr (ts_to t), AStr label] r
      else wrap_err ''template %q -> %q: %w'' [AStr (ts_from t), AStr (ts_to t)] r)"

definition apply_iteration ::
  "bld_env \<Rightarrow> ManifestArtifact \<Rightarrow> string gmap \<Rightarrow> gval gmap \<Rightarrow> nat \<times> iteration \<Rightarrow>
   staging \<times> string gmap \<Rightarrow> (staging \<times> string gmap) res" where
  "apply_iteration env spec sources data ni st =
     (case ni of (n, iter) \<Rightarrow>
        (case be_ctx env (AtIteration (ma_name spec) n) of
           Some err \<Rightarrow> Inl err
         | None \<Rightarrow>
             let iterData = overlayData data (it_bindings iter) in
             loopE (\<lambda>(ti, t) st. wrap_template t (it_label iter)
                 (applyTemplate env (AtTemplate (ma_name spec) n ti) t sources iterData (it_label iter) st))
               (enumerate 0 (ma_templates spec)) st))"

definition applyArtifact ::
  "bld_env \<Rightarrow> ManifestArtifact \<Rightarrow> string gmap \<Rightarrow> gval gmap \<Rightarrow> string \<Rightarrow> staging \<Rightarrow> staging res" where
  "applyArtifact env spec sources data stagingDir sg =
     (case buildIterations spec data of
        Inl err \<Rightarrow> Inl err
      | Inr iters \<Rightarrow>
          (case be_io env ''openroot'' stagingDir of
             Some err \<Rightarrow> Inl (Wrapf ''failed to open staging root %q: %w'' [AStr stagingDir] err)
           | None \<Rightarrow>
               map_sum id fst
                 (loopE (apply_iteration env spec sources data) (enumerate 0 iters) (sg, []))))"

text \<open>\<open>hashStagingDir\<close>\<close>

definition hashStagingDir :: "bld_env \<Rightarrow> staging \<Rightarrow> string \<Rightarrow> string res" where
  "hashStagingDir env sg name =
     (case be_walk env sg name of
        Inl err \<Rightarrow> Inl err
      | Inr (files, open_file) \<Rightarrow> dirHashFn files open_file)"

text \<open>
  \<open>Build\<close>, with the archive it leaves in the storage, and the artifact it returns. The workspace is what
  its entries hold: \<open>os.MkdirAll\<close> leaves an existing directory and its content in place, so the staging
  directory starts with what the workspace has under its name.
\<close>

definition Build_stored ::
  "bld_env \<Rightarrow> ManifestArtifact \<Rightarrow> string gmap \<Rightarrow> gval gmap \<Rightarrow> string \<Rightarrow> string \<Rightarrow> staging gmap \<Rightarrow>
   (Artifact \<times> string gmap) res" where
  "Build_stored env spec sources data namespace workspace ws =
     (let stagingDir = path_join workspace (ma_name spec) in
      case be_io env ''mkdirall'' stagingDir of
        Some err \<Rightarrow> Inl (Wrapf ''failed to create staging dir: %w'' [] err)
      | None \<Rightarrow>
          (case applyArtifact env spec sources data stagingDir
                  (case mget ws (ma_name spec) of None \<Rightarrow> [] | Some sg \<Rightarrow> sg) of
             Inl err \<Rightarrow> Inl (Wrapf ''failed to assemble artifact %q: %w'' [AStr (ma_name spec)] err)
           | Inr sg \<Rightarrow>
               (case hashStagingDir env sg (ma_name spec) of
                  Inl err \<Rightarrow> Inl (Wrapf ''failed to hash staging dir: %w'' [] err)
                | Inr contentsHash \<Rightarrow>
                    let artifact = \<lparr>af_name = ma_name spec, af_namespace = namespace,
                          af_filename = contentsHash @ ''.tar.gz'', af_revision = ma_name spec,
                          af_digest = [], af_metadata = []\<rparr> in
                    case be_mkdir env artifact of
                      Some err \<Rightarrow> Inl (Wrapf ''failed to create artifact directory: %w'' [] err)
                    | None \<Rightarrow>
                        (case be_lock env artifact of
                           Some err \<Rightarrow> Inl (Wrapf ''failed to acquire artifact lock: %w'' [] err)
                         | None \<Rightarrow>
                             (case be_archive env artifact stagingDir (be_SourceIgnoreFilter env [] []) sg of
                                Inl err \<Rightarrow> Inl (Wrapf ''failed to archive artifact: %w'' [] err)
                              | Inr (a, ar) \<Rightarrow> Inr (a\<lparr>af_revision := ''latest@'' @ af_digest a\<rparr>, ar))))))"

definition Build ::
  "bld_env \<Rightarrow> ManifestArtifact \<Rightarrow> string gmap \<Rightarrow> gval gmap \<Rightarrow> string \<Rightarrow> string \<Rightarrow> staging gmap \<Rightarrow>
   Artifact res" where
  "Build env spec sources data namespace workspace ws =
     map_sum id fst (Build_stored env spec sources data namespace workspace ws)"

text \<open>
  What \<open>Storage.Archive\<close> is documented to do: it archives the regular files of the directory that the
  filter does not match.
\<close>

definition archive_ok :: "bld_env \<Rightarrow> bool" where
  "archive_ok env \<longleftrightarrow> (\<forall>a dir ignored sg a' ar.
     be_archive env a dir ignored sg = Inr (a', ar) \<longrightarrow> tree_ok sg \<longrightarrow>
       (\<forall>p d. mget ar p = Some d \<longleftrightarrow>
          (\<exists>m. mget sg p = Some (NFile d m)) \<and> \<not> ignored (path_join dir p) False))"

section \<open>Sample builder\<close>

text \<open>
  A builder for the concrete runs: every source directory holds the file \<open>cfg.yaml\<close>, the engine is the
  Go engine over the sample library, the walk lists the staged files and the storage accepts everything;
  its filter leaves out zip files.
\<close>

definition sample_root :: root_env where
  "sample_root = \<lparr>rt_stat = (\<lambda>p. if p = ''cfg.yaml'' then Inr \<lparr>fi_regular = True, fi_size = 4, fi_mode = 420\<rparr>
       else Inl ErrNotExist),
     rt_open = (\<lambda>p. if p = ''cfg.yaml'' then Inr \<lparr>of_stat = Inr \<lparr>fi_regular = True, fi_size = 4, fi_mode = 420\<rparr>,
         of_data = Inr ''x: 1''\<rparr> else Inl ErrNotExist)\<rparr>"

definition sample_walk :: "staging \<Rightarrow> string \<Rightarrow> (string list \<times> (string \<Rightarrow> string res)) res" where
  "sample_walk sg name = Inr (mkeys (filter (\<lambda>kn. snd kn \<noteq> NDir) sg),
     (\<lambda>p. case mget sg p of Some (NFile d m) \<Rightarrow> Inr d | _ \<Rightarrow> Inl ErrNotExist))"

definition sample_archive :: "Artifact \<Rightarrow> string \<Rightarrow> ignore_filter \<Rightarrow> staging \<Rightarrow> (Artifact \<times> string gmap) res" where
  "sample_archive a dir ignored sg =
     (let files = filter (\<lambda>(p, n). n \<noteq> NDir \<and> \<not> ignored (path_join dir p) False) sg in
      Inr (a\<lparr>af_digest := ''sha256:'' @ concat (mkeys files)\<rparr>,
           map (\<lambda>(p, n). (p, case n of NFile d m \<Rightarrow> d | NDir \<Rightarrow> [])) files))"

definition sample_bld :: bld_env where
  "sample_bld = \<lparr>be_ctx = (\<lambda>_. None), be_open_root = (\<lambda>_ _. Inr sample_root),
     be_engine = Render sample_tmpl 3, be_io = (\<lambda>_ _. None), be_walk = sample_walk,
     be_mkdir = (\<lambda>_. None), be_lock = (\<lambda>_. None),
     be_SourceIgnoreFilter = (\<lambda>ps domain p dir. has_prefix (rev p) (rev ''.zip'')),
     be_archive = sample_archive\<rparr>"

text \<open>The sample storage does what \<open>Storage.Archive\<close> is documented to do.\<close>

lemma sample_archive_files:
  assumes "keys_ok sg" and "sample_archive a dir ignored sg = Inr (a', ar)"
  shows "mget ar p = Some d \<longleftrightarrow> (\<exists>m. mget sg p = Some (NFile d m)) \<and> \<not> ignored (path_join dir p) False"
proof -
  have "ar = map (\<lambda>(p, n). (p, case n of NFile d m \<Rightarrow> d | NDir \<Rightarrow> []))
      (filter (\<lambda>(p, n). n \<noteq> NDir \<and> \<not> ignored (path_join dir p) False) sg)"
    using assms(2) by (simp add: sample_archive_def Let_def)
  then show ?thesis
    using assms(1)
  proof (induction sg arbitrary: ar)
    case (Cons x sg)
    obtain q n where x: "x = (q, n)" by (cases x)
    have "mget sg q = None" using Cons.prems(2) by (auto simp: x mget_None_iff)
    then show ?case
      using Cons.IH [OF refl] Cons.prems by (cases n) (auto simp: x)
  qed simp
qed

lemma sample_archive_ok: "archive_ok sample_bld"
  using sample_archive_files by (auto simp: archive_ok_def sample_bld_def tree_ok_def)

section \<open>The jail of destination paths\<close>

lemma renderDestPath_Inr:
  assumes "renderDestPath env toRef data = Inr p"
  shows "\<exists>pt out. toRef = artifactRefPrefix @ pt \<and> pt \<noteq> [] \<and>
    be_engine env (''destination:'' @ toRef) pt data no_options = Inr out \<and>
    p = clean (trim_space out) \<and> inside p"
proof -
  from assms obtain out where o: "has_prefix toRef artifactRefPrefix"
    "trim_prefix toRef artifactRefPrefix \<noteq> []"
    "be_engine env (''destination:'' @ toRef) (trim_prefix toRef artifactRefPrefix) data no_options = Inr out"
    "p = clean (trim_space out)" "p \<noteq> ''.''" "\<not> has_prefix p ''..''" "\<not> is_abs p"
    by (auto simp: renderDestPath_def Let_def split: if_splits sum.splits)
  have "\<not> is_abs (trim_space out)" using o(4,7) is_abs_clean by blast
  moreover have "p \<noteq> ''..''" using o(6) by auto
  moreover have "\<not> has_prefix p ''../''" using o(6) by (auto simp: has_prefix_iff)
  ultimately have "inside p" using clean_inside o(4,5) by blast
  then show ?thesis using o has_prefix_trim by blast
qed

text \<open>
  C14. The jail of destinations: whatever a destination template renders to, the path the builder
  writes is relative, cleaned, non-empty and free of \<open>.\<close> and \<open>..\<close> segments: it names an entry below
  the staging root.
\<close>

theorem renderDestPath_jail:
  assumes "renderDestPath env toRef data = Inr p"
  shows "inside p \<and> clean p = p \<and> dotdot \<notin> set (split_on slash p) \<and> \<not> is_abs p"
  using renderDestPath_Inr [OF assms] inside_clean [of p] inside_no_dotdot [of p]
  by (auto simp: inside_def)

theorem renderDestPath_jail_witness:
  "inside ''a/b'' \<and> clean ''a/b'' = ''a/b''"
proof -
  have "renderDestPath sample_bld ''@artifact/a/./b'' [] = Inr ''a/b''" by code_simp
  from renderDestPath_jail [OF this] show ?thesis by blast
qed

text \<open>
  The check of a destination is stricter than the jail needs: it refuses by the prefix \<open>..\<close> and
  so also refuses an ordinary file name that begins with two dots, which \<open>lookupFile\<close> accepts.
\<close>

theorem renderDestPath_refuses_dotdot_names:
  assumes "be_engine env (''destination:@artifact/..foo'') ''..foo'' data no_options = Inr ''..foo''"
  shows "\<not> is_ok (renderDestPath env ''@artifact/..foo'' data) \<and> cleanLookupPath ''..foo'' = Inr ''..foo'' \<and>
    inside ''..foo''"
proof -
  have c: "clean ''..foo'' = ''..foo''" by code_simp
  have t: "trim_space ''..foo'' = ''..foo''" by code_simp
  have tp: "trim_prefix ''@artifact/..foo'' artifactRefPrefix = ''..foo''" by code_simp
  have hp: "has_prefix ''@artifact/..foo'' artifactRefPrefix" by code_simp
  have d: "has_prefix ''..foo'' ''..''" by code_simp
  have "\<not> is_ok (renderDestPath env ''@artifact/..foo'' data)"
    using assms c t tp hp d by (simp add: renderDestPath_def Let_def)
  moreover have "cleanLookupPath ''..foo'' = Inr ''..foo''" by code_simp
  moreover have "inside ''..foo''" by code_simp
  ultimately show ?thesis by simp
qed

section \<open>Iterations\<close>

text \<open>
  The plan of an artifact: one iteration without bindings when there is no \<open>forEach\<close>; one per
  item of a list, in list order, with \<open>index\<close> and \<open>value\<close>; one per key of a map, in sorted order,
  with \<open>key\<close> and \<open>value\<close>. Nothing else is iterated over, and a missing output is an error.
\<close>

theorem buildIterations_spec:
  "(ma_forEach spec = None \<longrightarrow> buildIterations spec data = Inr [\<lparr>it_label = [], it_bindings = []\<rparr>]) \<and>
   (\<forall>fe. ma_forEach spec = Some fe \<longrightarrow>
      (is_ok (buildIterations spec data) \<longleftrightarrow>
         (\<exists>v. mget data (fe_from fe) = Some v \<and> (is_VList v \<or> is_VMap v))) \<and>
      (\<forall>xs. mget data (fe_from fe) = Some (VList xs) \<longrightarrow>
         (\<exists>its. buildIterations spec data = Inr its \<and> length its = length xs \<and>
            (\<forall>i < length xs. mget (it_bindings (its ! i)) (fe_as fe) =
               Some (VMap (index_bindings i (xs ! i)))))) \<and>
      (\<forall>m. mget data (fe_from fe) = Some (VMap m) \<longrightarrow> keys_ok m \<longrightarrow>
         (\<exists>its. buildIterations spec data = Inr its \<and>
            list_all2 (\<lambda>(k, x) it. it_label it = ''map key:'' @ k \<and>
              mget (it_bindings it) (fe_as fe) = Some (VMap (key_bindings k x))) m its)))"
proof (intro conjI allI impI)
  fix fe
  assume fe: "ma_forEach spec = Some fe"
  show "is_ok (buildIterations spec data) \<longleftrightarrow>
      (\<exists>v. mget data (fe_from fe) = Some v \<and> (is_VList v \<or> is_VMap v))"
    by (cases "mget data (fe_from fe)") (auto simp: buildIterations_def fe split: gval.split)
  {
    fix xs
    assume xs: "mget data (fe_from fe) = Some (VList xs)"
    then show "\<exists>its. buildIterations spec data = Inr its \<and> length its = length xs \<and>
        (\<forall>i < length xs. mget (it_bindings (its ! i)) (fe_as fe) =
           Some (VMap (index_bindings i (xs ! i))))"
      by (simp add: buildIterations_def fe index_iteration_def nth_enumerate_eq)
  }
  fix m
  assume m: "mget data (fe_from fe) = Some (VMap m)" and k: "keys_ok m"
  have s: "sort (mkeys m) = map fst m" using keys_ok_sorted [OF k] by (simp add: sorted_sort_id mkeys_def)
  have "list_all2 (\<lambda>(k, x) it. it_label it = ''map key:'' @ k \<and>
      mget (it_bindings it) (fe_as fe) = Some (VMap (key_bindings k x))) m
      (map (key_iteration fe m) (map fst m))"
    using mem_mget [OF k]
    by (auto simp: list_all2_map2 key_iteration_def intro!: list.rel_refl_strong)
  then show "\<exists>its. buildIterations spec data = Inr its \<and>
      list_all2 (\<lambda>(k, x) it. it_label it = ''map key:'' @ k \<and>
        mget (it_bindings it) (fe_as fe) = Some (VMap (key_bindings k x))) m its"
    using s by (simp add: buildIterations_def fe m)
qed (simp add: buildIterations_def)

text \<open>The scope of an iteration: its binding over the artifact's data, which stays as it is.\<close>

lemma mget_overlayData:
  "keys_ok base \<Longrightarrow> keys_ok overlay \<Longrightarrow>
   mget (overlayData base overlay) k = (case mget overlay k of None \<Rightarrow> mget base k | Some v \<Rightarrow> Some v)"
  by (simp add: overlayData_def mget_copy_into keys_ok_copy_into split: option.split)

section \<open>What an assembled artifact holds\<close>

text \<open>
  The file a template yields in the scope of an iteration: destination, bytes and mode, rendered from
  what the source holds at that moment.
\<close>

definition template_output ::
  "bld_env \<Rightarrow> poll \<Rightarrow> string gmap \<Rightarrow> gval gmap \<Rightarrow> string \<Rightarrow> TemplateSpec \<Rightarrow> string \<times> string \<times> nat \<Rightarrow> bool" where
  "template_output env pl sources data label t out \<longleftrightarrow>
     (\<exists>root path info. open_source env pl t sources = Inr (root, path, info) \<and>
        renderDestPath env (ts_to t) data = Inr (fst out) \<and>
        renderTemplate env root path (ts_from t) label data = Inr (fst (snd out)) \<and>
        snd (snd out) = fi_mode info)"

text \<open>The staging tree holds the given files over what was there before.\<close>

definition staged :: "staging \<Rightarrow> (string \<times> string \<times> nat) list \<Rightarrow> staging \<Rightarrow> bool" where
  "staged sg0 outs sg \<longleftrightarrow> tree_ok sg \<and> distinct (map fst outs) \<and> list_all inside (map fst outs) \<and>
     (\<forall>p d m. mget sg p = Some (NFile d m) \<longleftrightarrow>
        (if p \<in> set (map fst outs) then (p, d, m) \<in> set outs else mget sg0 p = Some (NFile d m)))"

definition built :: "staging \<Rightarrow> (string \<times> string \<times> nat) list \<Rightarrow> staging \<times> string gmap \<Rightarrow> bool" where
  "built sg0 outs st \<longleftrightarrow> staged sg0 outs (fst st) \<and> (\<forall>p. mget (snd st) p \<noteq> None \<longleftrightarrow> p \<in> set (map fst outs))"

lemma applyTemplate_built:
  assumes "applyTemplate env pl t sources data label st = Inr st'" and "built sg0 outs st"
  shows "\<exists>out. template_output env pl sources data label t out \<and> built sg0 (outs @ [out]) st'"
proof -
  obtain sg written where st: "st = (sg, written)" by (cases st)
  from assms(1) obtain root path info dest bytes sg' where
    a: "open_source env pl t sources = Inr (root, path, info)" "renderDestPath env (ts_to t) data = Inr dest"
      "mget written dest = None" "renderTemplate env root path (ts_from t) label data = Inr bytes"
      "writeStagedFile (be_io env) dest bytes (fi_mode info) sg = Inr sg'"
      "st' = (sg', mput dest (ts_from t) written)"
    unfolding applyTemplate_def st by (auto split: option.splits sum.splits)
  let ?out = "(dest, bytes, fi_mode info)"
  have i: "inside dest" using renderDestPath_Inr [OF a(2)] by blast
  have "mget written dest \<noteq> None \<longleftrightarrow> dest \<in> set (map fst outs)"
    using assms(2) unfolding built_def st by simp
  then have new: "dest \<notin> set (map fst outs)" using a(3) by simp
  have sg: "staged sg0 outs sg" using assms(2) by (simp add: built_def st)
  have "mget sg' p = Some (NFile d m) \<longleftrightarrow>
      (if p \<in> set (map fst (outs @ [?out])) then (p, d, m) \<in> set (outs @ [?out])
       else mget sg0 p = Some (NFile d m))" for p d m
    using writeStagedFile_files [OF a(5), of p d m] sg new
    by (cases "p = dest") (auto simp: staged_def image_iff)
  moreover have "tree_ok sg'" using writeStagedFile_tree_ok [OF a(5) i] sg by (simp add: staged_def)
  ultimately have "staged sg0 (outs @ [?out]) sg'"
    using sg new i by (simp add: staged_def)
  then have "built sg0 (outs @ [?out]) st'"
    using assms(2) a(6) by (auto simp: built_def st mget_mput)
  moreover have "template_output env pl sources data label t ?out" using a by (auto simp: template_output_def)
  ultimately show ?thesis by blast
qed

lemma wrap_template_Inr [simp]: "wrap_template t label r = Inr v \<longleftrightarrow> r = Inr v"
  by (simp add: wrap_template_def)

text \<open>The files of one iteration, the templates in order.\<close>

definition iteration_output ::
  "bld_env \<Rightarrow> ManifestArtifact \<Rightarrow> string gmap \<Rightarrow> gval gmap \<Rightarrow> nat \<times> iteration \<Rightarrow> (string \<times> string \<times> nat) list \<Rightarrow> bool" where
  "iteration_output env spec sources data ni os \<longleftrightarrow>
     list_all2 (\<lambda>it. template_output env (AtTemplate (ma_name spec) (fst ni) (fst it)) sources
         (overlayData data (it_bindings (snd ni))) (it_label (snd ni)) (snd it))
       (enumerate 0 (ma_templates spec)) os"

lemma templates_built:
  assumes "loopE (\<lambda>(ti, t) st. wrap_template t label (applyTemplate env (pl ti) t sources data label st))
      (enumerate n ts) st = Inr st'"
    and "built sg0 outs st"
  shows "\<exists>os. list_all2 (\<lambda>it. template_output env (pl (fst it)) sources data label (snd it)) (enumerate n ts) os \<and>
    built sg0 (outs @ os) st'"
  using assms
proof (induction ts arbitrary: n st outs)
  case Nil
  then show ?case by (intro exI [of _ "[]"]) simp
next
  case (Cons t ts)
  from Cons.prems(1) obtain u where u: "applyTemplate env (pl n) t sources data label st = Inr u"
    and r: "loopE (\<lambda>(ti, t) st. wrap_template t label (applyTemplate env (pl ti) t sources data label st))
      (enumerate (Suc n) ts) u = Inr st'"
    by (auto split: sum.splits)
  obtain out where o: "template_output env (pl n) sources data label t out" "built sg0 (outs @ [out]) u"
    using applyTemplate_built [OF u Cons.prems(2)] by blast
  from Cons.IH [OF r o(2)] obtain os where
    "list_all2 (\<lambda>it. template_output env (pl (fst it)) sources data label (snd it)) (enumerate (Suc n) ts) os"
    "built sg0 ((outs @ [out]) @ os) st'" by blast
  with o(1) show ?case by (intro exI [of _ "out # os"]) simp
qed

lemma iterations_built:
  assumes "loopE (apply_iteration env spec sources data) (enumerate n iters) st = Inr st'"
    and "built sg0 outs st"
  shows "\<exists>oss. list_all2 (iteration_output env spec sources data) (enumerate n iters) oss \<and>
    built sg0 (outs @ concat oss) st'"
  using assms
proof (induction iters arbitrary: n st outs)
  case Nil
  then show ?case by (intro exI [of _ "[]"]) simp
next
  case (Cons iter iters)
  from Cons.prems(1) obtain u where u: "apply_iteration env spec sources data (n, iter) st = Inr u"
    and r: "loopE (apply_iteration env spec sources data) (enumerate (Suc n) iters) u = Inr st'"
    by (auto split: sum.splits)
  from u have "loopE (\<lambda>(ti, t) st. wrap_template t (it_label iter)
      (applyTemplate env (AtTemplate (ma_name spec) n ti) t sources
        (overlayData data (it_bindings iter)) (it_label iter) st)) (enumerate 0 (ma_templates spec)) st = Inr u"
    by (auto simp: apply_iteration_def Let_def split: option.splits)
  from templates_built [OF this Cons.prems(2)] obtain os where
    os: "iteration_output env spec sources data (n, iter) os" "built sg0 (outs @ os) u"
    by (auto simp: iteration_output_def)
  from Cons.IH [OF r os(2)] obtain oss where
    "list_all2 (iteration_output env spec sources data) (enumerate (Suc n) iters) oss"
    "built sg0 ((outs @ os) @ concat oss) st'" by blast
  with os(1) show ?case by (intro exI [of _ "os # oss"]) simp
qed

lemma applyArtifact_staged:
  assumes "applyArtifact env spec sources data dir sg0 = Inr sg" and "tree_ok sg0"
  shows "\<exists>iters oss. buildIterations spec data = Inr iters \<and>
    list_all2 (iteration_output env spec sources data) (enumerate 0 iters) oss \<and> staged sg0 (concat oss) sg"
proof -
  from assms(1) obtain iters st where i: "buildIterations spec data = Inr iters"
    "loopE (apply_iteration env spec sources data) (enumerate 0 iters) (sg0, []) = Inr st" "sg = fst st"
    by (auto simp: applyArtifact_def map_sum_def split: sum.splits option.splits)
  have "built sg0 [] (sg0, [])" using assms(2) by (simp add: built_def staged_def)
  from iterations_built [OF i(2) this] i(1,3) show ?thesis by (auto simp: built_def)
qed

text \<open>The same by positions: file \<open>ti\<close> of iteration \<open>n\<close>.\<close>

lemma iteration_output_nth:
  "iteration_output env spec sources data (n, iter) os \<longleftrightarrow> length os = length (ma_templates spec) \<and>
     (\<forall>ti < length os. template_output env (AtTemplate (ma_name spec) n ti) sources
        (overlayData data (it_bindings iter)) (it_label iter) (ma_templates spec ! ti) (os ! ti))"
  by (auto simp: iteration_output_def list_all2_conv_all_nth nth_enumerate_eq)

lemma iteration_outputs_nth:
  "list_all2 (iteration_output env spec sources data) (enumerate 0 iters) oss \<longleftrightarrow> length oss = length iters \<and>
     (\<forall>n < length iters. iteration_output env spec sources data (n, iters ! n) (oss ! n))"
  by (auto simp: list_all2_conv_all_nth nth_enumerate_eq)

lemma iteration_outputs_mem:
  assumes "list_all2 (iteration_output env spec sources data) (enumerate 0 iters) oss"
  shows "out \<in> set (concat oss) \<longleftrightarrow> (\<exists>n < length iters. \<exists>ti < length (ma_templates spec). out = oss ! n ! ti)"
proof -
  have l: "length oss = length iters" "\<And>n. n < length iters \<Longrightarrow> length (oss ! n) = length (ma_templates spec)"
    using assms by (simp_all add: iteration_outputs_nth iteration_output_nth)
  have "out \<in> set (concat oss) \<longleftrightarrow> (\<exists>n < length oss. out \<in> set (oss ! n))"
    unfolding set_concat UN_iff by (metis in_set_conv_nth)
  moreover have "out \<in> set (oss ! n) \<longleftrightarrow> (\<exists>ti < length (ma_templates spec). out = oss ! n ! ti)" if "n < length iters" for n
    using l(2) [OF that] by (auto simp: in_set_conv_nth)
  ultimately show ?thesis unfolding l(1) by metis
qed

text \<open>
  C13. What assembling an artifact stages: one file per iteration and template, each at the path its
  destination renders to in the scope of that iteration, with the bytes rendered there, from what the
  source holds at that moment, and the mode of the source. All destinations are distinct and below the
  staging root: two iterations that render the same path are an error, never a silent overwrite. Files
  that were in the directory before and are no destination are still there.
\<close>

theorem applyArtifact_exact:
  assumes "applyArtifact env spec sources data dir sg0 = Inr sg" and "tree_ok sg0"
  shows "\<exists>iters oss. buildIterations spec data = Inr iters \<and> length oss = length iters \<and>
    (\<forall>n < length iters. length (oss ! n) = length (ma_templates spec) \<and>
       (\<forall>ti < length (ma_templates spec). template_output env (AtTemplate (ma_name spec) n ti) sources
          (overlayData data (it_bindings (iters ! n))) (it_label (iters ! n))
          (ma_templates spec ! ti) (oss ! n ! ti))) \<and>
    (let outs = concat oss in
       length outs = length iters * length (ma_templates spec) \<and> distinct (map fst outs) \<and>
       list_all inside (map fst outs) \<and>
       (\<forall>p d m. mget sg p = Some (NFile d m) \<longleftrightarrow>
          (if p \<in> set (map fst outs) then (p, d, m) \<in> set outs else mget sg0 p = Some (NFile d m))))"
proof -
  obtain iters oss where i: "buildIterations spec data = Inr iters"
    "list_all2 (iteration_output env spec sources data) (enumerate 0 iters) oss" "staged sg0 (concat oss) sg"
    using applyArtifact_staged [OF assms] by blast
  have l: "length oss = length iters" "\<forall>n < length iters. length (oss ! n) = length (ma_templates spec)"
    using i(2) by (auto simp: iteration_outputs_nth iteration_output_nth)
  then have "\<forall>os \<in> set oss. length os = length (ma_templates spec)" by (auto simp: in_set_conv_nth)
  then have "length (concat oss) = length oss * length (ma_templates spec)"
    by (induction oss) auto
  then show ?thesis
    using i l by (intro exI [of _ iters] exI [of _ oss])
      (simp add: staged_def iteration_outputs_nth iteration_output_nth Let_def)
qed

theorem applyArtifact_exact_witness:
  "\<exists>iters. buildIterations sample_artifact [] = Inr iters \<and>
    (\<exists>outs :: (string \<times> string \<times> nat) list. length outs = length iters * length (ma_templates sample_artifact) \<and>
       distinct (map fst outs) \<and> (''out.yaml'', ''x: 1'', 420) \<in> set outs)"
proof -
  let ?sg = "[(''out.yaml'', NFile ''x: 1'' 420)]"
  have e: "applyArtifact sample_bld sample_artifact [(''src'', ''/tmp/src'')] [] ''/tmp/out'' [] = Inr ?sg" by code_simp
  from applyArtifact_exact [OF e tree_ok_Nil] obtain iters oss where
    i: "buildIterations sample_artifact [] = Inr iters"
      "length (concat oss) = length iters * length (ma_templates sample_artifact)" "distinct (map fst (concat oss))"
    and f: "\<forall>p d m. mget ?sg p = Some (NFile d m) \<longleftrightarrow>
      (if p \<in> set (map fst (concat oss)) then (p, d, m) \<in> set (concat oss) else mget ([] :: staging) p = Some (NFile d m))"
    unfolding Let_def by blast
  from f [rule_format, of "''out.yaml''" "''x: 1''" 420] have "(''out.yaml'', ''x: 1'', 420) \<in> set (concat oss)"
    by (simp split: if_splits)
  with i show ?thesis by blast
qed

text \<open>What a build archives: the tree that \<open>applyArtifact\<close> leaves in the staging directory.\<close>

lemma Build_archived:
  assumes "Build_stored env spec sources data ns workspace ws = Inr (a, ar)"
  shows "\<exists>sg af b. applyArtifact env spec sources data (path_join workspace (ma_name spec))
      (case mget ws (ma_name spec) of None \<Rightarrow> [] | Some sg \<Rightarrow> sg) = Inr sg \<and>
    be_archive env af (path_join workspace (ma_name spec)) (be_SourceIgnoreFilter env [] []) sg = Inr (b, ar) \<and>
    af_name af = ma_name spec \<and> af_namespace af = ns \<and> a = b\<lparr>af_revision := ''latest@'' @ af_digest b\<rparr>"
proof -
  from assms obtain sg h b where
    "applyArtifact env spec sources data (path_join workspace (ma_name spec))
      (case mget ws (ma_name spec) of None \<Rightarrow> [] | Some sg \<Rightarrow> sg) = Inr sg"
    "be_archive env \<lparr>af_name = ma_name spec, af_namespace = ns, af_filename = h @ ''.tar.gz'',
      af_revision = ma_name spec, af_digest = [], af_metadata = []\<rparr>
      (path_join workspace (ma_name spec)) (be_SourceIgnoreFilter env [] []) sg = Inr (b, ar)"
    "a = b\<lparr>af_revision := ''latest@'' @ af_digest b\<rparr>"
    unfolding Build_stored_def Let_def by (auto split: option.splits sum.splits)
  then show ?thesis by force
qed

lemma template_output_unique:
  "template_output env pl sources data label t out \<Longrightarrow> template_output env pl sources data label t out' \<Longrightarrow> out = out'"
  by (cases out; cases out') (auto simp: template_output_def)

lemma outputs_rendered:
  assumes "list_all2 (iteration_output env spec sources data) (enumerate 0 iters) oss"
  shows "out \<in> set (concat oss) \<longleftrightarrow>
    (\<exists>n < length iters. \<exists>ti < length (ma_templates spec).
       template_output env (AtTemplate (ma_name spec) n ti) sources (overlayData data (it_bindings (iters ! n)))
         (it_label (iters ! n)) (ma_templates spec ! ti) out)"
proof -
  have "template_output env (AtTemplate (ma_name spec) n ti) sources (overlayData data (it_bindings (iters ! n)))
      (it_label (iters ! n)) (ma_templates spec ! ti) (oss ! n ! ti)"
    if "n < length iters" "ti < length (ma_templates spec)" for n ti
    using assms that by (simp add: iteration_outputs_nth iteration_output_nth)
  then show ?thesis unfolding iteration_outputs_mem [OF assms] using template_output_unique by blast
qed

text \<open>
  C12. A build in a clean workspace archives the rendered files and nothing else: when the workspace
  has no entry of the artifact's name, the files of the stored archive are, with their bytes, the
  outputs of the templates in the iterations, less those that the default ignore patterns of the
  storage match; and the revision of the artifact names the digest of that archive.
\<close>

theorem Build_archives_rendered_files:
  assumes "Build_stored env spec sources data ns workspace ws = Inr (a, ar)" and "mget ws (ma_name spec) = None"
    and "archive_ok env"
  shows "Build env spec sources data ns workspace ws = Inr a \<and> af_revision a = ''latest@'' @ af_digest a \<and>
    (\<exists>af sg b iters. be_archive env af (path_join workspace (ma_name spec)) (be_SourceIgnoreFilter env [] []) sg =
         Inr (b, ar) \<and> af_name af = ma_name spec \<and> af_namespace af = ns \<and>
       a = b\<lparr>af_revision := ''latest@'' @ af_digest b\<rparr> \<and> buildIterations spec data = Inr iters \<and>
       (\<forall>p d. mget ar p = Some d \<longleftrightarrow>
          \<not> be_SourceIgnoreFilter env [] [] (path_join (path_join workspace (ma_name spec)) p) False \<and>
          (\<exists>n < length iters. \<exists>ti < length (ma_templates spec). \<exists>m.
             template_output env (AtTemplate (ma_name spec) n ti) sources
               (overlayData data (it_bindings (iters ! n))) (it_label (iters ! n)) (ma_templates spec ! ti) (p, d, m))))"
proof -
  let ?dir = "path_join workspace (ma_name spec)" and ?ign = "be_SourceIgnoreFilter env [] []"
  from Build_archived [OF assms(1)] assms(2) obtain sg af b where
    s: "applyArtifact env spec sources data ?dir [] = Inr sg"
    and ar: "be_archive env af ?dir ?ign sg = Inr (b, ar)" "af_name af = ma_name spec" "af_namespace af = ns"
      "a = b\<lparr>af_revision := ''latest@'' @ af_digest b\<rparr>"
    by auto
  obtain iters oss where i: "buildIterations spec data = Inr iters"
    "list_all2 (iteration_output env spec sources data) (enumerate 0 iters) oss" "staged [] (concat oss) sg"
    using applyArtifact_staged [OF s] by auto
  have "mget ar p = Some d \<longleftrightarrow> (\<exists>m. mget sg p = Some (NFile d m)) \<and> \<not> ?ign (path_join ?dir p) False" for p d
    using assms(3) ar(1) i(3) unfolding archive_ok_def staged_def by blast
  moreover have "mget sg p = Some (NFile d m) \<longleftrightarrow> (p, d, m) \<in> set (concat oss)" for p d m
    using i(3) by (force simp: staged_def)
  moreover note outputs_rendered [OF i(2)]
  ultimately have "mget ar p = Some d \<longleftrightarrow> \<not> ?ign (path_join ?dir p) False \<and>
      (\<exists>n < length iters. \<exists>ti < length (ma_templates spec). \<exists>m. template_output env (AtTemplate (ma_name spec) n ti)
        sources (overlayData data (it_bindings (iters ! n))) (it_label (iters ! n)) (ma_templates spec ! ti) (p, d, m))" for p d
    by blast
  moreover have "Build env spec sources data ns workspace ws = Inr a" using assms(1) by (simp add: Build_def)
  ultimately show ?thesis using ar i(1) by auto
qed

text \<open>The sample artifact with a second output, a zip file, which the storage leaves out.\<close>

definition sample_zipped :: ManifestArtifact where
  "sample_zipped = sample_artifact\<lparr>ma_templates := ma_templates sample_artifact @
     [\<lparr>ts_from = ''@src/cfg.yaml'', ts_to = ''@artifact/out.zip''\<rparr>]\<rparr>"

theorem Build_archives_rendered_files_witness:
  "\<exists>a ar. Build_stored sample_bld sample_zipped [(''src'', ''/tmp/src'')] [] ''apps'' ''/tmp'' [] = Inr (a, ar) \<and>
     mget ar ''out.zip'' = None \<and>
     (\<exists>ti < 2. \<exists>m. template_output sample_bld (AtTemplate ''out'' 0 ti) [(''src'', ''/tmp/src'')]
        (overlayData [] []) [] (ma_templates sample_zipped ! ti) (''out.yaml'', ''x: 1'', m))"
proof -
  let ?b = "Build_stored sample_bld sample_zipped [(''src'', ''/tmp/src'')] [] ''apps'' ''/tmp'' []"
  have "map_sum (\<lambda>_. ()) snd ?b = Inr [(''out.yaml'', ''x: 1'')]" by code_simp
  then obtain a where b: "?b = Inr (a, [(''out.yaml'', ''x: 1'')])" by (cases ?b) auto
  have n: "mget ([] :: staging gmap) (ma_name sample_zipped) = None" by simp
  have z: "buildIterations sample_zipped [] = Inr [\<lparr>it_label = [], it_bindings = []\<rparr>]" by code_simp
  have t: "length (ma_templates sample_zipped) = 2" "ma_name sample_zipped = ''out''" by (code_simp+)
  from Build_archives_rendered_files [OF b n sample_archive_ok] obtain iters where i: "buildIterations sample_zipped [] = Inr iters"
    and f: "\<forall>p d. mget [(''out.yaml'', ''x: 1'')] p = Some d \<longleftrightarrow>
          \<not> be_SourceIgnoreFilter sample_bld [] [] (path_join (path_join ''/tmp'' (ma_name sample_zipped)) p) False \<and>
          (\<exists>n < length iters. \<exists>ti < length (ma_templates sample_zipped). \<exists>m.
             template_output sample_bld (AtTemplate (ma_name sample_zipped) n ti) [(''src'', ''/tmp/src'')]
               (overlayData [] (it_bindings (iters ! n))) (it_label (iters ! n)) (ma_templates sample_zipped ! ti) (p, d, m))"
    by blast
  from f [rule_format, of "''out.yaml''" "''x: 1''"] obtain ti m where "ti < 2"
      "template_output sample_bld (AtTemplate ''out'' 0 ti) [(''src'', ''/tmp/src'')] (overlayData [] []) []
         (ma_templates sample_zipped ! ti) (''out.yaml'', ''x: 1'', m)"
    using i z t by auto
  with b have "\<exists>ti < 2. \<exists>m. template_output sample_bld (AtTemplate ''out'' 0 ti) [(''src'', ''/tmp/src'')]
      (overlayData [] []) [] (ma_templates sample_zipped ! ti) (''out.yaml'', ''x: 1'', m)" by blast
  with b show ?thesis by (intro exI [of _ a] exI [of _ "[(''out.yaml'', ''x: 1'')]"]) simp
qed

text \<open>
  A build over an existing directory leaks it: every file of the workspace entry of the artifact's
  name that is no destination and that the default ignore patterns do not match is in the archive.
\<close>

lemma Build_keeps_foreign_files:
  assumes "Build_stored env spec sources data ns workspace ws = Inr (a, ar)" and "archive_ok env"
    and "mget ws (ma_name spec) = Some sg0" and "tree_ok sg0" and "mget sg0 p = Some (NFile d m)"
    and "\<And>t data'. t \<in> set (ma_templates spec) \<Longrightarrow> renderDestPath env (ts_to t) data' \<noteq> Inr p"
    and "\<not> be_SourceIgnoreFilter env [] [] (path_join (path_join workspace (ma_name spec)) p) False"
  shows "mget ar p = Some d"
proof -
  let ?dir = "path_join workspace (ma_name spec)" and ?ign = "be_SourceIgnoreFilter env [] []"
  from Build_archived [OF assms(1)] assms(3) obtain sg af b where
    s: "applyArtifact env spec sources data ?dir sg0 = Inr sg"
    and ar: "be_archive env af ?dir ?ign sg = Inr (b, ar)"
    by auto
  obtain iters oss where "buildIterations spec data = Inr iters" and i:
    "list_all2 (iteration_output env spec sources data) (enumerate 0 iters) oss" "staged sg0 (concat oss) sg"
    using applyArtifact_staged [OF s assms(4)] by blast
  have "p \<notin> set (map fst (concat oss))"
  proof
    assume "p \<in> set (map fst (concat oss))"
    then obtain out where "out \<in> set (concat oss)" "fst out = p" by auto
    then obtain n ti where "ti < length (ma_templates spec)"
      "renderDestPath env (ts_to (ma_templates spec ! ti)) (overlayData data (it_bindings (iters ! n))) = Inr p"
      unfolding outputs_rendered [OF i(1)] by (auto simp: template_output_def)
    then show False using assms(6) by simp
  qed
  then have "mget sg p = Some (NFile d m)" using i(2) assms(5) by (simp add: staged_def)
  then show ?thesis using assms(2,7) ar i(2) unfolding archive_ok_def staged_def by blast
qed

section \<open>Errors of the engine\<close>

text \<open>
  Render failures stay recognisable: with the Go engine, a template or a destination that fails to
  parse or to execute gives an error in which \<open>errors.As\<close> finds the \<open>render.Error\<close>, through every
  wrapper of the builder; the reconciler reports \<open>RenderFailed\<close> for exactly these.
\<close>

theorem render_failures_visible:
  assumes "be_engine env = Render lib depth" and "Render lib depth name src data opts = Inl err"
    and "\<not> is_Panicked err"
  shows "as_render err \<and>
    (name = ''destination:'' @ artifactRefPrefix @ src \<and> src \<noteq> [] \<and> opts = no_options \<longrightarrow>
       renderDestPath env (artifactRefPrefix @ src) data = Inl err) \<and>
    as_render (case wrap_template t label (Inl (Wrapf ''render: %w'' [] err) :: string res) of Inl e \<Rightarrow> e)"
proof -
  have r: "as_render err" by (rule go_engine.render_as_render [OF assms(2,3)])
  moreover have "renderDestPath env (artifactRefPrefix @ src) data = Inl err"
    if "name = ''destination:'' @ artifactRefPrefix @ src \<and> src \<noteq> [] \<and> opts = no_options"
    using that assms(1,2) by (simp add: renderDestPath_def)
  moreover have "as_render (case wrap_template t label (Inl (Wrapf ''render: %w'' [] err) :: string res) of Inl e \<Rightarrow> e)"
    using r by (simp add: wrap_template_def)
  ultimately show ?thesis by blast
qed

text \<open>
  Admission knows fewer functions than the engine: a destination that calls a helper of the engine,
  here \<open>lookupFile\<close>, is refused by \<open>ValidateDestTemplate\<close> at the parse, while the engine parses it. So
  the message that \<open>lookupFile\<close> gives when it runs without a root is not what the author sees.
\<close>

theorem validator_refuses_engine_helpers:
  assumes "\<And>names n. tl_parse lib names n src =
      (if ''lookupFile'' \<in> set names then Inr [(n, body)] else Inl (ExtErr ''function not defined''))"
    and "mget (tl_sprig lib) ''lookupFile'' = None" and "src \<noteq> []"
  shows "\<not> is_ok (ValidateDestTemplate lib (artifactRefPrefix @ src)) \<and>
    is_ok (parse_all lib (engine_names (engine_funcs lib no_options)) n src no_options)"
proof -
  have "''lookupFile'' \<notin> set (mkeys (FuncMap (tl_sprig lib)))"
    using assms(2) by (simp add: mget_None_iff [symmetric] FuncMap_def mget_mdel)
  moreover have "''lookupFile'' \<in> set (engine_names (engine_funcs lib no_options))"
    by (auto simp: engine_names_def engine_funcs_def set_mkeys_mput mkeys_def [of "map _ _"] comp_def
        case_prod_beta mkeys_def [symmetric])
  ultimately show ?thesis
    using assms(1,3)
    by (simp add: ValidateDestTemplate_def parseDestTemplate_def parse_all_def no_options_def)
qed

end
