(* ===== verification/Controller_State.thy ===== *)
theory Controller_State
  imports Api_Types Artifact_Builder
begin

text \<open>
  The parts of the reconciler that change the object or talk to the cluster one call at a time
  (\<open>manifestgenerator_status.go\<close>, \<open>manifestgenerator_finalize.go\<close> and the helpers of
  \<open>manifestgenerator_controller.go\<close>). A state is the object in memory and the trace of the calls
  that leave the process, in order: events, status patches, writes and deletes of ExternalArtifacts,
  and removals from the artifact storage.

  The conditions package of Flux is a parameter, the record \<open>cond_lib\<close>, with its documented laws in
  \<open>cond_ok\<close>.
\<close>

section \<open>Calls that leave the process\<close>

text \<open>The metadata and the spec of an ExternalArtifact, as the controller applies them.\<close>

record ObjectReference =
  or_apiVersion :: string
  or_kind :: string
  or_name :: string
  or_namespace :: string

record ExternalArtifact =
  ea_labels :: "string gmap"
  ea_sourceRef :: ObjectReference

text \<open>The last argument of \<open>ApplyEA\<close> is the field manager; the apply is forced.\<close>

datatype call =
    Event string string
  | PatchStatus ManifestGenerator bool
  | ApplyEA string string ExternalArtifact string
  | PatchEAStatus string string Artifact
  | DeleteEA string string
  | RemoveStorage string string
  | CollectGarbage string string

record rstate =
  rs_obj :: ManifestGenerator
  rs_trace :: "call list"

definition emit :: "call \<Rightarrow> rstate \<Rightarrow> rstate" where
  "emit c s = s\<lparr>rs_trace := rs_trace s @ [c]\<rparr>"

lemma emit_simps [simp]:
  "rs_obj (emit c s) = rs_obj s"
  "rs_trace (emit c s) = rs_trace s @ [c]"
  by (simp_all add: emit_def)

section \<open>Conditions\<close>

definition ReadyCondition :: string where "ReadyCondition = ''Ready''"
definition ReconcilingCondition :: string where "ReconcilingCondition = ''Reconciling''"
definition StalledCondition :: string where "StalledCondition = ''Stalled''"
definition SucceededReason :: string where "SucceededReason = ''Succeeded''"
definition ProgressingReason :: string where "ProgressingReason = ''Progressing''"
definition ProgressingWithRetryReason :: string where
  "ProgressingWithRetryReason = ''ProgressingWithRetry''"
definition ReconciliationFailedReason :: string where
  "ReconciliationFailedReason = ''ReconciliationFailed''"

lemmas cond_consts = ReadyCondition_def ReconcilingCondition_def StalledCondition_def

type_synonym conds = "Condition list"

record cond_lib =
  k_get :: "conds \<Rightarrow> string \<Rightarrow> Condition option"
  k_set :: "Condition \<Rightarrow> conds \<Rightarrow> conds"
  k_delete :: "string \<Rightarrow> conds \<Rightarrow> conds"
  k_mark :: "string \<Rightarrow> string \<Rightarrow> string \<Rightarrow> conds \<Rightarrow> conds"
  k_mark_reconciling :: "string \<Rightarrow> conds \<Rightarrow> conds"
  k_mark_stalled :: "string \<Rightarrow> conds \<Rightarrow> conds"

text \<open>
  The laws: \<open>Get\<close> finds a condition of the type asked for; the setters change the condition of one type;
  \<open>MarkReconciling\<close> also removes \<open>Stalled\<close> and
  \<open>MarkStalled\<close> removes \<open>Reconciling\<close>.
\<close>

definition cond_ok :: "cond_lib \<Rightarrow> bool" where
  "cond_ok lib \<longleftrightarrow>
     (\<forall>cs t c. k_get lib cs t = Some c \<longrightarrow> c_type c = t) \<and>
     (\<forall>c cs t. k_get lib (k_set lib c cs) t = (if t = c_type c then Some c else k_get lib cs t)) \<and>
     (\<forall>d cs t. k_get lib (k_delete lib d cs) t = (if t = d then None else k_get lib cs t)) \<and>
     (\<forall>st ty r cs t. (t \<noteq> ty \<longrightarrow> k_get lib (k_mark lib st ty r cs) t = k_get lib cs t) \<and>
        (\<exists>c. k_get lib (k_mark lib st ty r cs) ty = Some c \<and> c_type c = ty \<and> c_status c = st \<and> c_reason c = r)) \<and>
     (\<forall>r cs t. k_get lib (k_mark_reconciling lib r cs) t =
        (if t = StalledCondition then None else k_get lib (k_mark lib ''True'' ReconcilingCondition r cs) t)) \<and>
     (\<forall>r cs t. k_get lib (k_mark_stalled lib r cs) t =
        (if t = ReconcilingCondition then None else k_get lib (k_mark lib ''True'' StalledCondition r cs) t))"

definition on_conds :: "(conds \<Rightarrow> conds) \<Rightarrow> rstate \<Rightarrow> rstate" where
  "on_conds f s = s\<lparr>rs_obj := SetConditions (rs_obj s) (f (GetConditions (rs_obj s)))\<rparr>"

definition obj_get :: "cond_lib \<Rightarrow> ManifestGenerator \<Rightarrow> string \<Rightarrow> Condition option" where
  "obj_get lib obj t = k_get lib (GetConditions obj) t"

text \<open>\<open>IsTrue\<close>, \<open>IsFalse\<close>, \<open>Has\<close>\<close>

definition has_status :: "cond_lib \<Rightarrow> ManifestGenerator \<Rightarrow> string \<Rightarrow> string \<Rightarrow> bool" where
  "has_status lib obj t st =
     (case obj_get lib obj t of None \<Rightarrow> False | Some c \<Rightarrow> c_status c = st)"

lemma on_conds_simps [simp]:
  "rs_trace (on_conds f s) = rs_trace s"
  "mg_spec (rs_obj (on_conds f s)) = mg_spec (rs_obj s)"
  "mg_finalizers (rs_obj (on_conds f s)) = mg_finalizers (rs_obj s)"
  "mg_deleting (rs_obj (on_conds f s)) = mg_deleting (rs_obj s)"
  "mg_namespace (rs_obj (on_conds f s)) = mg_namespace (rs_obj s)"
  "mg_uid (rs_obj (on_conds f s)) = mg_uid (rs_obj s)"
  "mg_name (rs_obj (on_conds f s)) = mg_name (rs_obj s)"
  "mg_generation (rs_obj (on_conds f s)) = mg_generation (rs_obj s)"
  "mg_annotations (rs_obj (on_conds f s)) = mg_annotations (rs_obj s)"
  "st_inventory (mg_status (rs_obj (on_conds f s))) = st_inventory (mg_status (rs_obj s))"
  "st_observedGeneration (mg_status (rs_obj (on_conds f s))) = st_observedGeneration (mg_status (rs_obj s))"
  "GetConditions (rs_obj (on_conds f s)) = f (GetConditions (rs_obj s))"
  by (simp_all add: on_conds_def SetConditions_def GetConditions_def)

section \<open>Status\<close>

record ctl_env =
  ce_cond :: cond_lib
  ce_patch :: "string \<Rightarrow> goerr option"
  ce_annotation :: "string gmap \<Rightarrow> string option"

text \<open>
  \<open>patchStatus\<close>; \<open>loc\<close> names the place of the call. A missing object is no error once it is deleted. The
  patcher sends up to three requests and aggregates their errors; here it has one outcome, so an aggregate
  of which only a part is dropped counts as that part.
\<close>

definition patchStatus :: "ctl_env \<Rightarrow> string \<Rightarrow> rstate \<Rightarrow> goerr option \<times> rstate" where
  "patchStatus env loc s =
     (case ce_patch env loc of
        None \<Rightarrow> (None, emit (PatchStatus (rs_obj s) True) s)
      | Some err \<Rightarrow>
          ((if mg_deleting (rs_obj s) \<and> as_not_found err then None else Some err),
           emit (PatchStatus (rs_obj s) False) s))"

definition summarizeStatus :: "ctl_env \<Rightarrow> rstate \<Rightarrow> goerr option \<times> rstate" where
  "summarizeStatus env s =
     (let lib = ce_cond env;
          s1 = (case ce_annotation env (mg_annotations (rs_obj s)) of
                  None \<Rightarrow> s
                | Some v \<Rightarrow> s\<lparr>rs_obj := SetLastHandledReconcileAt (rs_obj s) v\<rparr>);
          s2 = (case obj_get lib (rs_obj s1) ReconcilingCondition of
                  Some rc \<Rightarrow>
                    if has_status lib (rs_obj s1) ReadyCondition ''False'' then
                      on_conds (k_set lib (rc\<lparr>c_reason := ProgressingWithRetryReason\<rparr>)) s1
                    else s1
                | None \<Rightarrow> s1);
          s3 = (if has_status lib (rs_obj s2) ReadyCondition ''True'' \<or>
                   has_status lib (rs_obj s2) StalledCondition ''True'' then
                  on_conds (k_delete lib ReconcilingCondition) s2
                else s2)
      in patchStatus env ''summary'' s3)"

definition newTerminalErrorFor :: "ctl_env \<Rightarrow> string \<Rightarrow> goerr \<Rightarrow> rstate \<Rightarrow> goerr \<times> rstate" where
  "newTerminalErrorFor env reason terminal s =
     (TerminalError terminal,
      emit (Event ''Warning'' reason)
        (on_conds (k_mark_stalled (ce_cond env) reason)
          (on_conds (k_mark (ce_cond env) ''False'' ReadyCondition reason) s)))"

section \<open>Finalizers\<close>

definition finalize_one :: "ExternalArtifactReference \<Rightarrow> rstate \<Rightarrow> rstate" where
  "finalize_one ref s =
     emit (DeleteEA (ear_namespace ref) (ear_name ref))
       (emit (RemoveStorage (ear_namespace ref) (ear_name ref)) s)"

text \<open>Failures of the two calls are logged only, so they leave no mark on the state.\<close>

definition finalizeExternalArtifacts :: "ExternalArtifactReference list \<Rightarrow> rstate \<Rightarrow> rstate" where
  "finalizeExternalArtifacts refs s = fold finalize_one refs s"

definition finalize :: "rstate \<Rightarrow> rstate" where
  "finalize s =
     (let s1 = finalizeExternalArtifacts (st_inventory (mg_status (rs_obj s))) s
      in s1\<lparr>rs_obj := (rs_obj s1)\<lparr>mg_finalizers := filter (\<lambda>f. f \<noteq> Finalizer) (mg_finalizers (rs_obj s1))\<rparr>\<rparr>)"

definition addFinalizer :: "ctl_env \<Rightarrow> rstate \<Rightarrow> rstate" where
  "addFinalizer env s =
     (let obj = rs_obj s;
          s1 = s\<lparr>rs_obj := obj\<lparr>mg_finalizers :=
                  (if Finalizer \<in> set (mg_finalizers obj) then mg_finalizers obj
                   else mg_finalizers obj @ [Finalizer])\<rparr>\<rparr>;
          lib = ce_cond env
      in if IsDisabled (rs_obj s1) then
           on_conds (k_mark lib ''True'' ReadyCondition ReconciliationDisabledReason) s1
         else
           on_conds (k_mark_reconciling lib ProgressingReason)
             (on_conds (k_mark lib ''Unknown'' ReadyCondition ProgressingReason) s1))"

section \<open>Orphans, revisions, drift\<close>

definition ref_key :: "ExternalArtifactReference \<Rightarrow> string" where
  "ref_key ref = ear_namespace ref @ ''/'' @ ear_name ref"

definition findOrphanedReferences ::
  "ExternalArtifactReference list \<Rightarrow> ExternalArtifactReference list \<Rightarrow> ExternalArtifactReference list" where
  "findOrphanedReferences inventory current =
     (let currentSet = fold (\<lambda>ref. mput (ref_key ref) ()) current []
      in filter (\<lambda>ref. mget currentSet (ref_key ref) = None) inventory)"

record observedSource =
  os_Digest :: string
  os_Revision :: string
  os_URL :: string
  os_OriginRevision :: string

text \<open>The metadata of an artifact is a map; the nil map and the empty one are the same here.\<close>

definition setArtifactRevisions :: "ManifestArtifact \<Rightarrow> observedSource gmap \<Rightarrow> Artifact \<Rightarrow> Artifact" where
  "setArtifactRevisions spec remoteSources artifact =
     (let a1 = (if ma_revision spec \<noteq> [] then
                  (case mget remoteSources (trim_prefix (ma_revision spec) ''@'') of
                     None \<Rightarrow> artifact
                   | Some rs \<Rightarrow> artifact\<lparr>af_revision := os_Revision rs\<rparr>)
                else artifact)
      in if ma_originRevision spec \<noteq> [] then
           (case mget remoteSources (trim_prefix (ma_originRevision spec) ''@'') of
              None \<Rightarrow> a1
            | Some rs \<Rightarrow> a1\<lparr>af_metadata := mput ArtifactOriginRevisionAnnotation
                (if os_OriginRevision rs \<noteq> [] then os_OriginRevision rs else os_Revision rs) (af_metadata a1)\<rparr>)
         else a1)"

definition source_part :: "string \<times> observedSource \<Rightarrow> string" where
  "source_part ks =
     (case ks of (k, s) \<Rightarrow> k @ ''=[digest='' @ os_Digest s @ '',revision='' @ os_Revision s @
        '',url='' @ os_URL s @ '']'')"

definition newline_char :: char where
  "newline_char = CHR 0x0A"

definition hash_input :: "observedSource gmap \<Rightarrow> string" where
  "hash_input sources = join_with newline_char (sort (map source_part sources))"

definition hashObservedSources :: "(string \<Rightarrow> string) \<Rightarrow> observedSource gmap \<Rightarrow> string" where
  "hashObservedSources sha256_hex sources = ''sha256:'' @ sha256_hex (hash_input sources)"

definition notify_changed ::
  "ManifestGenerator \<Rightarrow> ExternalArtifactReference list \<Rightarrow> ExternalArtifactReference list" where
  "notify_changed oldObj eaRefs =
     filter (\<lambda>r. \<not> HasArtifactInInventory oldObj (ear_name r) (ear_namespace r) (ear_digest r)) eaRefs"

definition notify :: "ManifestGenerator \<Rightarrow> ExternalArtifactReference list \<Rightarrow> rstate \<Rightarrow> rstate" where
  "notify oldObj eaRefs s =
     (if notify_changed oldObj eaRefs \<noteq> [] then emit (Event ''Normal'' ReadyCondition) s else s)"

section \<open>Sample conditions\<close>

text \<open>Conditions as a list with the last one set in front satisfy the laws.\<close>

definition sample_set :: "Condition \<Rightarrow> conds \<Rightarrow> conds" where
  "sample_set c cs = c # filter (\<lambda>d. c_type d \<noteq> c_type c) cs"

definition sample_mark :: "string \<Rightarrow> string \<Rightarrow> string \<Rightarrow> conds \<Rightarrow> conds" where
  "sample_mark st ty r = sample_set \<lparr>c_type = ty, c_status = st, c_reason = r, c_message = []\<rparr>"

definition sample_cond :: cond_lib where
  "sample_cond = \<lparr>k_get = (\<lambda>cs t. find (\<lambda>c. c_type c = t) cs),
     k_set = sample_set,
     k_delete = (\<lambda>t. filter (\<lambda>d. c_type d \<noteq> t)),
     k_mark = sample_mark,
     k_mark_reconciling = (\<lambda>r cs. filter (\<lambda>d. c_type d \<noteq> StalledCondition) (sample_mark ''True'' ReconcilingCondition r cs)),
     k_mark_stalled = (\<lambda>r cs. filter (\<lambda>d. c_type d \<noteq> ReconcilingCondition) (sample_mark ''True'' StalledCondition r cs))\<rparr>"

lemma find_filter_type: "find (\<lambda>c. c_type c = t) (filter (\<lambda>d. c_type d \<noteq> u) cs) =
    (if t = u then None else find (\<lambda>c. c_type c = t) cs)"
  by (induction cs) auto

lemma sample_cond_ok: "cond_ok sample_cond"
  by (auto simp: cond_ok_def sample_cond_def sample_set_def sample_mark_def find_filter_type find_Some_iff simp del: filter_filter)

definition sample_ctl :: ctl_env where
  "sample_ctl = \<lparr>ce_cond = sample_cond, ce_patch = (\<lambda>_. None), ce_annotation = (\<lambda>m. mget m ''requestedAt'')\<rparr>"

section \<open>Lemmas on conditions\<close>

lemma cond_type: "cond_ok lib \<Longrightarrow> k_get lib cs t = Some c \<Longrightarrow> c_type c = t"
  by (simp add: cond_ok_def)

lemma cond_set: "cond_ok lib \<Longrightarrow> k_get lib (k_set lib c cs) t = (if t = c_type c then Some c else k_get lib cs t)"
  by (simp add: cond_ok_def)

lemma cond_delete: "cond_ok lib \<Longrightarrow> k_get lib (k_delete lib d cs) t = (if t = d then None else k_get lib cs t)"
  by (simp add: cond_ok_def)

lemma cond_mark_other: "cond_ok lib \<Longrightarrow> t \<noteq> ty \<Longrightarrow> k_get lib (k_mark lib st ty r cs) t = k_get lib cs t"
  by (simp add: cond_ok_def)

lemma cond_mark_same: "cond_ok lib \<Longrightarrow>
    \<exists>c. k_get lib (k_mark lib st ty r cs) ty = Some c \<and> c_type c = ty \<and> c_status c = st \<and> c_reason c = r"
  by (simp add: cond_ok_def)

lemma cond_reconciling: "cond_ok lib \<Longrightarrow> k_get lib (k_mark_reconciling lib r cs) t =
    (if t = StalledCondition then None else k_get lib (k_mark lib ''True'' ReconcilingCondition r cs) t)"
  by (simp add: cond_ok_def)

lemma cond_stalled: "cond_ok lib \<Longrightarrow> k_get lib (k_mark_stalled lib r cs) t =
    (if t = ReconcilingCondition then None else k_get lib (k_mark lib ''True'' StalledCondition r cs) t)"
  by (simp add: cond_ok_def)

lemmas cond_laws = cond_set cond_delete cond_mark_other cond_reconciling cond_stalled

lemma obj_get_on_conds [simp]: "obj_get lib (rs_obj (on_conds f s)) t = k_get lib (f (GetConditions (rs_obj s))) t"
  by (simp add: obj_get_def)

definition has_reason :: "cond_lib \<Rightarrow> ManifestGenerator \<Rightarrow> string \<Rightarrow> string \<Rightarrow> bool" where
  "has_reason lib obj t r \<longleftrightarrow>
     (case obj_get lib obj t of None \<Rightarrow> False | Some c \<Rightarrow> c_reason c = r)"

lemma obj_get_SetLast [simp]: "obj_get lib (SetLastHandledReconcileAt obj v) t = obj_get lib obj t"
  by (simp add: obj_get_def SetLastHandledReconcileAt_def GetConditions_def)

lemma has_status_on_conds: "has_status lib (rs_obj (on_conds f s)) t st \<longleftrightarrow>
    (case k_get lib (f (GetConditions (rs_obj s))) t of None \<Rightarrow> False | Some c \<Rightarrow> c_status c = st)"
  by (simp add: has_status_def)

lemma has_status_mark: "cond_ok lib \<Longrightarrow>
    has_status lib (rs_obj (on_conds (k_mark lib st ty r) s)) ty st' \<longleftrightarrow> st' = st"
  using cond_mark_same [of lib st ty r "GetConditions (rs_obj s)"] by (auto simp: has_status_on_conds)

lemma has_status_mark_other: "cond_ok lib \<Longrightarrow> t \<noteq> ty \<Longrightarrow>
    has_status lib (rs_obj (on_conds (k_mark lib st ty r) s)) t st' \<longleftrightarrow> has_status lib (rs_obj s) t st'"
  by (simp add: has_status_on_conds cond_mark_other has_status_def obj_get_def)

lemma has_status_reconciling: "cond_ok lib \<Longrightarrow> t \<noteq> StalledCondition \<Longrightarrow> t \<noteq> ReconcilingCondition \<Longrightarrow>
    has_status lib (rs_obj (on_conds (k_mark_reconciling lib r) s)) t st \<longleftrightarrow> has_status lib (rs_obj s) t st"
  by (simp add: has_status_on_conds cond_reconciling cond_mark_other has_status_def obj_get_def)

lemmas status_laws = has_status_mark has_status_mark_other has_status_reconciling

section \<open>Status\<close>

text \<open>The object that \<open>summarizeStatus\<close> patches.\<close>

lemma summarizeStatus_trace:
  "\<exists>b. rs_trace (snd (summarizeStatus env s)) =
     rs_trace s @ [PatchStatus (rs_obj (snd (summarizeStatus env s))) b] \<and>
     (b \<longleftrightarrow> ce_patch env ''summary'' = None)"
  by (auto simp: summarizeStatus_def patchStatus_def Let_def split: option.split)

text \<open>The two changes to the \<open>Reconciling\<close> condition.\<close>

lemma cond_neq: "ReadyCondition \<noteq> ReconcilingCondition" "StalledCondition \<noteq> ReconcilingCondition"
  by (simp_all add: cond_consts)

lemma retry_get:
  assumes "cond_ok lib"
  shows "obj_get lib (rs_obj (case obj_get lib (rs_obj s) ReconcilingCondition of
        Some rc \<Rightarrow> if has_status lib (rs_obj s) ReadyCondition ''False'' then
          on_conds (k_set lib (rc\<lparr>c_reason := ProgressingWithRetryReason\<rparr>)) s else s
      | None \<Rightarrow> s)) t =
    (if t = ReconcilingCondition \<and> has_status lib (rs_obj s) ReadyCondition ''False'' then
       map_option (\<lambda>rc. rc\<lparr>c_reason := ProgressingWithRetryReason\<rparr>) (obj_get lib (rs_obj s) t)
     else obj_get lib (rs_obj s) t)"
proof (cases "obj_get lib (rs_obj s) ReconcilingCondition")
  case (Some rc)
  have "c_type rc = ReconcilingCondition" using cond_type [OF assms] Some by (simp add: obj_get_def)
  with Some show ?thesis by (simp add: cond_set [OF assms] obj_get_def)
qed auto

lemma drop_get:
  "cond_ok lib \<Longrightarrow> obj_get lib (rs_obj (if b then on_conds (k_delete lib ReconcilingCondition) s else s)) t =
     (if t = ReconcilingCondition \<and> b then None else obj_get lib (rs_obj s) t)"
  by (simp add: cond_delete obj_get_def)

text \<open>The conditions of the patched object: only \<open>Reconciling\<close> may differ.\<close>

lemma summarizeStatus_get:
  assumes "cond_ok (ce_cond env)"
  shows "obj_get (ce_cond env) (rs_obj (snd (summarizeStatus env s))) t =
    (if t = ReconcilingCondition \<and>
        (has_status (ce_cond env) (rs_obj s) ReadyCondition ''True'' \<or> has_status (ce_cond env) (rs_obj s) StalledCondition ''True'')
     then None
     else if t = ReconcilingCondition \<and> has_status (ce_cond env) (rs_obj s) ReadyCondition ''False'' then
       map_option (\<lambda>rc. rc\<lparr>c_reason := ProgressingWithRetryReason\<rparr>) (obj_get (ce_cond env) (rs_obj s) t)
     else obj_get (ce_cond env) (rs_obj s) t)"
proof -
  let ?lib = "ce_cond env"
  let ?s1 = "case ce_annotation env (mg_annotations (rs_obj s)) of None \<Rightarrow> s
    | Some v \<Rightarrow> s\<lparr>rs_obj := SetLastHandledReconcileAt (rs_obj s) v\<rparr>"
  let ?s2 = "case obj_get ?lib (rs_obj ?s1) ReconcilingCondition of
      Some rc \<Rightarrow> if has_status ?lib (rs_obj ?s1) ReadyCondition ''False'' then
        on_conds (k_set ?lib (rc\<lparr>c_reason := ProgressingWithRetryReason\<rparr>)) ?s1 else ?s1
    | None \<Rightarrow> ?s1"
  let ?b = "has_status ?lib (rs_obj ?s2) ReadyCondition ''True'' \<or> has_status ?lib (rs_obj ?s2) StalledCondition ''True''"
  have e: "rs_obj (snd (summarizeStatus env s)) =
      rs_obj (if ?b then on_conds (k_delete ?lib ReconcilingCondition) ?s2 else ?s2)"
    by (simp add: summarizeStatus_def patchStatus_def Let_def split: option.split)
  have g1: "obj_get ?lib (rs_obj ?s1) u = obj_get ?lib (rs_obj s) u" for u
    by (simp split: option.split)
  then have h1: "has_status ?lib (rs_obj ?s1) u st = has_status ?lib (rs_obj s) u st" for u st
    by (simp add: has_status_def)
  have g2: "obj_get ?lib (rs_obj ?s2) u = (if u = ReconcilingCondition \<and> has_status ?lib (rs_obj s) ReadyCondition ''False''
      then map_option (\<lambda>rc. rc\<lparr>c_reason := ProgressingWithRetryReason\<rparr>) (obj_get ?lib (rs_obj s) u)
      else obj_get ?lib (rs_obj s) u)" for u
    using retry_get [OF assms, of ?s1 u] unfolding g1 h1 .
  have "has_status ?lib (rs_obj ?s2) u st = has_status ?lib (rs_obj s) u st" if "u \<noteq> ReconcilingCondition" for u st
    using g2 [of u] that by (simp add: has_status_def)
  then have b: "?b \<longleftrightarrow> has_status ?lib (rs_obj s) ReadyCondition ''True'' \<or> has_status ?lib (rs_obj s) StalledCondition ''True''"
    by (simp only: cond_neq not_False_eq_True)
  show ?thesis unfolding e drop_get [OF assms] b g2 by simp
qed

lemma summarizeStatus_ready:
  "cond_ok (ce_cond env) \<Longrightarrow> summarizeStatus env s = (e, s') \<Longrightarrow>
   has_status (ce_cond env) (rs_obj s') ReadyCondition st = has_status (ce_cond env) (rs_obj s) ReadyCondition st"
  using summarizeStatus_get [of env s ReadyCondition] by (simp add: has_status_def cond_consts)

text \<open>
  The status normal form: one status patch, and the object it writes has no \<open>Reconciling\<close> condition when it
  is ready or stalled; when \<open>Ready\<close> is false, a \<open>Reconciling\<close> condition that is there says
  \<open>ProgressingWithRetry\<close>; the other conditions are as they were.
\<close>

lemma summarizeStatus_normal_form:
  assumes "cond_ok (ce_cond env)"
  shows "let lib = ce_cond env; obj = rs_obj (snd (summarizeStatus env s)) in
    (\<exists>b. rs_trace (snd (summarizeStatus env s)) = rs_trace s @ [PatchStatus obj b]) \<and>
    (has_status lib obj ReadyCondition ''True'' \<or> has_status lib obj StalledCondition ''True'' \<longrightarrow>
       obj_get lib obj ReconcilingCondition = None) \<and>
    (has_status lib obj ReadyCondition ''False'' \<and> obj_get lib obj ReconcilingCondition \<noteq> None \<longrightarrow>
       has_reason lib obj ReconcilingCondition ProgressingWithRetryReason) \<and>
    (\<forall>t. t \<noteq> ReconcilingCondition \<longrightarrow> obj_get lib obj t = obj_get lib (rs_obj s) t)"
proof -
  let ?lib = "ce_cond env" and ?o = "rs_obj (snd (summarizeStatus env s))"
  note g = summarizeStatus_get [OF assms]
  note c = cond_neq
  have hs: "has_status ?lib ?o t st = has_status ?lib (rs_obj s) t st" if "t \<noteq> ReconcilingCondition" for t st
    using g [where t = t] that by (simp add: has_status_def)
  have tr: "\<exists>b. rs_trace (snd (summarizeStatus env s)) = rs_trace s @ [PatchStatus ?o b]"
    using summarizeStatus_trace [of env s] by blast
  have rr: "has_reason ?lib ?o ReconcilingCondition ProgressingWithRetryReason"
    if "has_status ?lib ?o ReadyCondition ''False''" "obj_get ?lib ?o ReconcilingCondition \<noteq> None"
    using that g [where t = ReconcilingCondition] hs [OF c(1)] by (auto simp: has_reason_def split: if_splits option.splits)
  show ?thesis unfolding Let_def using tr rr g hs c by simp
qed

lemma summarizeStatus_patch:
  assumes "summarizeStatus env s = (e, s')"
  shows "\<exists>b. rs_trace s' = rs_trace s @ [PatchStatus (rs_obj s') b] \<and>
    (if b then e = None else mg_deleting (rs_obj s') \<or> e \<noteq> None)"
proof -
  have p: "\<exists>b. rs_trace u' = rs_trace u @ [PatchStatus (rs_obj u') b] \<and>
      (if b then e = None else mg_deleting (rs_obj u') \<or> e \<noteq> None)"
    if "patchStatus env loc u = (e, u')" for loc u u'
    using that by (intro exI [of _ "ce_patch env loc = None"]) (cases "ce_patch env loc"; simp add: patchStatus_def; fastforce)
  have "\<exists>s3. summarizeStatus env s = patchStatus env ''summary'' s3 \<and> rs_trace s3 = rs_trace s"
    unfolding summarizeStatus_def Let_def by (rule exI, rule conjI, rule refl) (simp split: option.split)
  then obtain s3 where "patchStatus env ''summary'' s3 = (e, s')" "rs_trace s3 = rs_trace s" using assms by auto
  with p [OF this(1)] show ?thesis by simp
qed

text \<open>
  A terminal error is visible and final: \<open>Ready\<close> is false and \<open>Stalled\<close> is true, both with the given
  reason, \<open>Reconciling\<close> is gone, one warning event has been sent, and the error returned is the
  terminal one, which stops the requeue.
\<close>

theorem newTerminalErrorFor_stalls:
  assumes "cond_ok (ce_cond env)" and "newTerminalErrorFor env reason err s = (e, s')"
  shows "e = TerminalError err \<and> rs_trace s' = rs_trace s @ [Event ''Warning'' reason] \<and>
    has_status (ce_cond env) (rs_obj s') ReadyCondition ''False'' \<and>
    has_reason (ce_cond env) (rs_obj s') ReadyCondition reason \<and>
    has_status (ce_cond env) (rs_obj s') StalledCondition ''True'' \<and>
    has_reason (ce_cond env) (rs_obj s') StalledCondition reason \<and>
    obj_get (ce_cond env) (rs_obj s') ReconcilingCondition = None"
proof -
  let ?cs = "k_mark (ce_cond env) ''False'' ReadyCondition reason (GetConditions (rs_obj s))"
  have s': "e = TerminalError err" "rs_trace s' = rs_trace s @ [Event ''Warning'' reason]"
    "\<And>t. obj_get (ce_cond env) (rs_obj s') t = k_get (ce_cond env) (k_mark_stalled (ce_cond env) reason ?cs) t"
    using assms(2) by (auto simp: newTerminalErrorFor_def)
  have ne: "ReadyCondition \<noteq> ReconcilingCondition" "ReadyCondition \<noteq> StalledCondition" "StalledCondition \<noteq> ReconcilingCondition"
    by (simp_all add: cond_consts)
  obtain c where "k_get (ce_cond env) ?cs ReadyCondition = Some c" "c_status c = ''False''" "c_reason c = reason"
    using cond_mark_same [OF assms(1)] by metis
  moreover obtain d where "k_get (ce_cond env) (k_mark (ce_cond env) ''True'' StalledCondition reason ?cs) StalledCondition = Some d"
    "c_status d = ''True''" "c_reason d = reason"
    using cond_mark_same [OF assms(1)] by metis
  ultimately show ?thesis
    using s'(1,2) ne
    by (simp add: has_status_def has_reason_def s'(3) cond_stalled [OF assms(1)] cond_mark_other [OF assms(1)])
qed

section \<open>Finalizers and orphans\<close>

lemma finalizeExternalArtifacts_trace:
  "rs_trace (finalizeExternalArtifacts refs s) = rs_trace s @ concat (map (\<lambda>r.
     [RemoveStorage (ear_namespace r) (ear_name r), DeleteEA (ear_namespace r) (ear_name r)]) refs) \<and>
   rs_obj (finalizeExternalArtifacts refs s) = rs_obj s"
  unfolding finalizeExternalArtifacts_def
  by (induction refs arbitrary: s) (simp_all add: finalize_one_def)

text \<open>
  Finalizing deletes what the inventory lists and nothing else: for every entry its stored files,
  then its ExternalArtifact, in inventory order. The finalizer is dropped whatever the calls
  answer, so the deletion of the object never waits for a clean-up that failed.
\<close>

theorem finalize_deletes_inventory:
  "rs_trace (finalize s) = rs_trace s @ concat (map (\<lambda>r.
     [RemoveStorage (ear_namespace r) (ear_name r), DeleteEA (ear_namespace r) (ear_name r)])
       (st_inventory (mg_status (rs_obj s)))) \<and>
   Finalizer \<notin> set (mg_finalizers (rs_obj (finalize s))) \<and>
   (\<forall>f. f \<noteq> Finalizer \<longrightarrow> f \<in> set (mg_finalizers (rs_obj (finalize s))) \<longleftrightarrow> f \<in> set (mg_finalizers (rs_obj s)))"
  by (simp add: finalize_def Let_def finalizeExternalArtifacts_trace)

text \<open>
  The first reconcile only claims the object: the finalizer is there exactly once more, nothing is
  called, and \<open>Ready\<close> is set to unknown, or to true with reason \<open>ReconciliationDisabled\<close> when the
  object is suspended.
\<close>

theorem addFinalizer_claims:
  assumes "cond_ok (ce_cond env)" and "Finalizer \<notin> set (mg_finalizers (rs_obj s))"
  shows "mg_finalizers (rs_obj (addFinalizer env s)) = mg_finalizers (rs_obj s) @ [Finalizer] \<and>
    rs_trace (addFinalizer env s) = rs_trace s \<and>
    has_status (ce_cond env) (rs_obj (addFinalizer env s)) ReadyCondition
      (if IsDisabled (rs_obj s) then ''True'' else ''Unknown'')"
proof -
  have d: "IsDisabled (obj\<lparr>mg_finalizers := fs\<rparr>) = IsDisabled obj" for obj fs
    by (simp add: IsDisabled_def)
  have ne: "ReadyCondition \<noteq> ReconcilingCondition" "ReadyCondition \<noteq> StalledCondition" by (simp_all add: cond_consts)
  have a: "has_status (ce_cond env) (rs_obj (addFinalizer env s)) ReadyCondition
      (if IsDisabled (rs_obj s) then ''True'' else ''Unknown'')"
    using assms(1) ne by (simp add: addFinalizer_def Let_def d status_laws)
  have b: "mg_finalizers (rs_obj (addFinalizer env s)) = mg_finalizers (rs_obj s) @ [Finalizer]"
    "rs_trace (addFinalizer env s) = rs_trace s"
    using assms(2) by (simp_all add: addFinalizer_def Let_def)
  from a b show ?thesis by blast
qed

lemma mget_ref_set: "mget (fold (\<lambda>ref. mput (ref_key ref) ()) refs m) k \<noteq> None \<longleftrightarrow>
    k \<in> ref_key ` set refs \<or> mget m k \<noteq> None"
  by (induction refs arbitrary: m) (auto simp: mget_mput)

lemma findOrphaned_iff:
  "ref \<in> set (findOrphanedReferences old cur) \<longleftrightarrow> ref \<in> set old \<and> ref_key ref \<notin> ref_key ` set cur"
  using mget_ref_set [of cur "[]" "ref_key ref"] by (auto simp: findOrphanedReferences_def Let_def)

text \<open>
  Orphans are exactly the inventory entries whose object is no longer produced: an entry is an
  orphan if and only if no current reference has its namespace and name. An artifact with a new
  digest is never deleted as an orphan.
\<close>

theorem findOrphanedReferences_spec:
  assumes "\<forall>r \<in> set old \<union> set cur. CHR ''/'' \<notin> set (ear_namespace r)"
  shows "ref \<in> set (findOrphanedReferences old cur) \<longleftrightarrow>
    ref \<in> set old \<and> \<not> (\<exists>c \<in> set cur. ear_namespace c = ear_namespace ref \<and> ear_name c = ear_name ref)"
proof -
  have "ref_key ref = ref_key c \<longleftrightarrow> ear_namespace c = ear_namespace ref \<and> ear_name c = ear_name ref"
    if "ref \<in> set old" "c \<in> set cur" for c
    using assms that first_sep_unique [of "CHR ''/''" "ear_namespace ref" "ear_namespace c" "ear_name ref" "ear_name c"]
    by (auto simp: ref_key_def)
  then show ?thesis unfolding findOrphaned_iff by blast
qed

section \<open>Revisions\<close>

text \<open>
  An artifact mirrors its source when the spec asks for it: \<open>revision\<close> replaces the revision by the
  source's, and only that; \<open>originRevision\<close> records the source's origin revision, or its own
  revision when it has none, and nothing else changes.
\<close>

theorem setArtifactRevisions_spec:
  assumes "mget remote al = Some rs" and "ma_revision spec = ''@'' @ al" and "ma_originRevision spec = ''@'' @ al"
  shows "let a' = setArtifactRevisions spec remote a in
    af_revision a' = os_Revision rs \<and>
    mget (af_metadata a') ArtifactOriginRevisionAnnotation =
      Some (if os_OriginRevision rs = [] then os_Revision rs else os_OriginRevision rs) \<and>
    (\<forall>k. k \<noteq> ArtifactOriginRevisionAnnotation \<longrightarrow> mget (af_metadata a') k = mget (af_metadata a) k) \<and>
    af_digest a' = af_digest a \<and> af_filename a' = af_filename a"
  using assms trim_prefix_append [of "''@''" al]
  by (simp add: setArtifactRevisions_def Let_def mget_mput)

section \<open>Drift\<close>

text \<open>What the digest of the sources covers.\<close>

definition covered :: "observedSource gmap \<Rightarrow> (string \<times> string \<times> string \<times> string) list" where
  "covered sources = map (\<lambda>(k, s). (k, os_Digest s, os_Revision s, os_URL s)) sources"

definition source_plain :: "string \<times> observedSource \<Rightarrow> bool" where
  "source_plain ks \<longleftrightarrow> CHR ''='' \<notin> set (fst ks) \<and> CHR '','' \<notin> set (os_Digest (snd ks)) \<and>
     CHR '','' \<notin> set (os_Revision (snd ks)) \<and> newline_char \<notin> set (source_part ks)"

lemma source_part_inj:
  assumes "source_plain (k, s)" and "source_plain (l, u)" and "source_part (k, s) = source_part (l, u)"
  shows "k = l \<and> os_Digest s = os_Digest u \<and> os_Revision s = os_Revision u \<and> os_URL s = os_URL u"
proof -
  have "k @ CHR ''='' # (''[digest='' @ os_Digest s @ '',revision='' @ os_Revision s @ '',url='' @ os_URL s @ '']'') =
      l @ CHR ''='' # (''[digest='' @ os_Digest u @ '',revision='' @ os_Revision u @ '',url='' @ os_URL u @ '']'')"
    using assms(3) by (simp add: source_part_def)
  then have 1: "k = l" "os_Digest s @ CHR '','' # (''revision='' @ os_Revision s @ '',url='' @ os_URL s @ '']'') =
      os_Digest u @ CHR '','' # (''revision='' @ os_Revision u @ '',url='' @ os_URL u @ '']'')"
    using assms(1,2) by (simp_all add: source_plain_def first_sep_unique)
  then have 2: "os_Digest s = os_Digest u" "os_Revision s @ CHR '','' # (''url='' @ os_URL s @ '']'') =
      os_Revision u @ CHR '','' # (''url='' @ os_URL u @ '']'')"
    using assms(1,2) by (simp_all add: source_plain_def first_sep_unique)
  then have "os_Revision s = os_Revision u" "os_URL s = os_URL u"
    using assms(1,2) by (simp_all add: source_plain_def first_sep_unique)
  with 1 2 show ?thesis by simp
qed

lemma source_part_nonempty: "source_part ks \<noteq> []"
  by (cases ks) (simp add: source_part_def)

lemma hash_input_parts:
  assumes "list_all source_plain a" and "list_all source_plain b" and "hash_input a = hash_input b"
  shows "mset (map source_part a) = mset (map source_part b)"
proof -
  have s: "split_on newline_char (hash_input m) = (if m = [] then [[]] else sort (map source_part m))"
    if "list_all source_plain m" for m
  proof (cases "m = []")
    case False
    have "sort (map source_part m) \<noteq> []" using False by (metis length_0_conv length_map length_sort)
    then show ?thesis
      using that False by (auto simp: hash_input_def list_all_iff source_plain_def intro!: split_join)
  qed (simp add: hash_input_def)
  have ne: "[[]] \<noteq> sort (map source_part m)" for m
  proof
    assume "[[]] = sort (map source_part m)"
    then have "[] \<in> set (map source_part m)" by (metis list.set_intros(1) set_sort)
    then show False using source_part_nonempty by (metis imageE set_map)
  qed
  have "(if a = [] then [[]] else sort (map source_part a)) = (if b = [] then [[]] else sort (map source_part b))"
    using s [OF assms(1)] s [OF assms(2)] assms(3) by simp
  then have "sort (map source_part a) = sort (map source_part b)"
    using ne ne [symmetric] by (auto split: if_splits)
  then show ?thesis by (metis mset_sort)
qed

text \<open>
  Drift detection: the string that is hashed does not depend on the order in which Go iterates over
  the sources, and it determines the alias, digest, revision and URL of every source, so a change of
  any of them changes what is hashed. The origin revision is not covered.
\<close>

theorem hash_input_detects_drift:
  assumes "keys_ok a" and "keys_ok b" and "list_all source_plain a" and "list_all source_plain b"
  shows "(\<forall>a'. mset a' = mset a \<longrightarrow> hash_input a' = hash_input a) \<and>
    (hash_input a = hash_input b \<longrightarrow> covered a = covered b)"
proof (intro conjI allI impI)
  fix a'
  assume "mset a' = mset a"
  then have "mset (map source_part a') = mset (map source_part a)" by simp
  then show "hash_input a' = hash_input a"
    unfolding hash_input_def by (metis mset_sort properties_for_sort sorted_sort)
next
  assume "hash_input a = hash_input b"
  then have m: "set (map source_part a) = set (map source_part b)"
    using hash_input_parts [OF assms(3,4)] mset_eq_setD by blast
  have sub: "set (covered x) \<subseteq> set (covered y)"
    if "list_all source_plain x" "list_all source_plain y" "set (map source_part x) \<subseteq> set (map source_part y)" for x y
  proof (rule subsetI)
    fix z
    assume zx: "z \<in> set (covered x)"
    note sub = that
    from zx obtain k s where z: "(k, s) \<in> set x" "z = (k, os_Digest s, os_Revision s, os_URL s)"
      by (auto simp: covered_def)
    then have "source_part (k, s) \<in> set (map source_part y)" using sub(3) by force
    then obtain l u where lu: "(l, u) \<in> set y" "source_part (k, s) = source_part (l, u)"
      by auto
    then have "k = l \<and> os_Digest s = os_Digest u \<and> os_Revision s = os_Revision u \<and> os_URL s = os_URL u"
      using source_part_inj sub(1,2) z(1) by (metis (no_types, lifting) list_all_iff)
    then show "z \<in> set (covered y)" using lu(1) z(2) by (force simp: covered_def)
  qed
  have eq: "set (covered a) = set (covered b)" using sub assms(3,4) m by blast
  have k: "map fst (covered x) = mkeys x" for x by (simp add: covered_def mkeys_def comp_def case_prod_beta)
  have "keys_ok (covered a)" "keys_ok (covered b)"
    using assms(1,2) by (simp_all add: keys_ok_def mkeys_def [of "covered _"] k)
  moreover from this have "map_of (covered a) = map_of (covered b)"
    using eq by (intro map_of_inject_set [THEN iffD2]) (simp_all add: keys_ok_distinct)
  ultimately show "covered a = covered b" by (intro keys_ok_ext) (simp_all add: mget_def)
qed

theorem hash_input_detects_drift_witness:
  "hash_input [(''a'', \<lparr>os_Digest = ''d1'', os_Revision = ''r'', os_URL = ''u'', os_OriginRevision = []\<rparr>)] \<noteq>
   hash_input [(''a'', \<lparr>os_Digest = ''d2'', os_Revision = ''r'', os_URL = ''u'', os_OriginRevision = []\<rparr>)]"
proof -
  let ?a = "[(''a'', \<lparr>os_Digest = ''d1'', os_Revision = ''r'', os_URL = ''u'', os_OriginRevision = []\<rparr>)]"
  let ?b = "[(''a'', \<lparr>os_Digest = ''d2'', os_Revision = ''r'', os_URL = ''u'', os_OriginRevision = []\<rparr>)]"
  have "list_all source_plain ?a" "list_all source_plain ?b" by (code_simp+)
  then show ?thesis using hash_input_detects_drift [of ?a ?b] by (auto simp: covered_def)
qed

text \<open>
  A notification names exactly the artifacts that are new or have a new digest; when none changed no
  event is sent.
\<close>

theorem notify_on_change:
  "rs_trace (notify oldObj eaRefs s) = rs_trace s @
     (if \<exists>r \<in> set eaRefs. \<not> (\<exists>i \<in> set (st_inventory (mg_status oldObj)).
           ear_name i = ear_name r \<and> ear_namespace i = ear_namespace r \<and> ear_digest i = ear_digest r)
      then [Event ''Normal'' ReadyCondition] else [])"
  by (auto simp: notify_def notify_changed_def HasArtifactInInventory_def inventory_has_iff filter_empty_conv)

end
