(* ===== verification/Load_Verb.thy ===== *)
theory Load_Verb
  imports Item_Template Source_Ref Go_Paths
begin

text \<open>
  The \<open>load\<close> verb (\<open>internal/pipeline/load.go\<close>): compiling a step, expanding its glob, reading and
  decoding the files, and shaping the result as a value, a list or a map.
\<close>

section \<open>Reading and decoding one file\<close>

definition maxLoadFileBytes :: int where
  "maxLoadFileBytes = 10 * 2 ^ 20"

definition decode_format :: "pipe_env \<Rightarrow> string \<Rightarrow> string \<Rightarrow> string \<Rightarrow> gval res" where
  "decode_format env rel format data =
     (if format = LoadFormatYAML then wrap_err ''decode %q as yaml: %w'' [AStr rel] (pe_yaml env data)
      else if format = LoadFormatJSON then wrap_err ''decode %q as json: %w'' [AStr rel] (pe_json env data)
      else if format = LoadFormatText then Inr (VStr data)
      else if format = LoadFormatRaw then Inr (VBytes data)
      else Inl (Errorf ''unsupported format %q'' [AStr format]))"

definition readDecode :: "pipe_env \<Rightarrow> string \<Rightarrow> string \<Rightarrow> string \<Rightarrow> gval res" where
  "readDecode env srcDir rel format =
     (case os_open (pe_os env) (path_join srcDir rel) of
        Inl err \<Rightarrow> Inl (Wrapf ''open %q: %w'' [AStr rel] err)
      | Inr f \<Rightarrow>
          (case of_stat f of
             Inl err \<Rightarrow> Inl (Wrapf ''stat %q: %w'' [AStr rel] err)
           | Inr info \<Rightarrow>
               if \<not> fi_regular info then Inl (Errorf ''%q is not a regular file'' [AStr rel])
               else if fi_size info > maxLoadFileBytes then
                 Inl (Errorf ''%q is %d bytes which exceeds the per-file load limit of %d bytes''
                   [AStr rel, AInt (fi_size info), AInt maxLoadFileBytes])
               else case read_limited f (maxLoadFileBytes + 1) of
                   Inl err \<Rightarrow> Inl (Wrapf ''read %q: %w'' [AStr rel] err)
                 | Inr data \<Rightarrow>
                     if int (length data) > maxLoadFileBytes then
                       Inl (Errorf ''%q exceeded the per-file load limit of %d bytes during read''
                         [AStr rel, AInt maxLoadFileBytes])
                     else decode_format env rel format data))"

section \<open>Globs\<close>

fun no_dotdot :: "string list \<Rightarrow> unit res" where
  "no_dotdot [] = Inr ()"
| "no_dotdot (seg # segs) =
     (if seg = ''..'' then Inl (Errorf ''glob must not contain .. segments'' []) else no_dotdot segs)"

definition validateGlob :: "string \<Rightarrow> unit res" where
  "validateGlob pattern =
     (if pattern = [] then Inl (Errorf ''glob is empty'' [])
      else if is_abs pattern then Inl (Errorf ''glob must be a relative path'' [])
      else no_dotdot (split_on slash pattern))"

definition hasGlobMeta :: "string \<Rightarrow> bool" where
  "hasGlobMeta pattern = contains_any pattern ''*?[{''"

definition expandGlob :: "pipe_env \<Rightarrow> string \<Rightarrow> string \<Rightarrow> string list res" where
  "expandGlob env srcDir pattern =
     (if \<not> hasGlobMeta pattern then
        (case dirfs_stat (pe_os env) srcDir pattern of
           Inl err \<Rightarrow> Inl (Wrapf ''source path %q: %w'' [AStr pattern] err)
         | Inr info \<Rightarrow>
             if \<not> fi_regular info then
               Inl (Errorf ''source path %q is not a regular file'' [AStr pattern])
             else Inr [pattern])
      else case dirfs_glob (pe_os env) srcDir pattern of
          Inl err \<Rightarrow> Inl (Wrapf ''glob %q: %w'' [AStr pattern] err)
        | Inr matches \<Rightarrow> Inr (sort matches))"

section \<open>Compiling a step\<close>

record loadStep =
  l_name :: string
  l_alias :: string
  l_pattern :: string
  l_format :: string
  l_asMap :: bool
  l_keyExpr :: "itemTemplate option"

text \<open>Reading a \<open>map[string]bool\<close>: an absent key is \<open>false\<close>.\<close>

definition mtrue :: "bool gmap \<Rightarrow> string \<Rightarrow> bool" where
  "mtrue m k = (mget m k = Some True)"

definition compileLoad :: "pipe_env \<Rightarrow> string \<Rightarrow> LoadStep \<Rightarrow> bool gmap \<Rightarrow> loadStep res" where
  "compileLoad env name ls aliases =
     (case splitSourceRef (ls_from ls) of
        None \<Rightarrow> Inl (Errorf ''load: invalid `from` reference %q'' [AStr (ls_from ls)])
      | Some (al, pattern) \<Rightarrow>
          if \<not> mtrue aliases al then
            Inl (Errorf ''load: source alias %q not declared in spec.sources'' [AStr al])
          else case validateGlob pattern of
              Inl err \<Rightarrow> Inl (Wrapf ''load: %w'' [] err)
            | Inr _ \<Rightarrow>
                let format = (if ls_format ls = [] then LoadFormatYAML else ls_format ls) in
                if format \<notin> set [LoadFormatYAML, LoadFormatJSON, LoadFormatText, LoadFormatRaw] then
                  Inl (Errorf ''load: unsupported format %q'' [AStr format])
                else
                  let asShape = (if ls_as ls = [] then LoadAsList else ls_as ls);
                      s = \<lparr>l_name = name, l_alias = al, l_pattern = pattern, l_format = format,
                           l_asMap = (asShape = LoadAsMap), l_keyExpr = None\<rparr> in
                  if l_asMap s then
                    (if ls_keyExpr ls = [] then
                       Inl (Errorf ''load: `as: map` requires `keyExpr`'' [])
                     else case newKeyExprEvaluator env name (ls_keyExpr ls) of
                         Inl err \<Rightarrow> Inl (Wrapf ''load: keyExpr: %w'' [] err)
                       | Inr ke \<Rightarrow> Inr (s\<lparr>l_keyExpr := Some ke\<rparr>))
                  else if ls_keyExpr ls \<noteq> [] then
                    Inl (Errorf ''load: keyExpr is only valid with `as: map`'' [])
                  else Inr s)"

section \<open>Evaluating a step\<close>

definition load_item ::
  "pipe_env \<Rightarrow> loadStep \<Rightarrow> string \<Rightarrow> string \<Rightarrow> (string \<times> gval) list \<Rightarrow> (string \<times> gval) list res" where
  "load_item env s srcDir rel items =
     (case pe_ctx env (AtFile (l_name s) rel) of
        Some err \<Rightarrow> Inl err
      | None \<Rightarrow>
          (case readDecode env srcDir rel (l_format s) of
             Inl err \<Rightarrow> Inl err
           | Inr v \<Rightarrow> Inr (items @ [(rel, v)])))"

definition load_key ::
  "pipe_env \<Rightarrow> loadStep \<Rightarrow> Scope \<Rightarrow> string \<times> gval \<Rightarrow> gval gmap \<Rightarrow> gval gmap res" where
  "load_key env s scope it result =
     (case l_keyExpr s of
        None \<Rightarrow> Inl (Panicked ''nil pointer dereference'')
      | Some ke \<Rightarrow>
          (case keyExpr_eval env ke [(''path'', VStr (fst it))] scope of
             Inl err \<Rightarrow> Inl (Wrapf ''keyExpr for %q: %w'' [AStr (fst it)] err)
           | Inr key \<Rightarrow>
               if mget result key \<noteq> None then
                 Inl (Errorf ''keyExpr produced duplicate key %q (path %q)'' [AStr key, AStr (fst it)])
               else Inr (mput key (snd it) result)))"

definition loadStep_Eval :: "pipe_env \<Rightarrow> loadStep \<Rightarrow> Scope \<Rightarrow> gval res" where
  "loadStep_Eval env s scope =
     (case mget (Sources scope) (l_alias s) of
        None \<Rightarrow> Inl (Errorf ''source alias %q has no fetched artifact'' [AStr (l_alias s)])
      | Some srcDir \<Rightarrow>
          (case expandGlob env srcDir (l_pattern s) of
             Inl err \<Rightarrow> Inl err
           | Inr matches \<Rightarrow>
               if \<not> hasGlobMeta (l_pattern s) then
                 (case matches of
                    [m] \<Rightarrow> readDecode env srcDir m (l_format s)
                  | _ \<Rightarrow> Inl (Errorf ''expected exactly one file at %q, got %d''
                           [AStr (l_pattern s), AInt (int (length matches))]))
               else
                 (case loopE (load_item env s srcDir) matches [] of
                    Inl err \<Rightarrow> Inl err
                  | Inr items \<Rightarrow>
                      if l_asMap s then map_sum id VMap (loopE (load_key env s scope) items [])
                      else Inr (VList (map snd items)))))"

section \<open>Sample step\<close>

definition sample_load :: LoadStep where
  "sample_load = \<lparr>ls_from = ''@src/*.txt'', ls_format = ''text'', ls_as = [], ls_keyExpr = []\<rparr>"

definition sample_step :: loadStep where
  "sample_step = \<lparr>l_name = ''files'', l_alias = ''src'', l_pattern = ''*.txt'', l_format = ''text'', l_asMap = False,
     l_keyExpr = None\<rparr>"

definition sample_scope :: Scope where
  "sample_scope = \<lparr>Sources = [(''src'', ''/s'')], Values = [], Outputs = []\<rparr>"

section \<open>Reads are whole files within the limit\<close>

lemma maxLoadFileBytes_nonneg: "0 \<le> maxLoadFileBytes"
  by (simp add: maxLoadFileBytes_def)

lemma readDecode_inv:
  assumes "readDecode env srcDir rel format = Inr v"
  shows "\<exists>f info data. os_open (pe_os env) (path_join srcDir rel) = Inr f \<and>
    of_stat f = Inr info \<and> fi_regular info \<and> of_data f = Inr data \<and>
    int (length data) \<le> maxLoadFileBytes \<and> decode_format env rel format data = Inr v"
proof -
  from assms obtain f info data where r: "os_open (pe_os env) (path_join srcDir rel) = Inr f"
    "of_stat f = Inr info" "fi_regular info"
    "read_limited f (maxLoadFileBytes + 1) = Inr data" "int (length data) \<le> maxLoadFileBytes"
    "decode_format env rel format data = Inr v"
    by (auto simp: readDecode_def split: sum.splits if_splits)
  then have "of_data f = Inr data"
    using read_limited_whole maxLoadFileBytes_nonneg by blast
  with r show ?thesis by blast
qed

text \<open>
  C28. Bounded loading: a file that \<open>load\<close> decodes was a regular file, the bytes given to the decoder
  are the whole content of the file, and they are at most 10 MiB, even when the file grew after
  its size was taken. A longer file is an error, never a truncated value.
\<close>

theorem readDecode_bounded:
  assumes "readDecode env srcDir rel format = Inr v"
  shows "\<exists>f info data. os_open (pe_os env) (path_join srcDir rel) = Inr f \<and>
    of_stat f = Inr info \<and> fi_regular info \<and> of_data f = Inr data \<and>
    length data \<le> 10485760 \<and> decode_format env rel format data = Inr v"
  using readDecode_inv [OF assms] by (auto simp: maxLoadFileBytes_def)

theorem readDecode_bounded_witness:
  "\<exists>f info data. os_open (pe_os sample_pipe) (path_join ''/s'' ''a'') = Inr f \<and>
    of_stat f = Inr info \<and> fi_regular info \<and> of_data f = Inr data \<and>
    length data \<le> 10485760 \<and> decode_format sample_pipe ''a'' ''text'' data = Inr (VStr ''/s/a'')"
  by (rule readDecode_bounded) code_simp

lemma readDecode_wf: "env_ok env \<Longrightarrow> readDecode env srcDir rel format = Inr v \<Longrightarrow> wf_val v"
  using readDecode_inv [of env srcDir rel format v]
  by (auto simp: decode_format_def env_ok_def decoder_ok_def split: if_splits)

section \<open>Compiled steps\<close>

lemma no_dotdot_Inr: "no_dotdot segs = Inr () \<longleftrightarrow> dotdot \<notin> set segs"
  by (induction segs) (auto simp: dotdot_def)

lemma validateGlob_Inr: "validateGlob pattern = Inr () \<longleftrightarrow>
    pattern \<noteq> [] \<and> \<not> is_abs pattern \<and> dotdot \<notin> set (split_on slash pattern)"
  by (simp add: validateGlob_def no_dotdot_Inr)

text \<open>The invariant of a compiled load step.\<close>

definition loadStep_ok :: "bool gmap \<Rightarrow> loadStep \<Rightarrow> bool" where
  "loadStep_ok aliases s \<longleftrightarrow>
     mtrue aliases (l_alias s) \<and> validateGlob (l_pattern s) = Inr () \<and>
     l_format s \<in> {LoadFormatYAML, LoadFormatJSON, LoadFormatText, LoadFormatRaw} \<and>
     (l_asMap s \<longleftrightarrow> l_keyExpr s \<noteq> None)"

lemma compileLoad_ok:
  "compileLoad env name ls aliases = Inr s \<Longrightarrow> loadStep_ok aliases s \<and> l_name s = name"
  by (auto simp: compileLoad_def loadStep_ok_def Let_def
      split: option.splits if_splits sum.splits)

text \<open>
  What the compiler promises of a load step: its alias is declared, its pattern is relative
  and has no parent segment, its format is one of the four, and a key expression is present
  exactly when the result is a map.
\<close>

theorem compileLoad_promises:
  assumes "compileLoad env name ls aliases = Inr s"
  shows "l_name s = name \<and> mget aliases (l_alias s) = Some True \<and>
    ls_from ls = CHR ''@'' # l_alias s @ slash_char # l_pattern s \<and>
    \<not> is_abs (l_pattern s) \<and> dotdot \<notin> set (split_on slash (l_pattern s)) \<and>
    l_format s \<in> {''yaml'', ''json'', ''text'', ''raw''} \<and>
    (l_asMap s \<longleftrightarrow> ls_as ls = ''map'') \<and> (l_keyExpr s \<noteq> None \<longleftrightarrow> l_asMap s)"
proof -
  from assms obtain al pat where "splitSourceRef (ls_from ls) = Some (al, pat)"
    "l_alias s = al" "l_pattern s = pat" "l_asMap s \<longleftrightarrow> ls_as ls = ''map''"
    by (auto simp: compileLoad_def Let_def LoadAsList_def LoadAsMap_def
        split: option.splits if_splits sum.splits)
  then show ?thesis
    using compileLoad_ok [OF assms] pref.print_parse
    by (auto simp: loadStep_ok_def mtrue_def validateGlob_Inr api_consts)
qed

section \<open>Which files a load reads\<close>

text \<open>\<open>path_below dir p\<close>: the segments of \<open>p\<close> are those of \<open>dir\<close> followed by ordinary ones.\<close>

definition path_below :: "string \<Rightarrow> string \<Rightarrow> bool" where
  "path_below dir p \<longleftrightarrow> (\<exists>ds qs. dir = slash # join_with slash ds \<and> list_all plain_seg qs \<and>
     p = slash # join_with slash (ds @ qs))"

text \<open>
  The paths of an \<open>fs.FS\<close>, and so the matches of a glob over \<open>os.DirFS\<close>, are not empty and have no parent
  segment (\<open>fs.ValidPath\<close>).
\<close>

definition fs_path :: "string \<Rightarrow> bool" where
  "fs_path p \<longleftrightarrow> p \<noteq> [] \<and> dotdot \<notin> set (split_on slash p)"

definition glob_ok :: "os_env \<Rightarrow> bool" where
  "glob_ok os \<longleftrightarrow> (\<forall>dir pat ms. dirfs_glob os dir pat = Inr ms \<longrightarrow> list_all fs_path ms)"

text \<open>Two operating systems that agree on the tree at \<open>dir\<close>, seen as a file system and by absolute paths.\<close>

definition same_tree :: "string \<Rightarrow> os_env \<Rightarrow> os_env \<Rightarrow> bool" where
  "same_tree dir os os' \<longleftrightarrow> dirfs_stat os' dir = dirfs_stat os dir \<and> dirfs_glob os' dir = dirfs_glob os dir \<and>
     (\<forall>p. path_below dir p \<longrightarrow> os_open os' p = os_open os p)"

lemma load_key_os: "load_key (env\<lparr>pe_os := os'\<rparr>) s scope = load_key env s scope"
proof -
  have e: "keyExpr_eval (env\<lparr>pe_os := os'\<rparr>) = keyExpr_eval env"
    by (intro ext) (simp add: keyExpr_eval_def item_render_def)
  show ?thesis unfolding fun_eq_iff load_key_def e by simp
qed

lemma expandGlob_paths:
  assumes "expandGlob env dir pat = Inr ms" and "validateGlob pat = Inr ()" and "glob_ok (pe_os env)"
  shows "list_all fs_path ms"
proof (cases "hasGlobMeta pat")
  case True
  then obtain ms' where "dirfs_glob (pe_os env) dir pat = Inr ms'" "ms = sort ms'"
    using assms(1) by (auto simp: expandGlob_def split: sum.splits)
  then show ?thesis using assms(3) by (simp add: glob_ok_def list_all_iff)
next
  case False
  then have "ms = [pat]" using assms(1) by (auto simp: expandGlob_def split: sum.splits if_splits)
  then show ?thesis using assms(2) by (simp add: validateGlob_Inr fs_path_def)
qed

lemma readDecode_same_tree:
  assumes "same_tree dir (pe_os env) os'" and "is_abs dir" and "clean dir = dir" and "fs_path rel"
  shows "readDecode (env\<lparr>pe_os := os'\<rparr>) dir rel format = readDecode env dir rel format"
proof -
  have "path_below dir (path_join dir rel)"
    using path_join_below [OF assms(2,3)] assms(4) unfolding path_below_def fs_path_def by blast
  then have "os_open os' (path_join dir rel) = os_open (pe_os env) (path_join dir rel)"
    using assms(1) by (simp add: same_tree_def)
  moreover have "decode_format (env\<lparr>pe_os := os'\<rparr>) rel format = decode_format env rel format"
    by (simp add: fun_eq_iff decode_format_def)
  ultimately show ?thesis by (simp add: readDecode_def split: sum.split)
qed

text \<open>
  C30. A load reads its own source only. The evaluation of a compiled load step, of one file or of a glob,
  depends on nothing but the tree below the directory its alias was fetched into: under two operating
  systems that agree on that tree, \<open>Stat\<close> and \<open>Glob\<close> of its file system and \<open>Open\<close> of the absolute paths
  below it, the result is the same, errors included, whatever files they hold elsewhere. Where a symbolic
  link in the tree leads is up to the operating system.
\<close>

theorem load_reads_own_source:
  assumes "compileLoad env0 name ls aliases = Inr s"
    and "mget (Sources scope) (l_alias s) = Some dir" and "is_abs dir" and "clean dir = dir"
    and "glob_ok (pe_os env)" and "same_tree dir (pe_os env) os'"
  shows "loadStep_Eval (env\<lparr>pe_os := os'\<rparr>) s scope = loadStep_Eval env s scope"
proof -
  let ?env = "env\<lparr>pe_os := os'\<rparr>"
  have v: "validateGlob (l_pattern s) = Inr ()" using compileLoad_ok [OF assms(1)] by (simp add: loadStep_ok_def)
  have g: "expandGlob ?env dir (l_pattern s) = expandGlob env dir (l_pattern s)"
    using assms(6) by (simp add: expandGlob_def same_tree_def)
  note k = load_key_os [of os' env s scope]
  show ?thesis
  proof (cases "expandGlob env dir (l_pattern s)")
    case (Inl err)
    then show ?thesis by (simp add: loadStep_Eval_def assms(2) g)
  next
    case (Inr ms)
    have paths: "list_all fs_path ms" by (rule expandGlob_paths [OF Inr v assms(5)])
    have r: "readDecode ?env dir m f = readDecode env dir m f" if "m \<in> set ms" for m f
      using readDecode_same_tree [OF assms(6,3,4)] paths that by (simp add: list_all_iff)
    have "loopE (load_item ?env s dir) ms [] = loopE (load_item env s dir) ms []"
      by (rule loopE_cong) (simp add: load_item_def r split: option.split)
    moreover have "(case ms of [m] \<Rightarrow> readDecode ?env dir m f | _ \<Rightarrow> x) =
        (case ms of [m] \<Rightarrow> readDecode env dir m f | _ \<Rightarrow> x)" for f and x :: "gval res"
      using r by (auto split: list.split)
    ultimately show ?thesis by (simp add: loadStep_Eval_def assms(2) g Inr k split: sum.split)
  qed
qed

text \<open>A load of one file beside the glob, under an operating system with nothing outside \<open>/s\<close>.\<close>

definition sample_one :: LoadStep where
  "sample_one = \<lparr>ls_from = ''@src/a'', ls_format = ''text'', ls_as = [], ls_keyExpr = []\<rparr>"

definition sample_jail :: os_env where
  "sample_jail = sample_os\<lparr>os_open := \<lambda>p. if path_below ''/s'' p then os_open sample_os p else Inl (ExtErr ''nothing here'')\<rparr>"

theorem load_reads_own_source_witness:
  "loadStep_Eval (sample_pipe\<lparr>pe_os := sample_jail\<rparr>) sample_step sample_scope =
     Inr (VList [VStr ''/s/a'', VStr ''/s/b'']) \<and>
   loadStep_Eval (sample_pipe\<lparr>pe_os := sample_jail\<rparr>) (sample_step\<lparr>l_pattern := ''a''\<rparr>) sample_scope = Inr (VStr ''/s/a'')"
proof -
  have "fs_path ''a''" "fs_path ''b''" by (code_simp+)
  then have g: "glob_ok (pe_os sample_pipe)" by (simp add: glob_ok_def sample_pipe_def sample_os_def)
  have t: "same_tree ''/s'' (pe_os sample_pipe) sample_jail"
    by (simp add: same_tree_def sample_jail_def sample_pipe_def)
  have d: "is_abs ''/s''" "clean ''/s'' = ''/s''" by (code_simp+)
  have c: "compileLoad sample_pipe ''files'' sample_load [(''src'', True)] = Inr sample_step"
    "compileLoad sample_pipe ''files'' sample_one [(''src'', True)] = Inr (sample_step\<lparr>l_pattern := ''a''\<rparr>)" by (code_simp+)
  have a: "mget (Sources sample_scope) (l_alias sample_step) = Some ''/s''"
    "mget (Sources sample_scope) (l_alias (sample_step\<lparr>l_pattern := ''a''\<rparr>)) = Some ''/s''" by (code_simp+)
  have e: "loadStep_Eval sample_pipe sample_step sample_scope = Inr (VList [VStr ''/s/a'', VStr ''/s/b''])"
    "loadStep_Eval sample_pipe (sample_step\<lparr>l_pattern := ''a''\<rparr>) sample_scope = Inr (VStr ''/s/a'')" by (code_simp+)
  show ?thesis
    using load_reads_own_source [OF c(1) a(1) d g t] load_reads_own_source [OF c(2) a(2) d g t] e by simp
qed

section \<open>Shape of the result\<close>

lemma load_items:
  assumes "loopE (load_item env s srcDir) rels [] = Inr items"
  shows "map fst items = rels \<and>
    list_all2 (\<lambda>rel it. readDecode env srcDir rel (l_format s) = Inr (snd it)) rels items"
proof (rule loopE_prefix [OF assms, where I = "\<lambda>ys its. map fst its = ys \<and>
    list_all2 (\<lambda>rel it. readDecode env srcDir rel (l_format s) = Inr (snd it)) ys its"])
  fix ys y zs u v
  assume "map fst u = ys \<and> list_all2 (\<lambda>rel it. readDecode env srcDir rel (l_format s) = Inr (snd it)) ys u"
    and "load_item env s srcDir y u = Inr v"
  then show "map fst v = ys @ [y] \<and>
      list_all2 (\<lambda>rel it. readDecode env srcDir rel (l_format s) = Inr (snd it)) (ys @ [y]) v"
    by (auto simp: load_item_def list_all2_appendI split: option.splits sum.splits)
qed simp

text \<open>The key of an item, as a relation; the loop over the items gives every item a key of its own.\<close>

definition item_key :: "pipe_env \<Rightarrow> loadStep \<Rightarrow> Scope \<Rightarrow> string \<Rightarrow> string \<Rightarrow> bool" where
  "item_key env s scope rel k \<longleftrightarrow>
     (case l_keyExpr s of
        None \<Rightarrow> False
      | Some ke \<Rightarrow> keyExpr_eval env ke [(''path'', VStr rel)] scope = Inr k)"

lemma item_key_nonempty: "item_key env s scope rel k \<Longrightarrow> k \<noteq> []"
  by (auto simp: item_key_def dest: keyExpr_eval_nonempty split: option.splits)

lemma load_key_step: "load_key env s scope it u = Inr v \<Longrightarrow>
    \<exists>k. item_key env s scope (fst it) k \<and> mget u k = None \<and> v = mput k (snd it) u"
  by (auto simp: load_key_def item_key_def split: option.splits sum.splits if_splits)

lemma length_mput_new: "mget m k = None \<Longrightarrow> length (mput k v m) = Suc (length m)"
  by (induction m) (auto split: if_splits)

lemma load_keys:
  assumes "loopE (load_key env s scope) items [] = Inr m"
  shows "keys_ok m \<and> length m = length items \<and>
    (\<forall>it \<in> set items. \<exists>k. item_key env s scope (fst it) k \<and> mget m k = Some (snd it))"
proof (rule loopE_prefix [OF assms, where I = "\<lambda>its m. keys_ok m \<and> length m = length its \<and>
    (\<forall>it \<in> set its. \<exists>k. item_key env s scope (fst it) k \<and> mget m k = Some (snd it))"])
  fix ys y zs u v
  assume I: "keys_ok u \<and> length u = length ys \<and>
      (\<forall>it \<in> set ys. \<exists>k. item_key env s scope (fst it) k \<and> mget u k = Some (snd it))"
    and "load_key env s scope y u = Inr v"
  then obtain k where k: "item_key env s scope (fst y) k" "mget u k = None" "v = mput k (snd y) u"
    using load_key_step by blast
  have "\<exists>l. item_key env s scope (fst it) l \<and> mget v l = Some (snd it)" if it: "it \<in> set ys" for it
  proof -
    obtain l where "item_key env s scope (fst it) l" "mget u l = Some (snd it)" using I it by blast
    then show ?thesis using k(2,3) by (intro exI [of _ l]) (auto simp: mget_mput)
  qed
  moreover have "item_key env s scope (fst y) k \<and> mget v k = Some (snd y)"
    using k by (simp add: mget_mput)
  ultimately show "keys_ok v \<and> length v = length (ys @ [y]) \<and>
      (\<forall>it \<in> set (ys @ [y]). \<exists>k. item_key env s scope (fst it) k \<and> mget v k = Some (snd it))"
    using I k by (auto simp: keys_ok_mput length_mput_new)
qed simp

text \<open>
  C29. A glob load returns one entry per matched file and drops none. As a list the values stand
  in the sorted order of the paths; as a map every file has a key of its own, the trimmed and
  non-empty result of the key expression on its path.
\<close>

theorem load_glob_shape:
  assumes "loadStep_Eval env s scope = Inr v" and "hasGlobMeta (l_pattern s)"
    and "mget (Sources scope) (l_alias s) = Some dir"
    and "dirfs_glob (pe_os env) dir (l_pattern s) = Inr matches"
  shows "\<exists>vs. list_all2 (\<lambda>rel x. readDecode env dir rel (l_format s) = Inr x) (sort matches) vs \<and>
    (if l_asMap s then
       \<exists>m. v = VMap m \<and> keys_ok m \<and> length m = length matches \<and>
         (\<forall>(rel, x) \<in> set (zip (sort matches) vs).
            \<exists>k. item_key env s scope rel k \<and> k \<noteq> [] \<and> mget m k = Some x)
     else v = VList vs)"
proof -
  from assms obtain items where l: "loopE (load_item env s dir) (sort matches) [] = Inr items"
    and v: "if l_asMap s then map_sum id VMap (loopE (load_key env s scope) items []) = Inr v
            else v = VList (map snd items)"
    by (auto simp: loadStep_Eval_def expandGlob_def split: sum.splits if_splits)
  let ?vs = "map snd items"
  have items: "map fst items = sort matches"
    "list_all2 (\<lambda>rel it. readDecode env dir rel (l_format s) = Inr (snd it)) (sort matches) items"
    using load_items [OF l] by simp_all
  have zip: "zip (sort matches) ?vs = items" using items(1) by (metis zip_map_fst_snd)
  have len: "length items = length matches" using items(1) by (metis length_map length_sort)
  have "list_all2 (\<lambda>rel x. readDecode env dir rel (l_format s) = Inr x) (sort matches) ?vs"
    using items(2) by (simp add: list.rel_map)
  moreover have "v = VList ?vs" if "\<not> l_asMap s" using v that by simp
  moreover have "\<exists>m. v = VMap m \<and> keys_ok m \<and> length m = length matches \<and>
      (\<forall>(rel, x) \<in> set items. \<exists>k. item_key env s scope rel k \<and> k \<noteq> [] \<and> mget m k = Some x)"
    if m: "l_asMap s"
  proof -
    from v m obtain m where m': "loopE (load_key env s scope) items [] = Inr m" "v = VMap m"
      by (auto simp: map_sum_def split: sum.splits)
    with load_keys [OF m'(1)] len show ?thesis by (fastforce dest: item_key_nonempty)
  qed
  ultimately show ?thesis by (intro exI [of _ ?vs]) (simp add: zip)
qed

theorem load_glob_shape_witness:
  "\<exists>vs. list_all2 (\<lambda>rel x. readDecode sample_pipe ''/s'' rel ''text'' = Inr x) (sort [''b'', ''a'']) vs \<and>
    VList [VStr ''/s/a'', VStr ''/s/b''] = VList vs"
proof -
  have e: "loadStep_Eval sample_pipe sample_step sample_scope = Inr (VList [VStr ''/s/a'', VStr ''/s/b''])" by code_simp
  have g: "hasGlobMeta (l_pattern sample_step)" by code_simp
  have d: "mget (Sources sample_scope) (l_alias sample_step) = Some ''/s''" by code_simp
  show ?thesis
    using load_glob_shape [OF e g d, of "[''b'', ''a'']"]
    by (simp add: sample_pipe_def sample_os_def sample_step_def)
qed

text \<open>
  Determinism of a load: the order in which the glob library lists its matches does not
  change the result, errors included.
\<close>

theorem load_order_irrelevant:
  assumes "\<And>dir pat. case (dirfs_glob (pe_os env) dir pat, dirfs_glob os' dir pat) of
      (Inr ms, Inr ms') \<Rightarrow> mset ms = mset ms' | (Inl e, Inl e') \<Rightarrow> e = e' | _ \<Rightarrow> False"
    and "os_open os' = os_open (pe_os env)" and "dirfs_stat os' = dirfs_stat (pe_os env)"
  shows "loadStep_Eval (env\<lparr>pe_os := os'\<rparr>) s scope = loadStep_Eval env s scope"
proof -
  let ?env = "env\<lparr>pe_os := os'\<rparr>"
  have g: "expandGlob ?env dir pat = expandGlob env dir pat" for dir pat
  proof (cases "hasGlobMeta pat")
    case True
    show ?thesis
    proof (cases "dirfs_glob (pe_os env) dir pat")
      case (Inr ms)
      then obtain ms' where ms': "dirfs_glob os' dir pat = Inr ms'" "mset ms = mset ms'"
        using assms(1) [of dir pat] by (auto split: sum.splits)
      have "sort ms' = sort ms"
        using ms'(2) by (metis mset_sort properties_for_sort sorted_sort)
      then show ?thesis using True Inr ms'(1) by (simp add: expandGlob_def)
    next
      case (Inl e)
      then show ?thesis
        using True assms(1) [of dir pat] by (auto simp: expandGlob_def split: sum.splits)
    qed
  qed (simp add: expandGlob_def assms(3))
  have f: "decode_format ?env = decode_format env"
    by (intro ext) (simp add: decode_format_def)
  have d: "readDecode ?env = readDecode env"
    unfolding fun_eq_iff readDecode_def f by (simp add: assms(2))
  have i: "load_item ?env s = load_item env s"
    unfolding fun_eq_iff load_item_def d by simp
  note k = load_key_os [of os' env s scope]
  show ?thesis unfolding loadStep_Eval_def g d i k ..
qed

theorem load_order_irrelevant_witness:
  "loadStep_Eval (sample_pipe\<lparr>pe_os := sample_os\<lparr>dirfs_glob := \<lambda>_ _. Inr [''a'', ''b'']\<rparr>\<rparr>) sample_step sample_scope =
    loadStep_Eval sample_pipe sample_step sample_scope"
  by (rule load_order_irrelevant) (simp_all add: sample_pipe_def sample_os_def add_mset_commute)

lemma loadStep_Eval_wf:
  assumes "env_ok env" and "loadStep_Eval env s scope = Inr v"
  shows "wf_val v"
proof -
  have items: "list_all (\<lambda>it. wf_val (snd it)) items"
    if "loopE (load_item env s dir) rels [] = Inr items" for dir rels items
    using load_items [OF that] readDecode_wf [OF assms(1)] list_all2_right
    by (metis (mono_tags, lifting) list_all_iff)
  have keys: "wf_map m" if "loopE (load_key env s scope) its [] = Inr m"
    "list_all (\<lambda>it. wf_val (snd it)) its" for its m
    by (rule loopE_inv [OF that(1)])
      (use that(2) in \<open>auto dest!: load_key_step simp: wf_map_put list_all_iff\<close>)
  show ?thesis
    using assms(2) items keys readDecode_wf [OF assms(1)]
    by (fastforce simp: loadStep_Eval_def map_sum_def list_all_iff
        split: option.splits sum.splits if_splits list.splits)
qed

text \<open>A compiled load step never dereferences a missing key expression.\<close>

lemma load_key_no_panic:
  "l_keyExpr s \<noteq> None \<Longrightarrow> (\<And>n t d. pe_exec env n t d \<noteq> Inl (Panicked msg)) \<Longrightarrow>
   load_key env s scope it u \<noteq> Inl (Panicked msg)"
  by (auto simp: load_key_def split: option.splits sum.splits)

end
