(* ===== verification/Verbs.thy ===== *)
theory Verbs
  imports Load_Verb
begin

text \<open>
  The verbs that reshape outputs of earlier steps: \<open>filter\<close>, \<open>map\<close>, \<open>group\<close> and \<open>merge\<close>
  (\<open>internal/pipeline/filter.go\<close>, \<open>mapverb.go\<close>, \<open>group.go\<close>, \<open>merge.go\<close>). Each has its compiled form, its
  compiler, which checks that \<open>from\<close> names an earlier step, and its evaluation.
\<close>

text \<open>\<open>m[key]\<close> of a \<open>map[string]any\<close>: an absent key reads as \<open>nil\<close>.\<close>

definition mindex :: "gval gmap \<Rightarrow> string \<Rightarrow> gval" where
  "mindex m k = (case mget m k of None \<Rightarrow> VNil | Some v \<Rightarrow> v)"

lemma mindex_Some [simp]: "mget m k = Some v \<Longrightarrow> mindex m k = v"
  by (simp add: mindex_def)

section \<open>filter\<close>

record filterStep =
  f_name :: string
  f_from :: string
  f_where :: itemTemplate

definition compileFilter :: "pipe_env \<Rightarrow> string \<Rightarrow> FilterStep \<Rightarrow> bool gmap \<Rightarrow> filterStep res" where
  "compileFilter env name fs seen =
     (if \<not> mtrue seen (fs_from fs) then
        Inl (Errorf ''filter: from %q does not reference a prior step'' [AStr (fs_from fs)])
      else case newItemTemplate env ''where'' name (fs_where fs) of
          Inl err \<Rightarrow> Inl (Wrapf ''filter: where: %w'' [] err)
        | Inr tmpl \<Rightarrow> Inr \<lparr>f_name = name, f_from = fs_from fs, f_where = tmpl\<rparr>)"

definition truthyString :: "string \<Rightarrow> bool res" where
  "truthyString s =
     (let t = trim_space s in
      if t = [] then Inr False
      else case parse_bool t of
          None \<Rightarrow> Inl (Errorf ''where did not produce a boolean (got %q)'' [AStr t])
        | Some b \<Rightarrow> Inr b)"

definition evalPredicate :: "pipe_env \<Rightarrow> filterStep \<Rightarrow> gval gmap \<Rightarrow> Scope \<Rightarrow> bool res" where
  "evalPredicate env s bindings scope =
     (case item_render env (f_where s) (withOutputs bindings scope) of
        Inl err \<Rightarrow> Inl err
      | Inr raw \<Rightarrow> truthyString raw)"

definition filter_index ::
  "pipe_env \<Rightarrow> filterStep \<Rightarrow> Scope \<Rightarrow> nat \<times> gval \<Rightarrow> gval list \<Rightarrow> gval list res" where
  "filter_index env s scope ix out =
     (case ix of (i, item) \<Rightarrow>
        (case pe_ctx env (AtIndex (f_name s) i) of
           Some err \<Rightarrow> Inl err
         | None \<Rightarrow>
             (case evalPredicate env s (index_bindings i item) scope of
                Inl err \<Rightarrow> Inl (Wrapf ''where at index %d: %w'' [AInt (int i)] err)
              | Inr keep \<Rightarrow> Inr (if keep then out @ [item] else out))))"

definition filter_key ::
  "pipe_env \<Rightarrow> filterStep \<Rightarrow> Scope \<Rightarrow> gval gmap \<Rightarrow> string \<Rightarrow> gval gmap \<Rightarrow> gval gmap res" where
  "filter_key env s scope v key out =
     (case pe_ctx env (AtKey (f_name s) key) of
        Some err \<Rightarrow> Inl err
      | None \<Rightarrow>
          (case evalPredicate env s (key_bindings key (mindex v key)) scope of
             Inl err \<Rightarrow> Inl (Wrapf ''where for key %q: %w'' [AStr key] err)
           | Inr keep \<Rightarrow> Inr (if keep then mput key (mindex v key) out else out)))"

definition filterStep_Eval :: "pipe_env \<Rightarrow> filterStep \<Rightarrow> Scope \<Rightarrow> gval res" where
  "filterStep_Eval env s scope =
     (case mget (Outputs scope) (f_from s) of
        None \<Rightarrow> Inl (Errorf ''from %q is not defined'' [AStr (f_from s)])
      | Some (VList v) \<Rightarrow> map_sum id VList (loopE (filter_index env s scope) (enumerate 0 v) [])
      | Some (VMap v) \<Rightarrow> map_sum id VMap (loopE (filter_key env s scope v) (sortedKeys v) [])
      | Some src \<Rightarrow> Inl (Errorf ''from %q is not a list or map (got %T)''
                      [AStr (f_from s), AStr (go_type src)]))"

section \<open>map\<close>

record mapStep =
  m_name :: string
  m_from :: string
  m_expr :: itemTemplate

definition compileMap :: "pipe_env \<Rightarrow> string \<Rightarrow> MapStep \<Rightarrow> bool gmap \<Rightarrow> mapStep res" where
  "compileMap env name ms seen =
     (if \<not> mtrue seen (ms_from ms) then
        Inl (Errorf ''map: from %q does not reference a prior step'' [AStr (ms_from ms)])
      else case newItemTemplate env ''expr'' name (ms_expr ms) of
          Inl err \<Rightarrow> Inl (Wrapf ''map: expr: %w'' [] err)
        | Inr tmpl \<Rightarrow> Inr \<lparr>m_name = name, m_from = ms_from ms, m_expr = tmpl\<rparr>)"

definition renderItem :: "pipe_env \<Rightarrow> mapStep \<Rightarrow> gval gmap \<Rightarrow> Scope \<Rightarrow> gval res" where
  "renderItem env s bindings scope =
     (case item_render env (m_expr s) (withOutputs bindings scope) of
        Inl err \<Rightarrow> Inl err
      | Inr raw \<Rightarrow> wrap_err ''decode rendered expr as yaml: %w'' [] (pe_yaml env raw))"

text \<open>\<open>out := make([]any, len(v))\<close>, then \<open>out[i] = val\<close> in the loop.\<close>

definition map_index ::
  "pipe_env \<Rightarrow> mapStep \<Rightarrow> Scope \<Rightarrow> nat \<times> gval \<Rightarrow> gval list \<Rightarrow> gval list res" where
  "map_index env s scope ix out =
     (case ix of (i, item) \<Rightarrow>
        (case pe_ctx env (AtIndex (m_name s) i) of
           Some err \<Rightarrow> Inl err
         | None \<Rightarrow>
             (case renderItem env s (index_bindings i item) scope of
                Inl err \<Rightarrow> Inl (Wrapf ''expr at index %d: %w'' [AInt (int i)] err)
              | Inr val \<Rightarrow> Inr (out[i := val]))))"

definition map_key ::
  "pipe_env \<Rightarrow> mapStep \<Rightarrow> Scope \<Rightarrow> gval gmap \<Rightarrow> string \<Rightarrow> gval gmap \<Rightarrow> gval gmap res" where
  "map_key env s scope v key out =
     (case pe_ctx env (AtKey (m_name s) key) of
        Some err \<Rightarrow> Inl err
      | None \<Rightarrow>
          (case renderItem env s (key_bindings key (mindex v key)) scope of
             Inl err \<Rightarrow> Inl (Wrapf ''expr for key %q: %w'' [AStr key] err)
           | Inr val \<Rightarrow> Inr (mput key val out)))"

definition mapStep_Eval :: "pipe_env \<Rightarrow> mapStep \<Rightarrow> Scope \<Rightarrow> gval res" where
  "mapStep_Eval env s scope =
     (case mget (Outputs scope) (m_from s) of
        None \<Rightarrow> Inl (Errorf ''from %q is not defined'' [AStr (m_from s)])
      | Some (VList v) \<Rightarrow>
          map_sum id VList (loopE (map_index env s scope) (enumerate 0 v) (replicate (length v) VNil))
      | Some (VMap v) \<Rightarrow> map_sum id VMap (loopE (map_key env s scope v) (sortedKeys v) [])
      | Some src \<Rightarrow> Inl (Errorf ''from %q is not a list or map (got %T)''
                      [AStr (m_from s), AStr (go_type src)]))"

section \<open>group\<close>

record groupStep =
  g_name :: string
  g_from :: string
  g_keyExpr :: itemTemplate

definition compileGroup :: "pipe_env \<Rightarrow> string \<Rightarrow> GroupStep \<Rightarrow> bool gmap \<Rightarrow> groupStep res" where
  "compileGroup env name gs seen =
     (if \<not> mtrue seen (gs_from gs) then
        Inl (Errorf ''group: from %q does not reference a prior step'' [AStr (gs_from gs)])
      else case newKeyExprEvaluator env name (gs_keyExpr gs) of
          Inl err \<Rightarrow> Inl (Wrapf ''group: keyExpr: %w'' [] err)
        | Inr ke \<Rightarrow> Inr \<lparr>g_name = name, g_from = gs_from gs, g_keyExpr = ke\<rparr>)"

text \<open>\<open>bucket, _ := result[key].([]any)\<close>: anything but a list gives the nil slice.\<close>

definition bucket :: "gval gmap \<Rightarrow> string \<Rightarrow> gval list" where
  "bucket result key = (case mget result key of Some (VList b) \<Rightarrow> b | _ \<Rightarrow> [])"

definition group_index ::
  "pipe_env \<Rightarrow> groupStep \<Rightarrow> Scope \<Rightarrow> nat \<times> gval \<Rightarrow> gval gmap \<Rightarrow> gval gmap res" where
  "group_index env s scope ix result =
     (case ix of (i, item) \<Rightarrow>
        (case pe_ctx env (AtIndex (g_name s) i) of
           Some err \<Rightarrow> Inl err
         | None \<Rightarrow>
             (case keyExpr_eval env (g_keyExpr s) (index_bindings i item) scope of
                Inl err \<Rightarrow> Inl (Wrapf ''keyExpr at index %d: %w'' [AInt (int i)] err)
              | Inr key \<Rightarrow> Inr (mput key (VList (bucket result key @ [item])) result))))"

definition groupStep_Eval :: "pipe_env \<Rightarrow> groupStep \<Rightarrow> Scope \<Rightarrow> gval res" where
  "groupStep_Eval env s scope =
     (case listInput (Outputs scope) (g_from s) of
        Inl err \<Rightarrow> Inl err
      | Inr list \<Rightarrow> map_sum id VMap (loopE (group_index env s scope) (enumerate 0 list) []))"

section \<open>merge\<close>

record mergeStep =
  mg_step_name :: string
  mg_step_from :: "string list"

fun check_merge_from :: "bool gmap \<Rightarrow> string list \<Rightarrow> bool gmap \<Rightarrow> unit res" where
  "check_merge_from seen [] dedup = Inr ()"
| "check_merge_from seen (name # names) dedup =
     (if \<not> mtrue seen name then
        Inl (Errorf ''merge: from %q does not reference a prior step'' [AStr name])
      else if mtrue dedup name then
        Inl (Errorf ''merge: from %q appears more than once'' [AStr name])
      else check_merge_from seen names (mput name True dedup))"

definition compileMerge :: "string \<Rightarrow> MergeStep \<Rightarrow> bool gmap \<Rightarrow> mergeStep res" where
  "compileMerge name ms seen =
     (case check_merge_from seen (mgs_from ms) [] of
        Inl err \<Rightarrow> Inl err
      | Inr _ \<Rightarrow> Inr \<lparr>mg_step_name = name, mg_step_from = mgs_from ms\<rparr>)"

definition merge_source ::
  "pipe_env \<Rightarrow> mergeStep \<Rightarrow> Scope \<Rightarrow> string \<Rightarrow> gval \<Rightarrow> gval res" where
  "merge_source env s scope name acc =
     (case pe_ctx env (AtSource (mg_step_name s) name) of
        Some err \<Rightarrow> Inl err
      | None \<Rightarrow>
          (case mget (Outputs scope) name of
             None \<Rightarrow> Inl (Errorf ''from %q is not defined'' [AStr name])
           | Some val \<Rightarrow>
               if \<not> is_VMap val then
                 Inl (Errorf ''from %q is not a map (got %T)'' [AStr name, AStr (go_type val)])
               else Inr (pipeline_deepMerge acc val)))"

definition mergeStep_Eval :: "pipe_env \<Rightarrow> mergeStep \<Rightarrow> Scope \<Rightarrow> gval res" where
  "mergeStep_Eval env s scope = loopE (merge_source env s scope) (mg_step_from s) (VMap [])"

section \<open>What the verbs compute\<close>

text \<open>The loops over a map visit every key once; the result holds what the visited keys stored.\<close>

lemma sortedKeys_set: "set (sortedKeys m) = set (mkeys m)" "distinct (sortedKeys m) \<longleftrightarrow> distinct (mkeys m)"
  by (simp_all add: sortedKeys_def)

lemma enumerate_snoc: "enumerate n (xs @ [x]) = enumerate n xs @ [(n + length xs, x)]"
  by (simp add: enumerate_append_eq)

lemma filter_index_step:
  "filter_index env s scope (i, x) out = Inr out' \<longleftrightarrow>
     pe_ctx env (AtIndex (f_name s) i) = None \<and>
     (\<exists>keep. evalPredicate env s (index_bindings i x) scope = Inr keep \<and>
        out' = (if keep then out @ [x] else out))"
  by (auto simp: filter_index_def split: option.splits sum.splits)

lemma filter_key_step:
  "filter_key env s scope m k out = Inr out' \<longleftrightarrow>
     pe_ctx env (AtKey (f_name s) k) = None \<and>
     (\<exists>keep. evalPredicate env s (key_bindings k (mindex m k)) scope = Inr keep \<and>
        out' = (if keep then mput k (mindex m k) out else out))"
  by (auto simp: filter_key_def split: option.splits sum.splits)

text \<open>
  \<open>filter\<close> on a list keeps exactly the items whose predicate is true, in their order and
  unchanged, and it returns only if every predicate evaluated to a boolean.
\<close>

theorem filter_list_spec:
  assumes "filterStep_Eval env s scope = Inr v" and "mget (Outputs scope) (f_from s) = Some (VList xs)"
  shows "v = VList (map snd (filter (\<lambda>(i, x).
        evalPredicate env s (index_bindings i x) scope = Inr True) (enumerate 0 xs))) \<and>
    (\<forall>(i, x) \<in> set (enumerate 0 xs). is_ok (evalPredicate env s (index_bindings i x) scope))"
proof -
  let ?p = "\<lambda>(i, x). evalPredicate env s (index_bindings i x) scope = Inr True"
  let ?q = "\<lambda>(i, x). is_ok (evalPredicate env s (index_bindings i x) scope)"
  from assms obtain out where l: "loopE (filter_index env s scope) (enumerate 0 xs) [] = Inr out"
    and v: "v = VList out"
    by (auto simp: filterStep_Eval_def map_sum_def split: sum.splits)
  have "out = map snd (filter ?p (enumerate 0 xs)) \<and> (\<forall>ix \<in> set (enumerate 0 xs). ?q ix)"
    by (rule loopE_prefix [OF l, where I = "\<lambda>ys out. out = map snd (filter ?p ys) \<and> (\<forall>ix \<in> set ys. ?q ix)"])
      (auto simp: filter_index_step)
  with v show ?thesis by auto
qed

text \<open>
  \<open>filter\<close> on a map keeps exactly the entries whose predicate is true, under their keys.
\<close>

theorem filter_map_spec:
  assumes "filterStep_Eval env s scope = Inr v" and "mget (Outputs scope) (f_from s) = Some (VMap m)"
    and "keys_ok m"
  shows "\<exists>out. v = VMap out \<and> keys_ok out \<and>
    (\<forall>k. mget out k = (case mget m k of None \<Rightarrow> None
       | Some x \<Rightarrow> if evalPredicate env s (key_bindings k x) scope = Inr True then Some x else None))"
proof -
  let ?p = "\<lambda>k. evalPredicate env s (key_bindings k (mindex m k)) scope = Inr True"
  from assms obtain out where l: "loopE (filter_key env s scope m) (sortedKeys m) [] = Inr out"
    and v: "v = VMap out"
    by (auto simp: filterStep_Eval_def map_sum_def split: sum.splits)
  have I: "keys_ok out \<and> (\<forall>k. mget out k =
      (if k \<in> set (sortedKeys m) \<and> ?p k then Some (mindex m k) else None))"
    by (rule loopE_prefix [OF l, where I = "\<lambda>ks out. keys_ok out \<and>
        (\<forall>k. mget out k = (if k \<in> set ks \<and> ?p k then Some (mindex m k) else None))"])
      (auto simp: filter_key_step keys_ok_mput mget_mput)
  have "mget out k = (case mget m k of None \<Rightarrow> None
      | Some x \<Rightarrow> if evalPredicate env s (key_bindings k x) scope = Inr True then Some x else None)" for k
    using I mget_None_iff [of m k] by (cases "mget m k") (simp_all add: sortedKeys_set)
  then show ?thesis using v I by blast
qed

lemma map_index_step:
  "map_index env s scope (i, x) out = Inr out' \<longleftrightarrow>
     pe_ctx env (AtIndex (m_name s) i) = None \<and>
     (\<exists>w. renderItem env s (index_bindings i x) scope = Inr w \<and> out' = out[i := w])"
  by (auto simp: map_index_def split: option.splits sum.splits)

lemma map_key_step:
  "map_key env s scope m k out = Inr out' \<longleftrightarrow>
     pe_ctx env (AtKey (m_name s) k) = None \<and>
     (\<exists>w. renderItem env s (key_bindings k (mindex m k)) scope = Inr w \<and> out' = mput k w out)"
  by (auto simp: map_key_def split: option.splits sum.splits)

text \<open>
  \<open>map\<close> on a list gives a list of the same length whose item at every index is the decoded
  rendering of the item there: every slot of the preallocated slice is written once, none is
  left \<open>nil\<close> by the loop.
\<close>

theorem map_list_spec:
  assumes "mapStep_Eval env s scope = Inr v" and "mget (Outputs scope) (m_from s) = Some (VList xs)"
  shows "\<exists>out. v = VList out \<and> length out = length xs \<and>
    (\<forall>i < length xs. renderItem env s (index_bindings i (xs ! i)) scope = Inr (out ! i))"
proof -
  from assms obtain out where
    l: "loopE (map_index env s scope) (enumerate 0 xs) (replicate (length xs) VNil) = Inr out"
    and v: "v = VList out"
    by (auto simp: mapStep_Eval_def map_sum_def split: sum.splits)
  have "length out = length xs \<and> (\<forall>i < length (enumerate 0 xs).
      renderItem env s (index_bindings i (xs ! i)) scope = Inr (out ! i))"
  proof (rule loopE_prefix [OF l, where I = "\<lambda>ys out. length out = length xs \<and> (\<forall>i < length ys.
      renderItem env s (index_bindings i (xs ! i)) scope = Inr (out ! i))"])
    fix ys y zs u w
    assume e: "enumerate 0 xs = ys @ y # zs"
      and I: "length u = length xs \<and>
        (\<forall>i < length ys. renderItem env s (index_bindings i (xs ! i)) scope = Inr (u ! i))"
      and step: "map_index env s scope y u = Inr w"
    obtain i x where y: "y = (i, x)" by (cases y)
    with e have i: "i = length ys" "i < length xs" "x = xs ! i"
      using enumerate_split [of 0 xs ys i x zs] by auto
    from step y i obtain val where "renderItem env s (index_bindings i (xs ! i)) scope = Inr val"
      "w = u[i := val]" by (auto simp: map_index_step)
    with I i show "length w = length xs \<and>
        (\<forall>i < length (ys @ [y]). renderItem env s (index_bindings i (xs ! i)) scope = Inr (w ! i))"
      by (auto simp: less_Suc_eq nth_list_update)
  qed simp
  with v show ?thesis by simp
qed

text \<open>
  \<open>map\<close> on a map gives a map with the same keys, each holding the decoded rendering of its
  entry.
\<close>

theorem map_map_spec:
  assumes "mapStep_Eval env s scope = Inr v" and "mget (Outputs scope) (m_from s) = Some (VMap m)"
    and "keys_ok m"
  shows "\<exists>out. v = VMap out \<and> keys_ok out \<and> mkeys out = mkeys m \<and>
    (\<forall>k x. mget m k = Some x \<longrightarrow>
       (\<exists>w. renderItem env s (key_bindings k x) scope = Inr w \<and> mget out k = Some w))"
proof -
  let ?r = "\<lambda>k w. renderItem env s (key_bindings k (mindex m k)) scope = Inr w"
  from assms obtain out where l: "loopE (map_key env s scope m) (sortedKeys m) [] = Inr out"
    and v: "v = VMap out"
    by (auto simp: mapStep_Eval_def map_sum_def split: sum.splits)
  have I: "keys_ok out \<and> set (mkeys out) = set (sortedKeys m) \<and>
      (\<forall>k \<in> set (sortedKeys m). \<exists>w. ?r k w \<and> mget out k = Some w)"
    by (rule loopE_prefix [OF l, where I = "\<lambda>ks out. keys_ok out \<and> set (mkeys out) = set ks \<and>
        (\<forall>k \<in> set ks. \<exists>w. ?r k w \<and> mget out k = Some w)"])
      (auto simp: map_key_step keys_ok_mput mget_mput set_mkeys_mput)
  then have "mkeys out = mkeys m"
    using assms(3) sorted_distinct_set_unique [of "mkeys out" "mkeys m"]
    by (simp add: sortedKeys_set(1) keys_ok_sorted keys_ok_distinct [folded mkeys_def])
  moreover have "\<exists>w. renderItem env s (key_bindings k x) scope = Inr w \<and> mget out k = Some w"
    if "mget m k = Some x" for k x
  proof -
    have "k \<in> set (sortedKeys m)"
      using that mget_None_iff [of m k] by (simp add: sortedKeys_set)
    with I that show ?thesis by auto
  qed
  ultimately show ?thesis using v I by blast
qed

lemma group_index_step:
  "group_index env s scope (i, x) res = Inr res' \<longleftrightarrow>
     pe_ctx env (AtIndex (g_name s) i) = None \<and>
     (\<exists>key. keyExpr_eval env (g_keyExpr s) (index_bindings i x) scope = Inr key \<and>
        res' = mput key (VList (bucket res key @ [x])) res)"
  by (auto simp: group_index_def split: option.splits sum.splits)

text \<open>The items of a list with a given key, in input order.\<close>

definition items_with_key ::
  "pipe_env \<Rightarrow> groupStep \<Rightarrow> Scope \<Rightarrow> (nat \<times> gval) list \<Rightarrow> string \<Rightarrow> gval list" where
  "items_with_key env s scope ixs k = map snd (filter (\<lambda>(i, x).
     keyExpr_eval env (g_keyExpr s) (index_bindings i x) scope = Inr k) ixs)"

lemma items_with_key_snoc:
  "items_with_key env s scope (ixs @ [(i, x)]) k = items_with_key env s scope ixs k @
     (if keyExpr_eval env (g_keyExpr s) (index_bindings i x) scope = Inr k then [x] else [])"
  by (simp add: items_with_key_def)

text \<open>
  C31. \<open>group\<close> partitions its list: under every key stands the list of the items with that key, in
  input order; there is no key without items, every item has a non-empty key, and no item is
  lost or repeated.
\<close>

theorem group_spec:
  assumes "groupStep_Eval env s scope = Inr v" and "mget (Outputs scope) (g_from s) = Some (VList xs)"
  shows "\<exists>m. v = VMap m \<and> keys_ok m \<and>
    (\<forall>k. mget m k =
       (let b = items_with_key env s scope (enumerate 0 xs) k in if b = [] then None else Some (VList b))) \<and>
    (\<forall>(i, x) \<in> set (enumerate 0 xs). \<exists>k. k \<noteq> [] \<and>
       keyExpr_eval env (g_keyExpr s) (index_bindings i x) scope = Inr k)"
proof -
  let ?it = "items_with_key env s scope"
  let ?key = "\<lambda>(i, x). \<exists>k. keyExpr_eval env (g_keyExpr s) (index_bindings i x) scope = Inr k"
  from assms obtain m where l: "loopE (group_index env s scope) (enumerate 0 xs) [] = Inr m"
    and v: "v = VMap m"
    by (auto simp: groupStep_Eval_def listInput_def map_sum_def split: sum.splits)
  have "keys_ok m \<and> (\<forall>k. mget m k = (if ?it (enumerate 0 xs) k = [] then None
      else Some (VList (?it (enumerate 0 xs) k)))) \<and> (\<forall>ix \<in> set (enumerate 0 xs). ?key ix)"
  proof (rule loopE_prefix [OF l, where I = "\<lambda>ys m. keys_ok m \<and>
      (\<forall>k. mget m k = (if ?it ys k = [] then None else Some (VList (?it ys k)))) \<and> (\<forall>ix \<in> set ys. ?key ix)"])
    fix ys y zs u w
    assume I: "keys_ok u \<and> (\<forall>k. mget u k = (if ?it ys k = [] then None else Some (VList (?it ys k)))) \<and>
        (\<forall>ix \<in> set ys. ?key ix)"
      and step: "group_index env s scope y u = Inr w"
    obtain i x where y: "y = (i, x)" by (cases y)
    with step obtain key where key: "keyExpr_eval env (g_keyExpr s) (index_bindings i x) scope = Inr key"
      "w = mput key (VList (bucket u key @ [x])) u" by (auto simp: group_index_step)
    have "bucket u key = ?it ys key" using I by (simp add: bucket_def)
    with I key y show "keys_ok w \<and>
        (\<forall>k. mget w k = (if ?it (ys @ [y]) k = [] then None else Some (VList (?it (ys @ [y]) k)))) \<and>
        (\<forall>ix \<in> set (ys @ [y]). ?key ix)"
      by (auto simp: keys_ok_mput mget_mput items_with_key_snoc)
  qed (simp add: items_with_key_def)
  with v show ?thesis by (fastforce simp: Let_def dest: keyExpr_eval_nonempty)
qed

theorem group_spec_witness:
  "\<exists>m. VMap [(''a'', VList [VStr ''a'', VStr ''a'']), (''b'', VList [VStr ''b''])] = VMap m \<and> keys_ok m \<and>
    (\<forall>k. mget m k =
       (let b = items_with_key sample_pipe \<lparr>g_name = ''g'', g_from = ''xs'', g_keyExpr = \<lparr>it_name = ''k'', it_text = ''value''\<rparr>\<rparr>
          \<lparr>Sources = [], Values = [], Outputs = [(''xs'', VList [VStr ''a'', VStr ''b'', VStr ''a''])]\<rparr>
          (enumerate 0 [VStr ''a'', VStr ''b'', VStr ''a'']) k in if b = [] then None else Some (VList b)))"
proof -
  let ?s = "\<lparr>g_name = ''g'', g_from = ''xs'', g_keyExpr = \<lparr>it_name = ''k'', it_text = ''value''\<rparr>\<rparr>"
  let ?xs = "[VStr ''a'', VStr ''b'', VStr ''a'']"
  let ?sc = "\<lparr>Sources = [], Values = [], Outputs = [(''xs'', VList ?xs)]\<rparr>"
  have e: "groupStep_Eval sample_pipe ?s ?sc =
      Inr (VMap [(''a'', VList [VStr ''a'', VStr ''a'']), (''b'', VList [VStr ''b''])])" by code_simp
  have "mget (Outputs ?sc) (g_from ?s) = Some (VList ?xs)" by simp
  from group_spec [OF e this] show ?thesis by blast
qed

lemma merge_source_step:
  "merge_source env s scope name acc = Inr acc' \<longleftrightarrow>
     pe_ctx env (AtSource (mg_step_name s) name) = None \<and>
     (\<exists>m. mget (Outputs scope) name = Some (VMap m) \<and> acc' = pipeline_deepMerge acc (VMap m))"
  by (auto simp: merge_source_def is_VMap_iff split: option.splits if_splits)

lemma merge_fold:
  assumes "loopE (merge_source env s scope) names acc = Inr v"
  shows "\<exists>ms. list_all2 (\<lambda>name m. mget (Outputs scope) name = Some (VMap m)) names ms \<and>
    v = fold (\<lambda>b acc. pipeline_deepMerge acc b) (map VMap ms) acc"
  using assms
proof (induction names arbitrary: acc)
  case Nil
  then show ?case by simp
next
  case (Cons name names)
  from Cons.prems obtain a where a: "merge_source env s scope name acc = Inr a"
    "loopE (merge_source env s scope) names a = Inr v" by (auto split: sum.splits)
  then obtain m where "mget (Outputs scope) name = Some (VMap m)" "a = pipeline_deepMerge acc (VMap m)"
    by (auto simp: merge_source_step)
  with Cons.IH [OF a(2)] obtain ms where
    "list_all2 (\<lambda>name m. mget (Outputs scope) name = Some (VMap m)) (name # names) (m # ms)"
    "v = fold (\<lambda>b acc. pipeline_deepMerge acc b) (map VMap (m # ms)) acc" by auto
  then show ?case by blast
qed

text \<open>
  C32. \<open>merge\<close> stacks the named outputs, the last one on top: the result is a map, and at every
  path the last output with something there decides, as the values resolver does with its layers.
\<close>

theorem merge_spec:
  assumes "mergeStep_Eval env s scope = Inr v" and "scope_ok scope"
  shows "\<exists>ms. list_all2 (\<lambda>name m. mget (Outputs scope) name = Some (VMap m)) (mg_step_from s) ms \<and>
    is_VMap v \<and> wf_val v \<and> (\<forall>p. at_path v p = layer_lookup (rev (map VMap ms)) p)"
proof -
  from merge_fold [of env s scope] assms(1) obtain ms where
    ms: "list_all2 (\<lambda>name m. mget (Outputs scope) name = Some (VMap m)) (mg_step_from s) ms"
      "v = fold (\<lambda>b acc. pipeline_deepMerge acc b) (map VMap ms) (VMap [])"
    unfolding mergeStep_Eval_def by blast
  have "wf_map m" if "m \<in> set ms" for m
    using list_all2_right [OF ms(1) that] assms(2) wf_map_get by (fastforce simp: scope_ok_def)
  then have wf: "list_all wf_val (map VMap ms)"
    "list_all (\<lambda>b. wf_val b \<and> is_VMap b) (map VMap ms)" by (simp_all add: list_all_iff)
  show ?thesis
    using ms pipe.at_path_fold_merge [OF wf(1)] pipe.fold_merge_wf [OF _ wf(1), of "VMap []"]
      pipe.fold_merge_is_VMap [OF _ _ wf(2), of "VMap []"]
    by (intro exI [of _ ms]) simp
qed

theorem merge_spec_witness:
  "at_path (VMap [(''a'', VInt 1), (''b'', VInt 2)]) [''b''] = Leaf (VInt 2) \<and>
   (\<exists>ms. list_all2 (\<lambda>name m. mget [(''x'', VMap [(''a'', VInt 1)]), (''y'', VMap [(''b'', VInt 2)])] name = Some (VMap m))
      [''x'', ''y''] ms \<and>
      (\<forall>p. at_path (VMap [(''a'', VInt 1), (''b'', VInt 2)]) p = layer_lookup (rev (map VMap ms)) p))"
proof -
  let ?s = "\<lparr>mg_step_name = ''m'', mg_step_from = [''x'', ''y'']\<rparr>"
  let ?sc = "\<lparr>Sources = [], Values = [], Outputs = [(''x'', VMap [(''a'', VInt 1)]), (''y'', VMap [(''b'', VInt 2)])]\<rparr>"
  have e: "mergeStep_Eval sample_pipe ?s ?sc = Inr (VMap [(''a'', VInt 1), (''b'', VInt 2)])" by code_simp
  have w: "scope_ok ?sc" by (simp add: scope_ok_def wf_map_def)
  from merge_spec [OF e w] show ?thesis by auto
qed

end
