(* ===== verification/Pipeline.thy ===== *)
theory Pipeline
  imports Verbs
begin

text \<open>
  The pipeline (\<open>internal/pipeline/pipeline.go\<close>): a spec is compiled into steps, and the evaluator
  runs the steps in order, each over the outputs of the earlier ones. The \<open>Step\<close> interface is the
  locale \<open>step_runner\<close>; the five compiled verbs are its interpretation.
\<close>

datatype Step =
    SLoad loadStep
  | SFilter filterStep
  | SMap mapStep
  | SGroup groupStep
  | SMerge mergeStep

fun Step_Name :: "Step \<Rightarrow> string" where
  "Step_Name (SLoad s) = l_name s"
| "Step_Name (SFilter s) = f_name s"
| "Step_Name (SMap s) = m_name s"
| "Step_Name (SGroup s) = g_name s"
| "Step_Name (SMerge s) = mg_step_name s"

fun Step_Eval :: "pipe_env \<Rightarrow> Step \<Rightarrow> Scope \<Rightarrow> gval res" where
  "Step_Eval env (SLoad s) scope = loadStep_Eval env s scope"
| "Step_Eval env (SFilter s) scope = filterStep_Eval env s scope"
| "Step_Eval env (SMap s) scope = mapStep_Eval env s scope"
| "Step_Eval env (SGroup s) scope = groupStep_Eval env s scope"
| "Step_Eval env (SMerge s) scope = mergeStep_Eval env s scope"

section \<open>Compile\<close>

definition compileStep :: "pipe_env \<Rightarrow> PipelineStep \<Rightarrow> bool gmap \<Rightarrow> bool gmap \<Rightarrow> Step res" where
  "compileStep env ps aliases seen =
     (case ps_load ps of
        Some ls \<Rightarrow> map_sum id SLoad (compileLoad env (ps_name ps) ls aliases)
      | None \<Rightarrow>
     (case ps_filter ps of
        Some fs \<Rightarrow> map_sum id SFilter (compileFilter env (ps_name ps) fs seen)
      | None \<Rightarrow>
     (case ps_map ps of
        Some ms \<Rightarrow> map_sum id SMap (compileMap env (ps_name ps) ms seen)
      | None \<Rightarrow>
     (case ps_group ps of
        Some gs \<Rightarrow> map_sum id SGroup (compileGroup env (ps_name ps) gs seen)
      | None \<Rightarrow>
     (case ps_merge ps of
        Some ms \<Rightarrow> map_sum id SMerge (compileMerge (ps_name ps) ms seen)
      | None \<Rightarrow> Inl (Errorf ''no verb set'' []))))))"

definition compile_one ::
  "pipe_env \<Rightarrow> bool gmap \<Rightarrow> PipelineStep \<Rightarrow> bool gmap \<times> Step list \<Rightarrow> (bool gmap \<times> Step list) res" where
  "compile_one env aliases ps st =
     (case st of (seen, steps) \<Rightarrow>
        if mtrue seen (ps_name ps) then
          Inl (Errorf ''step %q: duplicate step name'' [AStr (ps_name ps)])
        else if ps_name ps = ValuesKey then
          Inl (Errorf ''step %q: name is reserved (shadows the .values tree)'' [AStr (ps_name ps)])
        else case compileStep env ps aliases seen of
            Inl err \<Rightarrow> Inl (Wrapf ''step %q: %w'' [AStr (ps_name ps)] err)
          | Inr s \<Rightarrow> Inr (mput (ps_name ps) True seen, steps @ [s]))"

definition Compile :: "pipe_env \<Rightarrow> PipelineStep list \<Rightarrow> bool gmap \<Rightarrow> Step list res" where
  "Compile env spec aliases = map_sum id snd (loopE (compile_one env aliases) spec ([], []))"

section \<open>Run\<close>

text \<open>One round of \<open>Run\<close>, over any implementation of the \<open>Step\<close> interface.\<close>

definition run_step ::
  "ctx \<Rightarrow> ('step \<Rightarrow> string) \<Rightarrow> ('step \<Rightarrow> Scope \<Rightarrow> gval res) \<Rightarrow> 'step \<Rightarrow> Scope \<Rightarrow> Scope res" where
  "run_step cx Name Eval step scope =
     (case cx (AtStep (Name step)) of
        Some err \<Rightarrow> Inl err
      | None \<Rightarrow>
          (case Eval step scope of
             Inl err \<Rightarrow> Inl (Wrapf ''step %q: %w'' [AStr (Name step)] err)
           | Inr val \<Rightarrow> Inr (scope\<lparr>Outputs := mput (Name step) val (Outputs scope)\<rparr>)))"

definition Run ::
  "pipe_env \<Rightarrow> Step list \<Rightarrow> string gmap \<Rightarrow> gval gmap \<Rightarrow> gval gmap res" where
  "Run env steps sources values =
     map_sum id Outputs
       (loopE (run_step (pe_ctx env) Step_Name (Step_Eval env)) steps
          \<lparr>Sources = sources, Values = values, Outputs = []\<rparr>)"

section \<open>Sample pipeline\<close>

text \<open>Load the files of the source \<open>src\<close>, keep all of them.\<close>

definition sample_pspec :: "PipelineStep list" where
  "sample_pspec =
     [\<lparr>ps_name = ''files'', ps_load = Some sample_load, ps_filter = None, ps_map = None, ps_group = None, ps_merge = None\<rparr>,
      \<lparr>ps_name = ''keep'', ps_load = None, ps_filter = Some \<lparr>fs_from = ''files'', fs_where = ''true''\<rparr>, ps_map = None,
       ps_group = None, ps_merge = None\<rparr>]"

definition sample_steps :: "Step list" where
  "sample_steps = [SLoad sample_step,
     SFilter \<lparr>f_name = ''keep'', f_from = ''files'', f_where = \<lparr>it_name = ''where[keep]'', it_text = ''true''\<rparr>\<rparr>]"

definition sample_outs :: "gval gmap" where
  "sample_outs = [(''files'', VList [VStr ''/s/a'', VStr ''/s/b'']), (''keep'', VList [VStr ''/s/a'', VStr ''/s/b''])]"

lemma sample_compiles: "Compile sample_pipe sample_pspec [(''src'', True)] = Inr sample_steps"
  by code_simp

lemma sample_runs: "Run sample_pipe sample_steps [(''src'', ''/s'')] [] = Inr sample_outs"
  by code_simp

section \<open>The Step interface\<close>

text \<open>The outputs of the steps with the given names.\<close>

definition restrict_outputs :: "string set \<Rightarrow> gval gmap \<Rightarrow> gval gmap" where
  "restrict_outputs names m = filter (\<lambda>kv. fst kv \<in> names) m"

lemma keys_ok_filter: "keys_ok m \<Longrightarrow> keys_ok (filter P m)"
  by (induction m) (auto simp: mkeys_def)

lemma mget_restrict: "mget (restrict_outputs names m) k = (if k \<in> names then mget m k else None)"
  by (induction m) (auto simp: restrict_outputs_def)

lemma restrict_outputs_id: "set (mkeys m) \<subseteq> names \<Longrightarrow> restrict_outputs names m = m"
  unfolding restrict_outputs_def by (rule filter_True_id) (auto simp: mkeys_def)

lemma restrict_outputs_put:
  assumes "keys_ok m" and "k \<notin> names"
  shows "restrict_outputs names (mput k v m) = restrict_outputs names m"
proof (rule keys_ok_ext)
  show "keys_ok (restrict_outputs names (mput k v m))" "keys_ok (restrict_outputs names m)"
    using assms(1) by (simp_all add: restrict_outputs_def keys_ok_filter keys_ok_mput)
  show "mget (restrict_outputs names (mput k v m)) l = mget (restrict_outputs names m) l" for l
    using assms(2) by (auto simp: mget_restrict mget_mput)
qed

locale step_runner =
  fixes Name :: "'step \<Rightarrow> string"
    and Eval :: "'env \<Rightarrow> 'step \<Rightarrow> Scope \<Rightarrow> gval res"
    and cx :: "'env \<Rightarrow> ctx"
    and good :: "'env \<Rightarrow> bool"
  assumes Eval_wf: "good env \<Longrightarrow> scope_ok scope \<Longrightarrow> Eval env st scope = Inr v \<Longrightarrow> wf_val v"
begin

lemma run_step_Inr:
  "run_step (cx env) Name (Eval env) st sc = Inr sc' \<longleftrightarrow>
     cx env (AtStep (Name st)) = None \<and>
     (\<exists>v. Eval env st sc = Inr v \<and> sc' = sc\<lparr>Outputs := mput (Name st) v (Outputs sc)\<rparr>)"
  by (auto simp: run_step_def split: option.splits sum.splits)

lemma run_frame:
  assumes "loopE (run_step (cx env) Name (Eval env)) steps sc = Inr sc'"
  shows "Sources sc' = Sources sc \<and> Values sc' = Values sc"
  by (rule loopE_inv [OF assms, where I = "\<lambda>s. Sources s = Sources sc \<and> Values s = Values sc"])
    (auto simp: run_step_Inr)

lemma run_keys:
  assumes "loopE (run_step (cx env) Name (Eval env)) steps sc = Inr sc'" and "keys_ok (Outputs sc)"
  shows "keys_ok (Outputs sc') \<and> set (mkeys (Outputs sc')) = set (mkeys (Outputs sc)) \<union> Name ` set steps"
  by (rule loopE_prefix [OF assms(1), where I = "\<lambda>ys s. keys_ok (Outputs s) \<and>
      set (mkeys (Outputs s)) = set (mkeys (Outputs sc)) \<union> Name ` set ys"])
    (use assms(2) in \<open>auto simp: run_step_Inr keys_ok_mput set_mkeys_mput\<close>)

lemma run_scope_ok:
  assumes "loopE (run_step (cx env) Name (Eval env)) steps sc = Inr sc'"
    and "good env" and "scope_ok sc"
  shows "scope_ok sc'"
  by (rule loopE_inv [OF assms(1), where I = scope_ok, OF assms(3)])
    (auto simp: run_step_Inr scope_ok_def intro!: wf_map_put
      intro: Eval_wf [OF assms(2), unfolded scope_ok_def])

text \<open>
  Every output is its step evaluated on the outputs of the earlier steps, and no later step
  changes it: the scope a step saw is the final one restricted to the earlier names.
\<close>

lemma run_outputs:
  assumes "loopE (run_step (cx env) Name (Eval env)) steps sc = Inr sc'"
    and "Outputs sc = []" and "distinct (map Name steps)" and "i < length steps"
  shows "\<exists>v. Eval env (steps ! i)
      (sc\<lparr>Outputs := restrict_outputs (set (map Name (take i steps))) (Outputs sc')\<rparr>) = Inr v \<and>
    mget (Outputs sc') (Name (steps ! i)) = Some v"
  using assms
proof (induction steps arbitrary: sc' rule: rev_induct)
  case Nil
  then show ?case by simp
next
  case (snoc st steps)
  from snoc.prems(1) obtain u where u: "loopE (run_step (cx env) Name (Eval env)) steps sc = Inr u"
    and step: "run_step (cx env) Name (Eval env) st u = Inr sc'"
    by (auto simp: loopE_snoc split: sum.splits)
  from step obtain v where v: "Eval env st u = Inr v"
    "sc' = u\<lparr>Outputs := mput (Name st) v (Outputs u)\<rparr>" by (auto simp: run_step_Inr)
  have k: "keys_ok (Outputs u)" "set (mkeys (Outputs u)) = Name ` set steps"
    using run_keys [OF u] snoc.prems(2) by simp_all
  have usc: "u = sc\<lparr>Outputs := Outputs u\<rparr>" using run_frame [OF u] by simp
  have new: "Name st \<notin> Name ` set steps" using snoc.prems(3) by auto
  have r: "restrict_outputs N (Outputs sc') = restrict_outputs N (Outputs u)"
    if "N \<subseteq> Name ` set steps" for N
  proof -
    have "Name st \<notin> N" using that new by blast
    then show ?thesis using restrict_outputs_put [OF k(1)] v(2) by simp
  qed
  show ?case
  proof (cases "i < length steps")
    case True
    have "set (map Name (take i steps)) \<subseteq> Name ` set steps"
      using set_take_subset [of i steps] by auto
    moreover have "Name (steps ! i) \<noteq> Name st" using True new by (metis image_eqI nth_mem)
    ultimately show ?thesis
      using snoc.IH [OF u snoc.prems(2)] snoc.prems(3) True r v(2)
      by (simp add: nth_append mget_mput)
  next
    case False
    then have i: "i = length steps" using snoc.prems(4) by simp
    have "restrict_outputs (Name ` set steps) (Outputs sc') = Outputs u"
      using r k(2) restrict_outputs_id by simp
    then show ?thesis using i v usc by (simp add: mget_mput)
  qed
qed

text \<open>A run stops at the first step that is cancelled or fails.\<close>

lemma run_error:
  assumes "loopE (run_step (cx env) Name (Eval env)) steps sc = Inl e"
  shows "\<exists>i u. i < length steps \<and>
    loopE (run_step (cx env) Name (Eval env)) (take i steps) sc = Inr u \<and>
    (cx env (AtStep (Name (steps ! i))) = Some e \<or>
     (\<exists>e'. Eval env (steps ! i) u = Inl e' \<and>
        e = Wrapf ''step %q: %w'' [AStr (Name (steps ! i))] e'))"
proof -
  from loopE_fail [OF assms] obtain ys y zs u where s: "steps = ys @ y # zs"
    "loopE (run_step (cx env) Name (Eval env)) ys sc = Inr u"
    "run_step (cx env) Name (Eval env) y u = Inl e" by metis
  then show ?thesis
    by (intro exI [of _ "length ys"] exI [of _ u])
      (auto simp: run_step_def split: option.splits sum.splits)
qed

end

section \<open>The verbs implement the interface\<close>

lemma wf_list_output: "scope_ok scope \<Longrightarrow> mget (Outputs scope) k = Some (VList xs) \<Longrightarrow> x \<in> set xs \<Longrightarrow> wf_val x"
  using wf_map_get [of "Outputs scope" k "VList xs"] by (simp add: scope_ok_def)

lemma wf_map_output: "scope_ok scope \<Longrightarrow> mget (Outputs scope) k = Some (VMap m) \<Longrightarrow> wf_map m"
  using wf_map_get [of "Outputs scope" k "VMap m"] by (simp add: scope_ok_def)

lemma set_enumerate_snd: "(i, x) \<in> set (enumerate n xs) \<Longrightarrow> x \<in> set xs"
  by (metis in_set_impl_in_set_zip2 in_set_zipE enumerate_eq_zip)

lemma mindex_wf: "wf_map m \<Longrightarrow> wf_val (mindex m k)"
  using wf_map_get [of m k] by (cases "mget m k") (auto simp: mindex_def)

lemma filterStep_Eval_wf:
  assumes "scope_ok scope" and "filterStep_Eval env s scope = Inr v"
  shows "wf_val v"
proof -
  have l: "list_all wf_val out"
    if "mget (Outputs scope) (f_from s) = Some (VList xs)"
      "loopE (filter_index env s scope) (enumerate 0 xs) [] = Inr out" for xs out
    by (rule loopE_inv [OF that(2)])
      (use wf_list_output [OF assms(1) that(1)] in \<open>auto simp: filter_index_step dest!: set_enumerate_snd\<close>)
  have m: "wf_map out"
    if "mget (Outputs scope) (f_from s) = Some (VMap m)"
      "loopE (filter_key env s scope m) ks [] = Inr out" for m ks out
    by (rule loopE_inv [OF that(2)])
      (use wf_map_output [OF assms(1) that(1)] in \<open>auto simp: filter_key_step wf_map_put mindex_wf\<close>)
  show ?thesis
    using assms(2) l m
    by (fastforce simp: filterStep_Eval_def map_sum_def list_all_iff
        split: option.splits gval.splits sum.splits)
qed

lemma renderItem_wf: "env_ok env \<Longrightarrow> renderItem env s b scope = Inr v \<Longrightarrow> wf_val v"
  by (auto simp: renderItem_def env_ok_def decoder_ok_def split: sum.splits)

lemma mapStep_Eval_wf:
  assumes "env_ok env" and "mapStep_Eval env s scope = Inr v"
  shows "wf_val v"
proof -
  have l: "list_all wf_val out"
    if "loopE (map_index env s scope) ixs (replicate n VNil) = Inr out" for ixs n out
    by (rule loopE_inv [OF that])
      (auto simp: map_index_step list_all_iff renderItem_wf [OF assms(1)]
        dest!: subsetD [OF set_update_subset_insert])
  have m: "wf_map out" if "loopE (map_key env s scope m) ks [] = Inr out" for m ks out
    by (rule loopE_inv [OF that]) (auto simp: map_key_step wf_map_put renderItem_wf [OF assms(1)])
  show ?thesis
    using assms(2) l m
    by (fastforce simp: mapStep_Eval_def map_sum_def list_all_iff
        split: option.splits gval.splits sum.splits)
qed

lemma bucket_wf: "wf_map m \<Longrightarrow> x \<in> set (bucket m k) \<Longrightarrow> wf_val x"
proof -
  assume m: "wf_map m" and x: "x \<in> set (bucket m k)"
  then obtain b where "mget m k = Some (VList b)" "x \<in> set b"
    by (cases "mget m k") (auto simp: bucket_def split: gval.splits)
  then show "wf_val x" using wf_map_get [OF m] by fastforce
qed

lemma groupStep_Eval_wf:
  assumes "scope_ok scope" and "groupStep_Eval env s scope = Inr v"
  shows "wf_val v"
proof -
  from assms(2) obtain xs m where xs: "mget (Outputs scope) (g_from s) = Some (VList xs)"
    and l: "loopE (group_index env s scope) (enumerate 0 xs) [] = Inr m" and v: "v = VMap m"
    by (auto simp: groupStep_Eval_def listInput_def map_sum_def
        split: option.splits gval.splits sum.splits)
  have item: "wf_map (mput key (VList (bucket u key @ [x])) u)"
    if "wf_map u" "(i, x) \<in> set (enumerate 0 xs)" for u key i x
  proof -
    have "wf_val x" using that(2) wf_list_output [OF assms(1) xs] set_enumerate_snd by metis
    then show ?thesis using that(1) bucket_wf [OF that(1)] by (auto intro!: wf_map_put)
  qed
  have "wf_map m" by (rule loopE_inv [OF l]) (auto simp: group_index_step item)
  with v show ?thesis by simp
qed

lemma mergeStep_Eval_wf:
  assumes "scope_ok scope" and "mergeStep_Eval env s scope = Inr v"
  shows "wf_val v"
  unfolding mergeStep_Eval_def
  by (rule loopE_inv [OF assms(2) [unfolded mergeStep_Eval_def]])
    (auto simp: merge_source_step intro!: pipe.merge_wf dest: wf_map_output [OF assms(1)])

lemma Step_Eval_wf:
  assumes "env_ok env" and "scope_ok scope" and "Step_Eval env st scope = Inr v"
  shows "wf_val v"
  using assms
  by (cases st)
    (auto intro: loadStep_Eval_wf filterStep_Eval_wf mapStep_Eval_wf groupStep_Eval_wf mergeStep_Eval_wf)

interpretation verbs: step_runner Step_Name Step_Eval pe_ctx env_ok
  by unfold_locales (rule Step_Eval_wf)

section \<open>What the compiler accepts\<close>

text \<open>The earlier steps a compiled step reads directly.\<close>

fun Step_from :: "Step \<Rightarrow> string list" where
  "Step_from (SLoad s) = []"
| "Step_from (SFilter s) = [f_from s]"
| "Step_from (SMap s) = [m_from s]"
| "Step_from (SGroup s) = [g_from s]"
| "Step_from (SMerge s) = mg_step_from s"

fun Step_aliases :: "Step \<Rightarrow> string list" where
  "Step_aliases (SLoad s) = [l_alias s]"
| "Step_aliases _ = []"

lemma check_merge_from_Inr:
  "check_merge_from seen names dedup = Inr () \<Longrightarrow>
   (\<forall>n \<in> set names. mtrue seen n \<and> \<not> mtrue dedup n) \<and> distinct names"
proof (induction names arbitrary: dedup)
  case Nil
  then show ?case by simp
next
  case (Cons n names)
  then have "mtrue seen n" "\<not> mtrue dedup n" "check_merge_from seen names (mput n True dedup) = Inr ()"
    by (auto split: if_splits)
  with Cons.IH [of "mput n True dedup"] show ?case by (auto simp: mtrue_def mget_mput split: if_splits)
qed

lemma compileStep_ok:
  assumes "compileStep env ps aliases seen = Inr s"
  shows "Step_Name s = ps_name ps \<and> (\<forall>f \<in> set (Step_from s). mtrue seen f) \<and>
    distinct (Step_from s) \<and> (\<forall>a \<in> set (Step_aliases s). mtrue aliases a)"
proof -
  have "loadStep_ok aliases l \<and> l_name l = ps_name ps"
    if "compileLoad env (ps_name ps) ls aliases = Inr l" for ls l
    using compileLoad_ok [OF that] .
  then show ?thesis
    using assms
    by (auto simp: compileStep_def map_sum_def compileFilter_def compileMap_def compileGroup_def
        compileMerge_def loadStep_ok_def dest: check_merge_from_Inr
        split: option.splits sum.splits if_splits)
qed

lemma compile_one_Inr:
  "compile_one env aliases ps (seen, steps) = Inr (seen', steps') \<longleftrightarrow>
     \<not> mtrue seen (ps_name ps) \<and> ps_name ps \<noteq> ValuesKey \<and>
     (\<exists>s. compileStep env ps aliases seen = Inr s \<and> seen' = mput (ps_name ps) True seen \<and>
        steps' = steps @ [s])"
  by (auto simp: compile_one_def split: sum.splits if_splits)

text \<open>The invariant of the compiled steps: what the steps before a step provide is what it reads.\<close>

definition steps_ok :: "bool gmap \<Rightarrow> Step list \<Rightarrow> bool" where
  "steps_ok aliases steps \<longleftrightarrow>
     distinct (map Step_Name steps) \<and> ValuesKey \<notin> set (map Step_Name steps) \<and>
     (\<forall>i < length steps. set (Step_from (steps ! i)) \<subseteq> set (map Step_Name (take i steps)) \<and>
        distinct (Step_from (steps ! i)) \<and> (\<forall>a \<in> set (Step_aliases (steps ! i)). mtrue aliases a))"

lemma steps_ok_snoc:
  assumes "steps_ok aliases steps" and "Step_Name s \<notin> set (map Step_Name steps)"
    and "Step_Name s \<noteq> ValuesKey" and "set (Step_from s) \<subseteq> set (map Step_Name steps)"
    and "distinct (Step_from s)" and "\<forall>a \<in> set (Step_aliases s). mtrue aliases a"
  shows "steps_ok aliases (steps @ [s])"
  unfolding steps_ok_def
proof (intro conjI allI impI ballI)
  fix i
  assume "i < length (steps @ [s])"
  then consider "i < length steps" | "i = length steps" by fastforce
  then have *: "set (Step_from ((steps @ [s]) ! i)) \<subseteq> set (map Step_Name (take i (steps @ [s]))) \<and>
      distinct (Step_from ((steps @ [s]) ! i)) \<and>
      (\<forall>a \<in> set (Step_aliases ((steps @ [s]) ! i)). mtrue aliases a)"
    using assms by cases (simp_all add: steps_ok_def nth_append)
  show "set (Step_from ((steps @ [s]) ! i)) \<subseteq> set (map Step_Name (take i (steps @ [s])))"
    using * by blast
  show "distinct (Step_from ((steps @ [s]) ! i))" using * by blast
  show "\<And>a. a \<in> set (Step_aliases ((steps @ [s]) ! i)) \<Longrightarrow> mtrue aliases a" using * by blast
qed (use assms in \<open>auto simp: steps_ok_def\<close>)

lemma compile_loop:
  assumes "loopE (compile_one env aliases) spec ([], []) = Inr st"
  shows "map Step_Name (snd st) = map ps_name spec \<and> steps_ok aliases (snd st) \<and>
    (\<forall>k. mtrue (fst st) k \<longleftrightarrow> k \<in> set (map ps_name spec))"
proof (rule loopE_prefix [OF assms, where I = "\<lambda>(ys :: PipelineStep list) st. map Step_Name (snd st) = map ps_name ys \<and>
    steps_ok aliases (snd st) \<and> (\<forall>k. mtrue (fst st) k \<longleftrightarrow> k \<in> set (map ps_name ys))"])
  fix ys zs :: "PipelineStep list" and y u v
  assume I: "map Step_Name (snd u) = map ps_name ys \<and> steps_ok aliases (snd u) \<and>
      (\<forall>k. mtrue (fst u) k \<longleftrightarrow> k \<in> set (map ps_name ys))"
    and step: "compile_one env aliases y u = Inr v"
  obtain seen steps seen' steps' where uv: "u = (seen, steps)" "v = (seen', steps')"
    by (cases u; cases v)
  with step obtain s where s: "\<not> mtrue seen (ps_name y)" "ps_name y \<noteq> ValuesKey"
    "compileStep env y aliases seen = Inr s" "seen' = mput (ps_name y) True seen" "steps' = steps @ [s]"
    by (auto simp: compile_one_Inr)
  have "steps_ok aliases (steps @ [s])"
    using I uv s compileStep_ok [OF s(3)] by (intro steps_ok_snoc) auto
  then show "map Step_Name (snd v) = map ps_name (ys @ [y]) \<and> steps_ok aliases (snd v) \<and>
      (\<forall>k. mtrue (fst v) k \<longleftrightarrow> k \<in> set (map ps_name (ys @ [y])))"
    using I uv s compileStep_ok [OF s(3)] by (auto simp: mtrue_def mget_mput)
qed (simp add: steps_ok_def mtrue_def)

lemma Compile_ok:
  "Compile env spec aliases = Inr steps \<Longrightarrow>
   map Step_Name steps = map ps_name spec \<and> steps_ok aliases steps"
  using compile_loop [of env aliases spec] by (auto simp: Compile_def map_sum_def split: sum.splits)

text \<open>
  C17. What \<open>Compile\<close> accepts: one step per entry of the spec, in order and under its name; the names
  are distinct and none is \<open>values\<close>; every step reads earlier steps only, none twice, and every load
  step reads a declared alias.
\<close>

theorem Compile_sound:
  assumes "Compile env spec aliases = Inr steps" and "i < length spec"
  shows "map Step_Name steps = map ps_name spec \<and> distinct (map ps_name spec) \<and>
    ps_name (spec ! i) \<noteq> ''values'' \<and> Step_Name (steps ! i) = ps_name (spec ! i) \<and>
    set (Step_from (steps ! i)) \<subseteq> set (map ps_name (take i spec)) \<and> distinct (Step_from (steps ! i)) \<and>
    (\<forall>a \<in> set (Step_aliases (steps ! i)). mget aliases a = Some True)"
proof -
  have c: "map Step_Name steps = map ps_name spec" "steps_ok aliases steps"
    using Compile_ok [OF assms(1)] by simp_all
  have len: "length steps = length spec" using c(1) by (metis length_map)
  have tk: "map Step_Name (take i steps) = map ps_name (take i spec)" using c(1) by (metis take_map)
  have nm: "Step_Name (steps ! i) = ps_name (spec ! i)" using c(1) assms(2) len by (metis nth_map)
  have "ps_name (spec ! i) \<in> set (map ps_name spec)" using assms(2) by simp
  moreover have "set (Step_from (steps ! i)) \<subseteq> set (map ps_name (take i spec))"
    "distinct (Step_from (steps ! i))" "\<forall>a \<in> set (Step_aliases (steps ! i)). mtrue aliases a"
    using c(2) assms(2) len unfolding tk [symmetric] by (simp_all add: steps_ok_def)
  ultimately show ?thesis using c nm by (auto simp: steps_ok_def ValuesKey_def mtrue_def)
qed

theorem Compile_sound_witness:
  "set (Step_from (sample_steps ! 1)) \<subseteq> set (map ps_name (take 1 sample_pspec)) \<and>
   ps_name (sample_pspec ! 1) \<noteq> ''values''"
  using Compile_sound [OF sample_compiles, of 1] by (simp add: sample_pspec_def)

text \<open>
  Spec order matters: a filter over a step that is listed later, or not at all, is refused,
  whatever the data dependencies are.
\<close>

theorem Compile_rejects_forward_reference:
  assumes "spec = before @ ps # after" and "ps_load ps = None" and "ps_filter ps = Some fs"
    and "fs_from fs \<notin> set (map ps_name before)"
  shows "\<not> is_ok (Compile env spec aliases)"
proof
  assume "is_ok (Compile env spec aliases)"
  then obtain st where "loopE (compile_one env aliases) (before @ ps # after) ([], []) = Inr st"
    using assms(1) by (auto simp: Compile_def is_ok_iff map_sum_def split: sum.splits)
  then obtain u v where u: "loopE (compile_one env aliases) before ([], []) = Inr u"
    and v: "compile_one env aliases ps u = Inr v"
    by (auto simp: loopE_append split: sum.splits)
  have "\<not> mtrue (fst u) (fs_from fs)" using compile_loop [OF u] assms(4) by simp
  then have "compileStep env ps aliases (fst u) =
      Inl (Errorf ''filter: from %q does not reference a prior step'' [AStr (fs_from fs)])"
    using assms(2,3) by (simp add: compileStep_def compileFilter_def)
  with v show False by (cases u; cases v) (simp add: compile_one_Inr)
qed

section \<open>Running a compiled pipeline\<close>

text \<open>
  C16. The result of a run: exactly one output per step. Each is its step evaluated in the scope of
  the sources, the values and the outputs of the steps before it; no later step changes it.
\<close>

theorem Run_outputs:
  assumes "Compile env spec aliases = Inr steps" and "Run env steps sources vals = Inr outs"
    and "i < length steps"
  shows "set (mkeys outs) = set (map ps_name spec) \<and> mget outs ValuesKey = None \<and>
    (\<exists>v. mget outs (Step_Name (steps ! i)) = Some v \<and>
       Step_Eval env (steps ! i)
         \<lparr>Sources = sources, Values = vals,
          Outputs = restrict_outputs (set (map Step_Name (take i steps))) outs\<rparr> = Inr v)"
proof -
  let ?sc = "\<lparr>Sources = sources, Values = vals, Outputs = []\<rparr>"
  from assms(2) obtain sc' where sc': "outs = Outputs sc'"
    "loopE (run_step (pe_ctx env) Step_Name (Step_Eval env)) steps ?sc = Inr sc'"
    by (auto simp: Run_def map_sum_def split: sum.splits)
  have c: "map Step_Name steps = map ps_name spec" "steps_ok aliases steps"
    using Compile_ok [OF assms(1)] by simp_all
  have k: "set (mkeys outs) = set (map Step_Name steps)"
    using verbs.run_keys [OF sc'(2)] sc'(1) by simp
  have "mget outs ValuesKey = None" using k c(2) by (simp add: mget_None_iff steps_ok_def)
  moreover have "distinct (map Step_Name steps)" using c(2) by (simp add: steps_ok_def)
  ultimately show ?thesis
    using verbs.run_outputs [OF sc'(2) _ _ assms(3)] k c(1) sc'(1) by auto
qed

theorem Run_outputs_witness:
  "\<exists>v. mget sample_outs (Step_Name (sample_steps ! 1)) = Some v \<and>
     Step_Eval sample_pipe (sample_steps ! 1)
       \<lparr>Sources = [(''src'', ''/s'')], Values = [],
        Outputs = restrict_outputs (set (map Step_Name (take 1 sample_steps))) sample_outs\<rparr> = Inr v"
  using Run_outputs [OF sample_compiles sample_runs, of 1] by (simp add: sample_steps_def)

text \<open>Every output of a run is a well-formed tree when the values are.\<close>

lemma Run_wf:
  assumes "env_ok env" and "wf_map vals" and "Run env steps sources vals = Inr outs"
  shows "wf_map outs"
proof -
  from assms(3) obtain sc' where "outs = Outputs sc'"
    "loopE (run_step (pe_ctx env) Step_Name (Step_Eval env)) steps
       \<lparr>Sources = sources, Values = vals, Outputs = []\<rparr> = Inr sc'"
    by (auto simp: Run_def map_sum_def split: sum.splits)
  then show ?thesis using verbs.run_scope_ok [of env steps _ sc'] assms(1,2) by (auto simp: scope_ok_def)
qed

section \<open>The shapes of outputs\<close>

text \<open>
  What is known of an output without running anything: nothing, that it is a list or a map, a list, a
  map, or a map of non-empty lists, as \<open>group\<close> builds it.
\<close>

datatype shape = AnyValue | Collection | ListShape | MapShape | GroupShape

definition nonempty_list :: "gval \<Rightarrow> bool" where
  "nonempty_list v = (case v of VList (x # xs) \<Rightarrow> True | _ \<Rightarrow> False)"

fun has_shape :: "shape \<Rightarrow> gval \<Rightarrow> bool" where
  "has_shape AnyValue v = True"
| "has_shape Collection v = (is_VList v \<or> is_VMap v)"
| "has_shape ListShape v = is_VList v"
| "has_shape MapShape v = is_VMap v"
| "has_shape GroupShape v = (case v of VMap m \<Rightarrow> list_all (\<lambda>e. nonempty_list (snd e)) m | _ \<Rightarrow> False)"

text \<open>The shape of a step's output from those of the outputs it reads, and the steps that cannot succeed.\<close>

fun step_shape :: "(string \<Rightarrow> shape) \<Rightarrow> Step \<Rightarrow> shape" where
  "step_shape sh (SLoad s) =
     (if \<not> hasGlobMeta (l_pattern s) then AnyValue else if l_asMap s then MapShape else ListShape)"
| "step_shape sh (SFilter s) = (case sh (f_from s) of AnyValue \<Rightarrow> Collection | t \<Rightarrow> t)"
| "step_shape sh (SMap s) =
     (case sh (m_from s) of AnyValue \<Rightarrow> Collection | Collection \<Rightarrow> Collection | ListShape \<Rightarrow> ListShape | _ \<Rightarrow> MapShape)"
| "step_shape sh (SGroup s) = GroupShape"
| "step_shape sh (SMerge s) = MapShape"

fun step_fits :: "(string \<Rightarrow> shape) \<Rightarrow> Step \<Rightarrow> bool" where
  "step_fits sh (SGroup s) = (sh (g_from s) \<notin> {MapShape, GroupShape})"
| "step_fits sh (SMerge s) = list_all (\<lambda>f. sh f \<noteq> ListShape) (mg_step_from s)"
| "step_fits sh _ = True"

fun infer_shapes :: "(string \<Rightarrow> shape) \<Rightarrow> Step list \<Rightarrow> (string \<Rightarrow> shape) option" where
  "infer_shapes sh [] = Some sh"
| "infer_shapes sh (st # steps) =
     (if step_fits sh st then infer_shapes (sh(Step_Name st := step_shape sh st)) steps else None)"

lemma infer_shapes_snoc:
  "infer_shapes sh (steps @ [st]) =
     (case infer_shapes sh steps of None \<Rightarrow> None | Some sh' \<Rightarrow> infer_shapes sh' [st])"
  by (induction steps arbitrary: sh) auto

definition shaped :: "(string \<Rightarrow> shape) \<Rightarrow> gval gmap \<Rightarrow> bool" where
  "shaped sh outs \<longleftrightarrow> (\<forall>k v. mget outs k = Some v \<longrightarrow> has_shape (sh k) v)"

lemma list_all_mput: "P (k, v) \<Longrightarrow> list_all P m \<Longrightarrow> list_all P (mput k v m)"
  by (induction m) auto

lemma bucket_nonempty: "nonempty_list (VList (bucket m k @ [x]))"
  by (cases "bucket m k") (simp_all add: nonempty_list_def)

lemma filter_shape:
  assumes "filterStep_Eval env s scope = Inr v" and "shaped sh (Outputs scope)"
  shows "has_shape (step_shape sh (SFilter s)) v"
proof -
  let ?P = "\<lambda>e :: string \<times> gval. nonempty_list (snd e)"
  have grp: "list_all ?P out" if "list_all ?P m" "loopE (filter_key env s scope m) (sortedKeys m) [] = Inr out" for m out
  proof (rule loopE_inv [OF that(2)])
    fix k u w
    assume k: "k \<in> set (sortedKeys m)" "list_all ?P u" "filter_key env s scope m k u = Inr w"
    then obtain x where "mget m k = Some x" using mget_None_iff [of m k] by (auto simp: sortedKeys_set)
    then have "nonempty_list (mindex m k)" using mget_Some_mem that(1) by (fastforce simp: list_all_iff)
    then have "list_all ?P (mput k (mindex m k) u)" using k(2) by (intro list_all_mput) simp_all
    then show "list_all ?P w" using k(2,3) by (auto simp: filter_key_step)
  qed simp
  from assms obtain x where x: "mget (Outputs scope) (f_from s) = Some x" "has_shape (sh (f_from s)) x"
    by (auto simp: filterStep_Eval_def shaped_def split: option.splits)
  with assms(1) show ?thesis
    by (cases "sh (f_from s)") (auto simp: filterStep_Eval_def map_sum_def grp split: gval.splits sum.splits)
qed

lemma map_shape:
  assumes "mapStep_Eval env s scope = Inr v" and "shaped sh (Outputs scope)"
  shows "has_shape (step_shape sh (SMap s)) v"
proof -
  from assms obtain x where x: "mget (Outputs scope) (m_from s) = Some x" "has_shape (sh (m_from s)) x"
    by (auto simp: mapStep_Eval_def shaped_def split: option.splits)
  with assms(1) show ?thesis
    by (cases "sh (m_from s)") (auto simp: mapStep_Eval_def map_sum_def split: gval.splits sum.splits)
qed

lemma group_shape:
  assumes "groupStep_Eval env s scope = Inr v" and "shaped sh (Outputs scope)"
  shows "has_shape GroupShape v \<and> step_fits sh (SGroup s)"
proof -
  from assms(1) obtain xs m where xs: "mget (Outputs scope) (g_from s) = Some (VList xs)"
    and l: "loopE (group_index env s scope) (enumerate 0 xs) [] = Inr m" and v: "v = VMap m"
    by (auto simp: groupStep_Eval_def listInput_def map_sum_def split: option.splits gval.splits sum.splits)
  have "list_all (\<lambda>e. nonempty_list (snd e)) m"
    by (rule loopE_inv [OF l])
      (auto simp: group_index_step bucket_nonempty intro!: list_all_mput)
  moreover have "has_shape (sh (g_from s)) (VList xs)" using assms(2) xs by (simp add: shaped_def)
  ultimately show ?thesis using v by auto
qed

lemma merge_shape:
  assumes "mergeStep_Eval env s scope = Inr v" and "shaped sh (Outputs scope)"
  shows "is_VMap v \<and> step_fits sh (SMerge s)"
proof -
  have "is_VMap v \<and> list_all (\<lambda>f. sh f \<noteq> ListShape) (mg_step_from s)"
  proof (rule loopE_prefix [OF assms(1) [unfolded mergeStep_Eval_def],
      where I = "\<lambda>fs v. is_VMap v \<and> list_all (\<lambda>f. sh f \<noteq> ListShape) fs"])
    fix ys y zs u w
    assume u: "is_VMap u \<and> list_all (\<lambda>f. sh f \<noteq> ListShape) ys" and "merge_source env s scope y u = Inr w"
    then obtain x where x: "mget (Outputs scope) y = Some x" "is_VMap x" "w = pipeline_deepMerge u x"
      by (auto simp: merge_source_step)
    then have "has_shape (sh y) x" using assms(2) by (simp add: shaped_def)
    then have "sh y \<noteq> ListShape" using x(2) by (cases x) auto
    moreover have "is_VMap w" using u x by (auto simp: is_VMap_iff pipeline_deepMerge.simps)
    ultimately show "is_VMap w \<and> list_all (\<lambda>f. sh f \<noteq> ListShape) (ys @ [y])" using u by simp
  qed simp
  then show ?thesis by simp
qed

lemma step_shape_sound:
  assumes "Step_Eval env st scope = Inr v" and "shaped sh (Outputs scope)"
  shows "step_fits sh st \<and> has_shape (step_shape sh st) v"
proof (cases st)
  case (SLoad s)
  then show ?thesis
    using assms(1) by (auto simp: loadStep_Eval_def map_sum_def split: option.splits sum.splits if_splits)
qed (use assms filter_shape map_shape group_shape merge_shape in auto)

text \<open>
  C40. Shapes are static. Every pipeline that runs passes the inference of shapes, and its outputs have
  the shapes inferred: a glob load is a list or, with \<open>as: map\<close>, a map, \<open>filter\<close> keeps the shape of its
  input, \<open>map\<close> keeps lists and maps apart, \<open>group\<close> gives a map of non-empty lists and \<open>merge\<close> a map. So a
  pipeline that groups a map or merges a list fails in every run, whatever the files and expressions are.
\<close>

theorem Run_shapes:
  assumes "Run env steps sources vals = Inr outs"
  shows "\<exists>sh. infer_shapes (\<lambda>_. AnyValue) steps = Some sh \<and>
    (\<forall>k v. mget outs k = Some v \<longrightarrow> has_shape (sh k) v)"
proof -
  from assms obtain sc where sc: "outs = Outputs sc" "loopE (run_step (pe_ctx env) Step_Name (Step_Eval env)) steps
      \<lparr>Sources = sources, Values = vals, Outputs = []\<rparr> = Inr sc"
    by (auto simp: Run_def map_sum_def split: sum.splits)
  have "\<exists>sh. infer_shapes (\<lambda>_. AnyValue) steps = Some sh \<and> shaped sh (Outputs sc)"
  proof (rule loopE_prefix [OF sc(2), where I = "\<lambda>ys sc. \<exists>sh. infer_shapes (\<lambda>_. AnyValue) ys = Some sh \<and> shaped sh (Outputs sc)"])
    fix ys y zs u w
    assume "\<exists>sh. infer_shapes (\<lambda>_. AnyValue) ys = Some sh \<and> shaped sh (Outputs u)"
      and "run_step (pe_ctx env) Step_Name (Step_Eval env) y u = Inr w"
    then obtain sh v where sh: "infer_shapes (\<lambda>_. AnyValue) ys = Some sh" "shaped sh (Outputs u)"
      and v: "Step_Eval env y u = Inr v" "w = u\<lparr>Outputs := mput (Step_Name y) v (Outputs u)\<rparr>"
      by (auto simp: verbs.run_step_Inr)
    from step_shape_sound [OF v(1) sh(2)] sh v(2)
    show "\<exists>sh. infer_shapes (\<lambda>_. AnyValue) (ys @ [y]) = Some sh \<and> shaped sh (Outputs w)"
      by (auto simp: infer_shapes_snoc shaped_def mget_mput)
  qed (simp add: shaped_def)
  with sc(1) show ?thesis by (simp add: shaped_def)
qed

theorem Run_shapes_witness:
  "\<exists>sh. infer_shapes (\<lambda>_. AnyValue) sample_steps = Some sh \<and> sh ''keep'' = ListShape \<and>
    has_shape (sh ''keep'') (VList [VStr ''/s/a'', VStr ''/s/b''])"
proof -
  from Run_shapes [OF sample_runs] obtain sh where sh: "infer_shapes (\<lambda>_. AnyValue) sample_steps = Some sh"
    "\<And>k v. mget sample_outs k = Some v \<Longrightarrow> has_shape (sh k) v" by blast
  have "map_option (\<lambda>sh. sh ''keep'') (infer_shapes (\<lambda>_. AnyValue) sample_steps) = Some ListShape" by code_simp
  with sh show ?thesis using sh(2) [of "''keep''"] by (simp add: sample_outs_def)
qed

section \<open>Reads of a run\<close>

text \<open>
  A compiled step always finds what it reads: whenever a run reaches a step, the outputs it is
  \<open>from\<close> are there and, with every declared alias fetched, so is its source.
\<close>

theorem Run_reads_defined:
  assumes "Compile env spec aliases = Inr steps" and "i < length steps"
    and "loopE (run_step (pe_ctx env) Step_Name (Step_Eval env)) (take i steps)
           \<lparr>Sources = sources, Values = vals, Outputs = []\<rparr> = Inr scope"
    and "\<And>a. mget aliases a = Some True \<Longrightarrow> mget sources a \<noteq> None"
  shows "(\<forall>f \<in> set (Step_from (steps ! i)). mget (Outputs scope) f \<noteq> None) \<and>
    (\<forall>a \<in> set (Step_aliases (steps ! i)). mget (Sources scope) a \<noteq> None)"
proof -
  have ok: "steps_ok aliases steps" using Compile_ok [OF assms(1)] by simp
  have "set (mkeys (Outputs scope)) = set (map Step_Name (take i steps))"
    using verbs.run_keys [OF assms(3)] by simp
  moreover have "Sources scope = sources" using verbs.run_frame [OF assms(3)] by simp
  ultimately show ?thesis
    using ok assms(2,4) by (auto simp: steps_ok_def mtrue_def mget_None_iff subset_iff)
qed

text \<open>
  A run that fails stops at one step: the steps before it ran, and the error is the
  cancellation of the context or the step's own error under its name.
\<close>

theorem Run_fails_at_a_step:
  assumes "Run env steps sources vals = Inl e"
  shows "\<exists>i u. i < length steps \<and> is_ok (Run env (take i steps) sources vals) \<and>
    (pe_ctx env (AtStep (Step_Name (steps ! i))) = Some e \<or>
     (\<exists>e'. Step_Eval env (steps ! i) u = Inl e' \<and>
        e = Wrapf ''step %q: %w'' [AStr (Step_Name (steps ! i))] e'))"
proof -
  from assms have "loopE (run_step (pe_ctx env) Step_Name (Step_Eval env)) steps
      \<lparr>Sources = sources, Values = vals, Outputs = []\<rparr> = Inl e"
    by (auto simp: Run_def map_sum_def split: sum.splits)
  from verbs.run_error [OF this] show ?thesis by (auto simp: Run_def)
qed

theorem Run_fails_at_a_step_witness:
  "\<exists>i u. i < length sample_steps \<and> is_ok (Run sample_pipe (take i sample_steps) [] []) \<and>
    (pe_ctx sample_pipe (AtStep (Step_Name (sample_steps ! i))) =
       Some (Wrapf ''step %q: %w'' [AStr ''files''] (Errorf ''source alias %q has no fetched artifact'' [AStr ''src''])) \<or>
     (\<exists>e'. Step_Eval sample_pipe (sample_steps ! i) u = Inl e' \<and>
        Wrapf ''step %q: %w'' [AStr ''files''] (Errorf ''source alias %q has no fetched artifact'' [AStr ''src'']) =
        Wrapf ''step %q: %w'' [AStr (Step_Name (sample_steps ! i))] e'))"
  by (rule Run_fails_at_a_step) code_simp

section \<open>Two places where the documentation differs\<close>

text \<open>
  A rendered predicate counts only as a boolean literal: text that is no literal of
  \<open>strconv.ParseBool\<close> is an error, so the \<open>yes\<close> of the code's own comment fails the step.
\<close>

theorem truthyString_spec:
  "truthyString s =
     (let t = trim_space s in
      if t = [] then Inr False
      else if t \<in> {''1'', ''t'', ''T'', ''TRUE'', ''true'', ''True''} then Inr True
      else if t \<in> {''0'', ''f'', ''F'', ''FALSE'', ''false'', ''False''} then Inr False
      else Inl (Errorf ''where did not produce a boolean (got %q)'' [AStr t])) \<and>
   \<not> is_ok (truthyString ''yes'')"
proof -
  have "trim_space ''yes'' = ''yes''" by code_simp
  then have "\<not> is_ok (truthyString ''yes'')" by (simp add: truthyString_def parse_bool_def)
  then show ?thesis by (simp add: truthyString_def parse_bool_def Let_def)
qed

text \<open>
  A key expression on a list load is an error of the compiler: the API comment says it is
  ignored there.
\<close>

theorem compileLoad_rejects_idle_keyExpr:
  assumes "ls_as ls \<noteq> ''map''" and "ls_keyExpr ls \<noteq> []"
  shows "\<not> is_ok (compileLoad env name ls aliases)"
  using assms by (auto simp: compileLoad_def Let_def api_consts is_ok_iff
      split: option.splits sum.splits if_splits)

end
