(* ===== verification/Values_Resolver.thy ===== *)
theory Values_Resolver
  imports Item_Template
begin

text \<open>
  Package \<open>values\<close> (\<open>internal/values/values.go\<close>): the resolver that reads every ConfigMap of
  \<open>spec.valuesFrom\<close>, places its content at the target path and deep-merges it, and lays
  \<open>spec.values\<close> on top. The API reader and the YAML decoder are parameters: \<open>Reader ns name\<close> is the
  data of the ConfigMap or the error of the read, \<open>yaml raw\<close> the decoded tree or the error.
\<close>

record Resolver =
  Reader :: "string \<Rightarrow> string \<Rightarrow> string gmap res"
  NoCrossNamespaceRefs :: bool

definition NewResolver :: "(string \<Rightarrow> string \<Rightarrow> string gmap res) \<Rightarrow> bool \<Rightarrow> Resolver" where
  "NewResolver reader noCrossNamespaceRefs =
     \<lparr>Reader = reader, NoCrossNamespaceRefs = noCrossNamespaceRefs\<rparr>"

lemma NewResolver_simps [simp]:
  "Reader (NewResolver reader b) = reader" "NoCrossNamespaceRefs (NewResolver reader b) = b"
  by (simp_all add: NewResolver_def)

section \<open>Target paths\<close>

definition dot :: char where
  "dot = CHR ''.''"

fun check_segments :: "string \<Rightarrow> string list \<Rightarrow> unit res" where
  "check_segments path [] = Inr ()"
| "check_segments path (p # ps) =
     (if p = [] then Inl (Errorf ''invalid targetPath %q: empty segment'' [AStr path])
      else check_segments path ps)"

definition ValidateTargetPath :: "string \<Rightarrow> unit res" where
  "ValidateTargetPath path =
     (if path = [] then Inr () else check_segments path (split_on dot path))"

text \<open>The loop from the last segment to the first wraps the value once per segment.\<close>

definition wrap_at :: "string list \<Rightarrow> gval \<Rightarrow> gval" where
  "wrap_at parts value = foldr (\<lambda>p out. VMap [(p, out)]) parts value"

definition placeAtPath :: "string \<Rightarrow> gval \<Rightarrow> gval gmap res" where
  "placeAtPath path value =
     (if path = [] then
        (case value of
           VMap m \<Rightarrow> Inr m
         | _ \<Rightarrow> Inl (Errorf ''injected value is %T but targetPath is empty (only objects merge at the values root)''
                   [AStr (go_type value)]))
      else case check_segments path (split_on dot path) of
          Inl e \<Rightarrow> Inl e
        | Inr _ \<Rightarrow>
            (case wrap_at (split_on dot path) value of
               VMap m \<Rightarrow> Inr m
             | _ \<Rightarrow> Inl (Panicked ''interface conversion'')))"

section \<open>One reference\<close>

definition selectContent :: "decoder \<Rightarrow> string gmap \<Rightarrow> ValuesReference \<Rightarrow> gval res" where
  "selectContent yaml cm ref =
     (if vr_valuesKey ref \<noteq> [] then
        (case mget cm (vr_valuesKey ref) of
           None \<Rightarrow> Inl (FetchError (Errorf ''key %q not found in ConfigMap data'' [AStr (vr_valuesKey ref)]))
         | Some raw \<Rightarrow> wrap_err ''decode key %q: %w'' [AStr (vr_valuesKey ref)] (yaml raw))
      else Inr (VMap (fold (\<lambda>(k, v) out. mput k (VStr v) out) cm [])))"

definition resolveOne ::
  "decoder \<Rightarrow> Resolver \<Rightarrow> ValuesReference \<Rightarrow> string \<Rightarrow> gval gmap option res" where
  "resolveOne yaml r ref mgNamespace =
     (if vr_kind ref \<noteq> [] \<and> vr_kind ref \<noteq> ''ConfigMap'' then
        Inl (Errorf ''unsupported kind %q'' [AStr (vr_kind ref)])
      else
        let ns = (if vr_namespace ref = [] then mgNamespace else vr_namespace ref) in
        if NoCrossNamespaceRefs r \<and> ns \<noteq> mgNamespace then
          Inl (AccessError (Errorf ''cross-namespace reference to %s/%s is not allowed''
                 [AStr ns, AStr (vr_name ref)]))
        else case Reader r ns (vr_name ref) of
            Inl err \<Rightarrow> if as_not_found err \<and> vr_optional ref then Inr None else Inl (FetchError err)
          | Inr cm \<Rightarrow>
              (case selectContent yaml cm ref of
                 Inl err \<Rightarrow> if vr_optional ref then Inr None else Inl err
               | Inr injected \<Rightarrow>
                   if injected = VNil then
                     (if vr_targetPath ref = [] then Inr None
                      else map_sum id Some (placeAtPath (vr_targetPath ref) VNil))
                   else map_sum id Some (placeAtPath (vr_targetPath ref) injected)))"

section \<open>Inline values\<close>

definition decodeInline :: "decoder \<Rightarrow> string \<Rightarrow> gval gmap option res" where
  "decodeInline yaml raw =
     (case yaml raw of
        Inl err \<Rightarrow> Inl err
      | Inr VNil \<Rightarrow> Inr None
      | Inr (VMap m) \<Rightarrow> Inr (Some m)
      | Inr v \<Rightarrow> Inl (Errorf ''must be an object, got %T'' [AStr (go_type v)]))"

definition ValidateInline :: "decoder \<Rightarrow> string \<Rightarrow> unit res" where
  "ValidateInline yaml raw =
     (if length raw = 0 then Inr () else map_sum id (\<lambda>_. ()) (decodeInline yaml raw))"

section \<open>Resolve\<close>

text \<open>\<open>out = deepMerge(out, contrib).(map[string]any)\<close>\<close>

definition merge_into :: "gval gmap \<Rightarrow> gval gmap \<Rightarrow> gval gmap res" where
  "merge_into out contrib =
     (case values_deepMerge (VMap out) (VMap contrib) of
        VMap m \<Rightarrow> Inr m
      | _ \<Rightarrow> Inl (Panicked ''interface conversion''))"

definition resolve_body ::
  "decoder \<Rightarrow> Resolver \<Rightarrow> string \<Rightarrow> nat \<times> ValuesReference \<Rightarrow> gval gmap \<Rightarrow> gval gmap res" where
  "resolve_body yaml r ns iref out =
     (case iref of (i, ref) \<Rightarrow>
        (case resolveOne yaml r ref ns of
           Inl err \<Rightarrow> Inl (Wrapf ''valuesFrom[%d] %s %q: %w''
                        [AInt (int i), AStr (vr_kind ref), AStr (vr_name ref)] err)
         | Inr None \<Rightarrow> Inr out
         | Inr (Some contrib) \<Rightarrow> merge_into out contrib))"

definition Resolve :: "decoder \<Rightarrow> Resolver \<Rightarrow> ManifestGenerator \<Rightarrow> gval gmap res" where
  "Resolve yaml r obj =
     (case loopE (resolve_body yaml r (mg_namespace obj))
             (enumerate 0 (sp_valuesFrom (mg_spec obj))) [] of
        Inl err \<Rightarrow> Inl err
      | Inr out \<Rightarrow>
          (case sp_values (mg_spec obj) of
             None \<Rightarrow> Inr out
           | Some raw \<Rightarrow>
               if length raw > 0 then
                 (case decodeInline yaml raw of
                    Inl err \<Rightarrow> Inl (Wrapf ''spec.values: %w'' [] err)
                  | Inr None \<Rightarrow> Inr out
                  | Inr (Some inline) \<Rightarrow> merge_into out inline)
               else Inr out))"

section \<open>Target paths: validation, placement and lookup agree\<close>

lemma check_segments_Inr: "check_segments path ps = Inr () \<longleftrightarrow> [] \<notin> set ps"
  by (induction ps) auto

lemma check_segments_Inl: "check_segments path ps = Inl e \<Longrightarrow>
    e = Errorf ''invalid targetPath %q: empty segment'' [AStr path]"
  by (induction ps) (auto split: if_splits)

lemma wrap_at_simps [simp]:
  "wrap_at [] v = v"
  "wrap_at (p # ps) v = VMap [(p, wrap_at ps v)]"
  by (simp_all add: wrap_at_def)

lemma wrap_at_wf: "wf_val v \<Longrightarrow> wf_val (wrap_at ps v)"
  by (induction ps) (auto simp: wf_map_iff split: if_splits)

lemma wrap_at_map: "ps \<noteq> [] \<Longrightarrow> \<exists>m. wrap_at ps v = VMap m"
  by (cases ps) auto

lemma at_path_wrap_at:
  "at_path (wrap_at parts v) p =
     (if take (length parts) p = parts then at_path v (drop (length parts) p)
      else if take (length p) parts = p then Node else Absent)"
proof (induction parts arbitrary: p)
  case Nil
  then show ?case by simp
next
  case (Cons k parts)
  then show ?case by (cases p) auto
qed

lemma placeAtPath_path:
  assumes "path \<noteq> []"
  shows "placeAtPath path v =
    (case ValidateTargetPath path of
       Inl e \<Rightarrow> Inl e
     | Inr _ \<Rightarrow> Inr [(hd (split_on dot path), wrap_at (tl (split_on dot path)) v)])"
proof -
  obtain s ss where "split_on dot path = s # ss" by (meson neq_Nil_conv split_on_not_Nil)
  then show ?thesis
    using assms by (simp add: placeAtPath_def ValidateTargetPath_def split: sum.split)
qed

lemma placeAtPath_wf: "wf_val v \<Longrightarrow> placeAtPath path v = Inr m \<Longrightarrow> wf_map m"
proof (cases "path = []")
  case False
  assume v: "wf_val v" and pl: "placeAtPath path v = Inr m"
  then have "wrap_at (split_on dot path) v = VMap m"
    using False by (auto simp: placeAtPath_def split: sum.splits gval.splits)
  then show ?thesis using wrap_at_wf [OF v, of "split_on dot path"] by simp
qed (auto simp: placeAtPath_def split: gval.splits)

lemma placeAtPath_VMap:
  "path \<noteq> [] \<Longrightarrow> placeAtPath path v = Inr m \<Longrightarrow> VMap m = wrap_at (split_on dot path) v"
  by (auto simp: placeAtPath_def split: sum.splits gval.splits)

text \<open>
  The value of a reference lands exactly at its target path: below the path one finds the
  value's own paths, on the way to it the maps that lead there, and nothing anywhere else.
\<close>

theorem placeAtPath_places:
  assumes "path \<noteq> []" and "placeAtPath path v = Inr m"
  shows "at_path (VMap m) p =
    (let parts = split_on dot path in
     if take (length parts) p = parts then at_path v (drop (length parts) p)
     else if take (length p) parts = p then Node else Absent)"
  by (simp only: placeAtPath_VMap [OF assms] at_path_wrap_at Let_def)

theorem placeAtPath_places_witness:
  "at_path (VMap [(''a'', VMap [(''b'', VInt 1)])]) [''a'', ''b''] = Leaf (VInt 1)"
  using placeAtPath_places [of "''a.b''" "VInt 1" "[(''a'', VMap [(''b'', VInt 1)])]" "[''a'', ''b'']"]
  by (simp add: placeAtPath_def dot_def)

text \<open>
  Admission and resolution agree on target paths: \<open>ValidateTargetPath\<close> accepts a non-empty path
  exactly when \<open>placeAtPath\<close> succeeds at it, with the same error otherwise, and the type assertion
  at the end of \<open>placeAtPath\<close> never panics.
\<close>

theorem placeAtPath_agrees_with_validator:
  assumes "path \<noteq> []"
  shows "(\<forall>msg. placeAtPath path v \<noteq> Inl (Panicked msg)) \<and>
    (is_ok (placeAtPath path v) \<longleftrightarrow> ValidateTargetPath path = Inr ()) \<and>
    (placeAtPath path v = Inl e \<longleftrightarrow> ValidateTargetPath path = Inl e)"
proof (cases "ValidateTargetPath path")
  case (Inl e')
  then have "check_segments path (split_on dot path) = Inl e'"
    using assms by (simp add: ValidateTargetPath_def)
  then have "e' = Errorf ''invalid targetPath %q: empty segment'' [AStr path]"
    by (rule check_segments_Inl)
  with Inl show ?thesis by (simp add: placeAtPath_path [OF assms])
qed (simp add: placeAtPath_path [OF assms])

theorem placeAtPath_agrees_with_validator_witness:
  "\<not> is_ok (placeAtPath ''a..b'' VNil) \<and> is_ok (placeAtPath ''a.b'' VNil)"
  using placeAtPath_agrees_with_validator [of "''a..b''" VNil]
    placeAtPath_agrees_with_validator [of "''a.b''" VNil]
  by (simp add: ValidateTargetPath_def dot_def)

section \<open>Well-formedness of the resolved tree\<close>

lemma fold_string_entries:
  "wf_map out \<Longrightarrow> wf_map (fold (\<lambda>(k, v) out. mput k (VStr v) out) cm out)"
  by (induction cm arbitrary: out) (auto simp: wf_map_put)

lemma selectContent_wf:
  "decoder_ok yaml \<Longrightarrow> selectContent yaml cm ref = Inr v \<Longrightarrow> wf_val v"
  by (auto simp: selectContent_def decoder_ok_def fold_string_entries split: if_splits option.splits)

lemma resolveOne_wf:
  assumes "decoder_ok yaml" and "resolveOne yaml r ref ns = Inr (Some m)"
  shows "wf_map m"
proof -
  obtain cm v where v: "selectContent yaml cm ref = Inr v"
    and pl: "placeAtPath (vr_targetPath ref) v = Inr m"
    using assms(2)
    by (auto simp: resolveOne_def Let_def map_sum_def split: if_splits sum.splits)
  then show ?thesis using selectContent_wf [OF assms(1)] placeAtPath_wf by blast
qed

lemma decodeInline_wf: "decoder_ok yaml \<Longrightarrow> decodeInline yaml raw = Inr (Some m) \<Longrightarrow> wf_map m"
  by (fastforce simp: decodeInline_def decoder_ok_def split: sum.splits gval.splits)

lemma merge_into_eq:
  assumes "wf_map out" and "wf_map m"
  obtains c where "merge_into out m = Inr c" "wf_map c"
    "VMap c = values_deepMerge (VMap out) (VMap m)"
proof -
  obtain c where c: "values_deepMerge (VMap out) (VMap m) = VMap c" "wf_map c"
    using vals.merge_map_map [OF assms] by blast
  then show thesis by (intro that [of c]) (simp_all add: merge_into_def)
qed

section \<open>Sample object\<close>

text \<open>One reference that places the key \<open>k\<close> of a ConfigMap at \<open>a\<close>, and inline values on top.\<close>

definition sample_vgen :: ManifestGenerator where
  "sample_vgen = (sample_obj [] [] [])\<lparr>mg_spec := (sample_spec [])\<lparr>sp_values := Some ''tree'',
     sp_valuesFrom := [\<lparr>vr_kind = ''ConfigMap'', vr_name = ''cm'', vr_namespace = [], vr_valuesKey = ''k'',
       vr_targetPath = ''a'', vr_optional = False\<rparr>]\<rparr>\<rparr>"

definition sample_resolver :: Resolver where
  "sample_resolver = \<lparr>Reader = (\<lambda>ns n. if ns = ''apps'' then Inr [(''k'', ''x'')] else Inl (NotFoundErr n)),
     NoCrossNamespaceRefs = True\<rparr>"

lemma sample_resolves: "Resolve sample_decoder sample_resolver sample_vgen = Inr [(''a'', VStr ''1'')]"
  by code_simp

section \<open>The resolved tree is the stack of its layers\<close>

text \<open>The contribution of \<open>spec.values\<close>: nothing when it is absent, empty or null.\<close>

definition inline_layer :: "decoder \<Rightarrow> ManifestGenerator \<Rightarrow> gval gmap option res" where
  "inline_layer yaml obj =
     (case sp_values (mg_spec obj) of
        None \<Rightarrow> Inr None
      | Some raw \<Rightarrow> if raw = [] then Inr None else decodeInline yaml raw)"

text \<open>Every layer of the tree, lowest first, with the absent ones left out.\<close>

definition layers :: "gval gmap option list \<Rightarrow> gval list" where
  "layers cs = map VMap (List.map_filter id cs)"

lemma layers_simps [simp]:
  "layers [] = []"
  "layers (None # cs) = layers cs"
  "layers (Some m # cs) = VMap m # layers cs"
  "layers (cs @ ds) = layers cs @ layers ds"
  by (simp_all add: layers_def map_filter_def)

abbreviation stack :: "gval list \<Rightarrow> gval" where
  "stack bs \<equiv> fold (\<lambda>b acc. values_deepMerge acc b) bs (VMap [])"

lemma layers_wf: "(\<And>m. Some m \<in> set cs \<Longrightarrow> wf_map m) \<Longrightarrow> list_all wf_val (layers cs)"
  by (induction cs) (auto simp: layers_def map_filter_def list_all_iff)

text \<open>One round of the loop adds the layer of its reference.\<close>

lemma resolve_body_layer:
  assumes "decoder_ok yaml" and "wf_map out" and "resolve_body yaml r ns (i, ref) out = Inr out'"
  obtains c where "resolveOne yaml r ref ns = Inr c" "wf_map out'"
    "VMap out' = fold (\<lambda>b acc. values_deepMerge acc b) (layers [c]) (VMap out)"
proof -
  from assms(3) obtain c where c: "resolveOne yaml r ref ns = Inr c"
    by (auto simp: resolve_body_def split: sum.splits)
  show thesis
  proof (cases c)
    case None
    with c assms(2,3) show thesis by (intro that [OF c]) (simp_all add: resolve_body_def)
  next
    case (Some m)
    have "wf_map m" using resolveOne_wf [OF assms(1)] c Some by blast
    then obtain d where "merge_into out m = Inr d" "wf_map d"
      "VMap d = values_deepMerge (VMap out) (VMap m)"
      using merge_into_eq [OF assms(2)] by blast
    with c Some assms(3) show thesis by (intro that [OF c]) (simp_all add: resolve_body_def)
  qed
qed

lemma resolve_loop_layers:
  assumes "decoder_ok yaml"
    and "loopE (resolve_body yaml r ns) (enumerate n refs) out = Inr out'" and "wf_map out"
  shows "\<exists>cs. list_all2 (\<lambda>ref c. resolveOne yaml r ref ns = Inr c) refs cs \<and> wf_map out' \<and>
    VMap out' = fold (\<lambda>b acc. values_deepMerge acc b) (layers cs) (VMap out)"
  using assms(2,3)
proof (induction refs arbitrary: n out)
  case Nil
  then show ?case by simp
next
  case (Cons ref refs)
  from Cons.prems(1) obtain u where u: "resolve_body yaml r ns (n, ref) out = Inr u"
    and rest: "loopE (resolve_body yaml r ns) (enumerate (Suc n) refs) u = Inr out'"
    by (auto split: sum.splits)
  obtain c where c: "resolveOne yaml r ref ns = Inr c" "wf_map u"
    "VMap u = fold (\<lambda>b acc. values_deepMerge acc b) (layers [c]) (VMap out)"
    using resolve_body_layer [OF assms(1) Cons.prems(2) u] by blast
  from Cons.IH [OF rest c(2)] obtain cs where
    "list_all2 (\<lambda>ref c. resolveOne yaml r ref ns = Inr c) refs cs" "wf_map out'"
    "VMap out' = fold (\<lambda>b acc. values_deepMerge acc b) (layers cs) (VMap u)" by blast
  with c show ?case by (intro exI [of _ "c # cs"]) (cases c; simp)
qed

lemma Resolve_inline:
  "loopE (resolve_body yaml r (mg_namespace obj)) (enumerate 0 (sp_valuesFrom (mg_spec obj))) [] = Inr out \<Longrightarrow>
   Resolve yaml r obj =
     (case inline_layer yaml obj of
        Inl e \<Rightarrow> Inl (Wrapf ''spec.values: %w'' [] e)
      | Inr None \<Rightarrow> Inr out
      | Inr (Some m) \<Rightarrow> merge_into out m)"
  by (simp add: Resolve_def inline_layer_def split: option.split)

lemma Resolve_layers:
  assumes "decoder_ok yaml" and "Resolve yaml r obj = Inr out"
  obtains cs inl where
    "list_all2 (\<lambda>ref c. resolveOne yaml r ref (mg_namespace obj) = Inr c) (sp_valuesFrom (mg_spec obj)) cs"
    "inline_layer yaml obj = Inr inl" "wf_map out" "VMap out = stack (layers (cs @ [inl]))"
    "list_all wf_val (layers (cs @ [inl]))"
proof -
  from assms(2) obtain out1 where
    l: "loopE (resolve_body yaml r (mg_namespace obj)) (enumerate 0 (sp_valuesFrom (mg_spec obj))) [] = Inr out1"
    by (auto simp: Resolve_def split: sum.splits)
  from resolve_loop_layers [OF assms(1) l] obtain cs where
    cs: "list_all2 (\<lambda>ref c. resolveOne yaml r ref (mg_namespace obj) = Inr c) (sp_valuesFrom (mg_spec obj)) cs"
      "wf_map out1" "VMap out1 = stack (layers cs)" by auto
  have wcs: "wf_map m" if "Some m \<in> set cs" for m
    using list_all2_right [OF cs(1) that] resolveOne_wf [OF assms(1)] by blast
  from assms(2) obtain inl where i: "inline_layer yaml obj = Inr inl"
    "case inl of None \<Rightarrow> out = out1 | Some m \<Rightarrow> merge_into out1 m = Inr out"
    unfolding Resolve_inline [OF l] by (cases "inline_layer yaml obj") (auto split: option.splits)
  show thesis
  proof (cases inl)
    case None
    then show thesis
      using that [OF cs(1) i(1)] cs(2,3) i(2) wcs by (auto intro: layers_wf)
  next
    case (Some m)
    have m: "wf_map m"
      using i(1) Some decodeInline_wf [OF assms(1)] by (auto simp: inline_layer_def split: option.splits if_splits)
    obtain d where "merge_into out1 m = Inr d" "wf_map d"
      "VMap d = values_deepMerge (VMap out1) (VMap m)"
      using merge_into_eq [OF cs(2) m] by blast
    then show thesis
      using that [OF cs(1) i(1)] cs(3) i(2) Some wcs m layers_wf [of "cs @ [inl]"] by auto
  qed
qed

text \<open>
  C18. The resolved \<open>.values\<close> tree is the stack of its layers: the references in spec order, then
  the inline values on top. At every path the topmost layer with something there decides, and a
  leaf of a layer hides what lower layers have below it.
\<close>

theorem Resolve_is_layer_stack:
  assumes "decoder_ok yaml" and "Resolve yaml r obj = Inr out"
  shows "\<exists>cs inl.
    list_all2 (\<lambda>ref c. resolveOne yaml r ref (mg_namespace obj) = Inr c) (sp_valuesFrom (mg_spec obj)) cs \<and>
    inline_layer yaml obj = Inr inl \<and> wf_map out \<and>
    (\<forall>p. at_path (VMap out) p = layer_lookup (rev (layers (cs @ [inl]))) p)"
proof -
  obtain cs inl where *:
    "list_all2 (\<lambda>ref c. resolveOne yaml r ref (mg_namespace obj) = Inr c) (sp_valuesFrom (mg_spec obj)) cs"
    "inline_layer yaml obj = Inr inl" "wf_map out" "VMap out = stack (layers (cs @ [inl]))"
    "list_all wf_val (layers (cs @ [inl]))"
    by (rule Resolve_layers [OF assms])
  have "at_path (VMap out) p = layer_lookup (rev (layers (cs @ [inl]))) p" for p
    unfolding *(4) by (rule vals.at_path_fold_merge [OF *(5)])
  with *(1-3) show ?thesis by blast
qed

theorem Resolve_is_layer_stack_witness:
  "\<exists>cs inl. inline_layer sample_decoder sample_vgen = Inr inl \<and>
    (\<forall>p. at_path (VMap [(''a'', VStr ''1'')]) p = layer_lookup (rev (layers (cs @ [inl]))) p)"
  using Resolve_is_layer_stack [OF sample_decoder_ok sample_resolves] by blast

text \<open>
  Inline values always win: a leaf of \<open>spec.values\<close> is a leaf of the resolved tree, whatever the
  ConfigMaps hold.
\<close>

theorem inline_values_win:
  assumes "decoder_ok yaml" and "Resolve yaml r obj = Inr out"
    and "sp_values (mg_spec obj) = Some raw" and "raw \<noteq> []" and "yaml raw = Inr (VMap m)"
    and "at_path (VMap m) p = Leaf v"
  shows "at_path (VMap out) p = Leaf v"
proof -
  have "inline_layer yaml obj = Inr (Some m)"
    using assms(3,4,5) by (simp add: inline_layer_def decodeInline_def)
  then obtain cs where "VMap out = stack (layers (cs @ [Some m]))"
    "list_all wf_val (layers (cs @ [Some m]))"
    using Resolve_layers [OF assms(1,2)] by (metis sum.inject(2))
  then have "at_path (VMap out) p = layer_lookup (rev (layers (cs @ [Some m]))) p"
    by (simp only: vals.at_path_fold_merge)
  then show ?thesis using assms(6) by simp
qed

section \<open>Errors and access control\<close>

text \<open>The references that cross a namespace.\<close>

definition crosses :: "ValuesReference \<Rightarrow> string \<Rightarrow> bool" where
  "crosses ref ns \<longleftrightarrow> vr_namespace ref \<noteq> [] \<and> vr_namespace ref \<noteq> ns"

lemma resolveOne_crossing:
  assumes "NoCrossNamespaceRefs r" and "crosses ref ns"
  shows "\<exists>e. resolveOne yaml r ref ns = Inl e \<and>
    (vr_kind ref = [] \<or> vr_kind ref = ''ConfigMap'' \<longrightarrow> as_access e)"
  using assms by (auto simp: resolveOne_def crosses_def Let_def)

lemma resolveOne_local:
  assumes "NoCrossNamespaceRefs r" and "NoCrossNamespaceRefs r'"
    and "\<And>name. Reader r ns name = Reader r' ns name"
  shows "resolveOne yaml r ref ns = resolveOne yaml r' ref ns"
  using assms by (simp add: resolveOne_def Let_def)

text \<open>
  Isolation: with cross-namespace references switched off, resolving depends on the ConfigMaps
  of the object's own namespace only. Two cluster states that agree on that namespace give the
  same result, errors included.
\<close>

theorem Resolve_isolated:
  assumes "NoCrossNamespaceRefs r" and "NoCrossNamespaceRefs r'"
    and "\<And>name. Reader r (mg_namespace obj) name = Reader r' (mg_namespace obj) name"
  shows "Resolve yaml r obj = Resolve yaml r' obj"
proof -
  have "resolve_body yaml r (mg_namespace obj) = resolve_body yaml r' (mg_namespace obj)"
    by (intro ext) (simp add: resolve_body_def resolveOne_local [OF assms] split: prod.split)
  then show ?thesis by (simp add: Resolve_def)
qed

theorem Resolve_isolated_witness:
  "Resolve sample_decoder sample_resolver sample_vgen =
   Resolve sample_decoder (sample_resolver\<lparr>Reader := \<lambda>_ _. Inr [(''k'', ''x'')]\<rparr>) sample_vgen"
  by (rule Resolve_isolated) (simp_all add: sample_resolver_def sample_vgen_def sample_obj_def)

lemma Resolve_fails_at:
  assumes "ref \<in> set (sp_valuesFrom (mg_spec obj))"
    and "\<not> is_ok (resolveOne yaml r ref (mg_namespace obj))"
  shows "\<not> is_ok (Resolve yaml r obj)"
proof
  assume "is_ok (Resolve yaml r obj)"
  then obtain out1 where
    l: "loopE (resolve_body yaml r (mg_namespace obj)) (enumerate 0 (sp_valuesFrom (mg_spec obj))) [] = Inr out1"
    by (auto simp: Resolve_def is_ok_iff split: sum.splits)
  from assms(1) have "ref \<in> snd ` set (enumerate 0 (sp_valuesFrom (mg_spec obj)))"
    by (metis list.set_map map_snd_enumerate)
  then obtain i where "(i, ref) \<in> set (enumerate 0 (sp_valuesFrom (mg_spec obj)))" by auto
  then obtain ys zs where "enumerate 0 (sp_valuesFrom (mg_spec obj)) = ys @ (i, ref) # zs"
    by (meson split_list)
  with l obtain u v where "resolve_body yaml r (mg_namespace obj) (i, ref) u = Inr v"
    by (auto simp: loopE_append split: sum.splits)
  with assms(2) show False by (auto simp: resolve_body_def is_ok_iff split: sum.splits)
qed

text \<open>
  Access control: with the switch set, a spec with a reference into another namespace never
  resolves.
\<close>

theorem Resolve_rejects_cross_namespace:
  assumes "NoCrossNamespaceRefs r" and "ref \<in> set (sp_valuesFrom (mg_spec obj))"
    and "crosses ref (mg_namespace obj)"
  shows "\<not> is_ok (Resolve yaml r obj)"
  using Resolve_fails_at [OF assms(2)] resolveOne_crossing [OF assms(1,3)] by (metis is_ok.simps(2))

text \<open>
  An optional reference of the supported kind, inside the namespace, is skipped without an
  error when the ConfigMap is missing and when its content cannot be selected. The second case
  covers a key whose text does not decode, which the API comment does not mention: it promises
  leniency only for a ConfigMap or key that cannot be found.
\<close>

theorem optional_reference_skipped:
  assumes "vr_optional ref" and "vr_kind ref = ''ConfigMap''" and "\<not> crosses ref ns"
    and "Reader r (if vr_namespace ref = [] then ns else vr_namespace ref) (vr_name ref) = res"
    and "case res of Inl e \<Rightarrow> as_not_found e | Inr cm \<Rightarrow> \<not> is_ok (selectContent yaml cm ref)"
  shows "resolveOne yaml r ref ns = Inr None"
  using assms by (auto simp: resolveOne_def crosses_def Let_def not_is_ok_iff split: sum.splits)

text \<open>
  A read that fails, and a key that is missing, surface as a \<open>FetchError\<close> unless the reference
  is optional; the resolver adds the index of the reference and keeps the error's type visible
  to \<open>errors.As\<close>.
\<close>

theorem missing_content_is_fetch_error:
  assumes "resolveOne yaml r ref ns = Inl e" and "\<not> as_access e"
    and "vr_kind ref = ''ConfigMap''"
    and "Reader r (if vr_namespace ref = [] then ns else vr_namespace ref) (vr_name ref) = res"
    and "case res of Inl e' \<Rightarrow> True | Inr cm \<Rightarrow> vr_valuesKey ref \<noteq> [] \<and> mget cm (vr_valuesKey ref) = None"
  shows "as_fetch e \<and> resolve_body yaml r ns (i, ref) out =
    Inl (Wrapf ''valuesFrom[%d] %s %q: %w'' [AInt (int i), AStr (vr_kind ref), AStr (vr_name ref)] e)"
  using assms
  by (auto simp: resolveOne_def resolve_body_def selectContent_def Let_def split: sum.splits if_splits)

end
