(* ===== verification/Spec_Validation.thy ===== *)
theory Spec_Validation
  imports Pipeline Artifact_Builder Values_Resolver
begin

text \<open>
  The validator of a spec (\<open>internal/controller/manifestgenerator_validation.go\<close>). A refusal is the
  pair of the condition reason and the error that the code hands to \<open>newTerminalErrorFor\<close>; the text
  of a nested error enters the message, not the chain.
\<close>

type_synonym 'a vres = "(string \<times> goerr) + 'a"

record val_env =
  ve_noCrossNamespaceRefs :: bool
  ve_pipe :: pipe_env
  ve_tmpl :: tmpl_lib

definition err_arg :: "val_env \<Rightarrow> goerr \<Rightarrow> farg" where
  "err_arg env err = AStr (tl_err_text (ve_tmpl env) err)"

section \<open>The code\<close>

definition validate_source ::
  "val_env \<Rightarrow> ManifestGenerator \<Rightarrow> SourceReference \<Rightarrow> bool gmap \<Rightarrow> bool gmap vres" where
  "validate_source env obj src aliasMap =
     (if mtrue aliasMap (sr_alias src) then
        Inl (ValidationFailedReason, Errorf ''duplicate source alias %q'' [AStr (sr_alias src)])
      else if ve_noCrossNamespaceRefs env \<and> sr_namespace src \<noteq> [] \<and> sr_namespace src \<noteq> mg_namespace obj then
        Inl (AccessDeniedReason, Errorf ''cross-namespace reference to source %s/%s/%s is not allowed''
          [AStr (sr_kind src), AStr (sr_namespace src), AStr (sr_name src)])
      else Inr (mput (sr_alias src) True aliasMap))"

definition validate_inline :: "val_env \<Rightarrow> ManifestGenerator \<Rightarrow> unit vres" where
  "validate_inline env obj =
     (case sp_values (mg_spec obj) of
        None \<Rightarrow> Inr ()
      | Some raw \<Rightarrow>
          (case ValidateInline (pe_yaml (ve_pipe env)) raw of
             Inl err \<Rightarrow> Inl (ValidationFailedReason, Errorf ''spec.values: %s'' [err_arg env err])
           | Inr _ \<Rightarrow> Inr ()))"

definition validate_valuesFrom ::
  "val_env \<Rightarrow> ManifestGenerator \<Rightarrow> nat \<times> ValuesReference \<Rightarrow> unit \<Rightarrow> unit vres" where
  "validate_valuesFrom env obj iref _ =
     (case iref of (i, ref) \<Rightarrow>
        (case ValidateTargetPath (vr_targetPath ref) of
           Inl err \<Rightarrow> Inl (ValidationFailedReason,
             Errorf ''spec.valuesFrom[%d]: %s'' [AInt (int i), err_arg env err])
         | Inr _ \<Rightarrow>
             if ve_noCrossNamespaceRefs env \<and> vr_namespace ref \<noteq> [] \<and> vr_namespace ref \<noteq> mg_namespace obj then
               Inl (AccessDeniedReason, Errorf ''cross-namespace reference to valuesFrom %s/%s is not allowed''
                 [AStr (vr_namespace ref), AStr (vr_name ref)])
             else Inr ()))"

definition validate_pipeline :: "val_env \<Rightarrow> ManifestGenerator \<Rightarrow> bool gmap \<Rightarrow> bool gmap vres" where
  "validate_pipeline env obj aliasMap =
     (if sp_pipeline (mg_spec obj) = [] then Inr []
      else case Compile (ve_pipe env) (sp_pipeline (mg_spec obj)) aliasMap of
          Inl err \<Rightarrow> Inl (ValidationFailedReason, Errorf ''spec.pipeline: %s'' [err_arg env err])
        | Inr _ \<Rightarrow> Inr (fold (\<lambda>ps. mput (ps_name ps) True) (sp_pipeline (mg_spec obj)) []))"

definition validate_forEach :: "string \<Rightarrow> bool gmap \<Rightarrow> ForEachSpec option \<Rightarrow> unit vres" where
  "validate_forEach artifact stepNames forEach =
     (case forEach of
        None \<Rightarrow> Inr ()
      | Some fe \<Rightarrow>
          if \<not> mtrue stepNames (fe_from fe) then
            Inl (ValidationFailedReason, Errorf ''artifact %q: forEach.from %q does not name a pipeline step''
              [AStr artifact, AStr (fe_from fe)])
          else if fe_as fe = ValuesKey then
            Inl (ValidationFailedReason,
              Errorf ''artifact %q: forEach.as %q is reserved (shadows the .values tree)''
                [AStr artifact, AStr (fe_as fe)])
          else Inr ())"

definition validate_revision :: "string \<Rightarrow> string \<Rightarrow> bool gmap \<Rightarrow> string \<Rightarrow> unit vres" where
  "validate_revision artifact field aliasMap ref =
     (if ref \<noteq> [] \<and> \<not> mtrue aliasMap (trim_prefix ref ''@'') then
        Inl (ValidationFailedReason, Errorf (''artifact %q: '' @ field @ '' source alias %q not found'')
          [AStr artifact, AStr (trim_prefix ref ''@'')])
      else Inr ())"

definition validate_template ::
  "val_env \<Rightarrow> string \<Rightarrow> bool gmap \<Rightarrow> TemplateSpec \<Rightarrow> unit \<Rightarrow> unit vres" where
  "validate_template env artifact aliasMap t _ =
     (case templateSourceAlias (ts_from t) of
        None \<Rightarrow> Inl (ValidationFailedReason, Errorf ''artifact %q: invalid template source %q''
                  [AStr artifact, AStr (ts_from t)])
      | Some al \<Rightarrow>
          if \<not> mtrue aliasMap al then
            Inl (ValidationFailedReason, Errorf ''artifact %q: template references unknown source alias %q''
              [AStr artifact, AStr al])
          else case ValidateDestTemplate (ve_tmpl env) (ts_to t) of
              Inl err \<Rightarrow> Inl (ValidationFailedReason, Errorf ''artifact %q: template destination %q: %s''
                [AStr artifact, AStr (ts_to t), err_arg env err])
            | Inr _ \<Rightarrow> Inr ())"

definition validate_artifact ::
  "val_env \<Rightarrow> bool gmap \<Rightarrow> bool gmap \<Rightarrow> ManifestArtifact \<Rightarrow> bool gmap \<Rightarrow> bool gmap vres" where
  "validate_artifact env aliasMap stepNames artifact nameMap =
     (if mtrue nameMap (ma_name artifact) then
        Inl (ValidationFailedReason, Errorf ''duplicate artifact name %q'' [AStr (ma_name artifact)])
      else case validate_forEach (ma_name artifact) stepNames (ma_forEach artifact) of
          Inl err \<Rightarrow> Inl err
        | Inr _ \<Rightarrow>
            (case validate_revision (ma_name artifact) ''revision'' aliasMap (ma_revision artifact) of
               Inl err \<Rightarrow> Inl err
             | Inr _ \<Rightarrow>
                 (case validate_revision (ma_name artifact) ''originRevision'' aliasMap
                         (ma_originRevision artifact) of
                    Inl err \<Rightarrow> Inl err
                  | Inr _ \<Rightarrow>
                      (case loopE (validate_template env (ma_name artifact) aliasMap)
                              (ma_templates artifact) () of
                         Inl err \<Rightarrow> Inl err
                       | Inr _ \<Rightarrow> Inr (mput (ma_name artifact) True nameMap)))))"

definition validateSpec :: "val_env \<Rightarrow> ManifestGenerator \<Rightarrow> unit vres" where
  "validateSpec env obj =
     (case loopE (validate_source env obj) (sp_sources (mg_spec obj)) [] of
        Inl err \<Rightarrow> Inl err
      | Inr aliasMap \<Rightarrow>
          (case validate_inline env obj of
             Inl err \<Rightarrow> Inl err
           | Inr _ \<Rightarrow>
               (case loopE (validate_valuesFrom env obj) (enumerate 0 (sp_valuesFrom (mg_spec obj))) () of
                  Inl err \<Rightarrow> Inl err
                | Inr _ \<Rightarrow>
                    (case validate_pipeline env obj aliasMap of
                       Inl err \<Rightarrow> Inl err
                     | Inr stepNames \<Rightarrow>
                         (case loopE (validate_artifact env aliasMap stepNames) (sp_artifacts (mg_spec obj)) [] of
                            Inl err \<Rightarrow> Inl err
                          | Inr _ \<Rightarrow> Inr ())))))"

section \<open>Sample environment\<close>

definition sample_val :: val_env where
  "sample_val = \<lparr>ve_noCrossNamespaceRefs = True, ve_pipe = sample_pipe, ve_tmpl = sample_tmpl\<rparr>"

section \<open>What is accepted\<close>

text \<open>A \<open>map[string]bool\<close> used as a set.\<close>

definition mset_of :: "string list \<Rightarrow> bool gmap" where
  "mset_of ks = fold (\<lambda>k. mput k True) ks []"

lemma mget_fold_true: "mget (fold (\<lambda>k. mput k True) ks m) k = (if k \<in> set ks then Some True else mget m k)"
  by (induction ks arbitrary: m) (auto simp: mget_mput)

lemma mtrue_mset_of [simp]: "mtrue (mset_of ks) k \<longleftrightarrow> k \<in> set ks"
  by (simp add: mtrue_def mset_of_def mget_fold_true)

lemma fold_map_true: "fold (\<lambda>x. mput (f x) True) xs m = fold (\<lambda>k. mput k True) (map f xs) m"
  by (induction xs arbitrary: m) simp_all

text \<open>A loop that inserts a new key for every element.\<close>

lemma loopE_keys:
  assumes "\<And>x m m'. g x m = Inr m' \<longleftrightarrow> \<not> mtrue m (f x) \<and> P x \<and> m' = mput (f x) True m"
  shows "loopE g xs m = Inr m' \<longleftrightarrow> distinct (map f xs) \<and> (\<forall>x \<in> set xs. \<not> mtrue m (f x) \<and> P x) \<and>
    m' = fold (\<lambda>k. mput k True) (map f xs) m"
proof (induction xs arbitrary: m)
  case Nil
  then show ?case by auto
next
  case (Cons x xs)
  show ?case
  proof (cases "g x m")
    case (Inl e)
    then have "\<not> (\<not> mtrue m (f x) \<and> P x)" using assms [of x m "mput (f x) True m"] by simp
    with Inl show ?thesis by auto
  next
    case (Inr u)
    then have u: "\<not> mtrue m (f x)" "P x" "u = mput (f x) True m" using assms [of x m u] by simp_all
    have "mtrue u k \<longleftrightarrow> k = f x \<or> mtrue m k" for k by (simp add: u(3) mtrue_def mget_mput)
    then have "(\<forall>y \<in> set xs. \<not> mtrue u (f y) \<and> P y) \<longleftrightarrow>
        (\<forall>y \<in> set xs. f y \<noteq> f x) \<and> (\<forall>y \<in> set xs. \<not> mtrue m (f y) \<and> P y)" by auto
    moreover have "f x \<notin> set (map f xs) \<longleftrightarrow> (\<forall>y \<in> set xs. f y \<noteq> f x)" by (auto simp: image_iff)
    ultimately have "(\<forall>y \<in> set xs. \<not> mtrue u (f y) \<and> P y) \<longleftrightarrow>
        f x \<notin> set (map f xs) \<and> (\<forall>y \<in> set xs. \<not> mtrue m (f y) \<and> P y)" by simp
    then show ?thesis using Cons [of u] Inr u by auto
  qed
qed

text \<open>A loop of checks.\<close>

lemma loopE_checks:
  assumes "\<And>x u. g x u = Inr () \<longleftrightarrow> P x"
  shows "loopE g xs u = Inr () \<longleftrightarrow> (\<forall>x \<in> set xs. P x)"
proof (induction xs arbitrary: u)
  case (Cons x xs)
  then show ?case using assms [of x u] by (cases "g x u") auto
qed simp

definition local_ref :: "val_env \<Rightarrow> ManifestGenerator \<Rightarrow> string \<Rightarrow> bool" where
  "local_ref env obj ns \<longleftrightarrow> \<not> ve_noCrossNamespaceRefs env \<or> ns = [] \<or> ns = mg_namespace obj"

definition spec_aliases :: "ManifestGenerator \<Rightarrow> string list" where
  "spec_aliases obj = map sr_alias (sp_sources (mg_spec obj))"

definition artifact_valid :: "val_env \<Rightarrow> ManifestGenerator \<Rightarrow> ManifestArtifact \<Rightarrow> bool" where
  "artifact_valid env obj a \<longleftrightarrow>
     (case ma_forEach a of
        None \<Rightarrow> True
      | Some fe \<Rightarrow> fe_from fe \<in> set (map ps_name (sp_pipeline (mg_spec obj))) \<and> fe_as fe \<noteq> ValuesKey) \<and>
     (\<forall>ref \<in> {ma_revision a, ma_originRevision a}. ref = [] \<or> trim_prefix ref ''@'' \<in> set (spec_aliases obj)) \<and>
     (\<forall>t \<in> set (ma_templates a).
        (\<exists>al r. source_ref (ts_from t) al r \<and> al \<in> set (spec_aliases obj)) \<and>
        ValidateDestTemplate (ve_tmpl env) (ts_to t) = Inr ())"

lemma validate_source_Inr:
  "validate_source env obj src m = Inr m' \<longleftrightarrow>
     \<not> mtrue m (sr_alias src) \<and> local_ref env obj (sr_namespace src) \<and> m' = mput (sr_alias src) True m"
  by (auto simp: validate_source_def local_ref_def)

lemma sources_Inr:
  "loopE (validate_source env obj) srcs [] = Inr m \<longleftrightarrow>
     distinct (map sr_alias srcs) \<and> (\<forall>s \<in> set srcs. local_ref env obj (sr_namespace s)) \<and>
     m = mset_of (map sr_alias srcs)"
  unfolding mset_of_def by (subst loopE_keys [OF validate_source_Inr]) (auto simp: mtrue_def)

lemma validate_valuesFrom_Inr:
  "validate_valuesFrom env obj iref u = Inr () \<longleftrightarrow>
     ValidateTargetPath (vr_targetPath (snd iref)) = Inr () \<and> local_ref env obj (vr_namespace (snd iref))"
  by (cases iref) (auto simp: validate_valuesFrom_def local_ref_def split: sum.split)

lemma valuesFrom_Inr:
  "loopE (validate_valuesFrom env obj) (enumerate 0 refs) () = Inr () \<longleftrightarrow>
     (\<forall>ref \<in> set refs. ValidateTargetPath (vr_targetPath ref) = Inr () \<and> local_ref env obj (vr_namespace ref))"
proof -
  have "snd ` set (enumerate 0 refs) = set refs" by (metis list.set_map map_snd_enumerate)
  then show ?thesis by (subst loopE_checks [OF validate_valuesFrom_Inr]) (metis (no_types, lifting) imageE imageI)
qed

lemma validate_template_Inr:
  "validate_template env n m t u = Inr () \<longleftrightarrow>
     (\<exists>al r. source_ref (ts_from t) al r \<and> mtrue m al) \<and> ValidateDestTemplate (ve_tmpl env) (ts_to t) = Inr ()"
proof -
  have ts: "templateSourceAlias (ts_from t) = Some al \<longleftrightarrow> (\<exists>r. source_ref (ts_from t) al r)" for al
    by (auto simp: templateSourceAlias_split splitSourceRef_iff [symmetric])
  show ?thesis
  proof (cases "templateSourceAlias (ts_from t)")
    case None
    with ts show ?thesis by (simp add: validate_template_def)
  next
    case (Some al)
    with ts have "(\<exists>al r. source_ref (ts_from t) al r \<and> mtrue m al) \<longleftrightarrow> mtrue m al"
      by (metis option.inject)
    with Some show ?thesis by (auto simp: validate_template_def split: sum.split)
  qed
qed

lemma validate_forEach_Inr:
  "validate_forEach n m fe = Inr () \<longleftrightarrow>
     (case fe of None \<Rightarrow> True | Some fe \<Rightarrow> mtrue m (fe_from fe) \<and> fe_as fe \<noteq> ValuesKey)"
  by (auto simp: validate_forEach_def split: option.split)

lemma validate_revision_Inr:
  "validate_revision n f m ref = Inr () \<longleftrightarrow> ref = [] \<or> mtrue m (trim_prefix ref ''@'')"
  by (simp add: validate_revision_def)

lemma validate_artifact_Inr:
  "validate_artifact env (mset_of (spec_aliases obj)) (mset_of (map ps_name (sp_pipeline (mg_spec obj)))) a m = Inr m' \<longleftrightarrow>
     \<not> mtrue m (ma_name a) \<and> artifact_valid env obj a \<and> m' = mput (ma_name a) True m"
proof -
  let ?al = "mset_of (spec_aliases obj)"
  let ?fe = "validate_forEach (ma_name a) (mset_of (map ps_name (sp_pipeline (mg_spec obj)))) (ma_forEach a)"
  let ?rv = "validate_revision (ma_name a) ''revision'' ?al (ma_revision a)"
  let ?or = "validate_revision (ma_name a) ''originRevision'' ?al (ma_originRevision a)"
  let ?ts = "loopE (validate_template env (ma_name a) ?al) (ma_templates a) ()"
  have "validate_artifact env ?al (mset_of (map ps_name (sp_pipeline (mg_spec obj)))) a m = Inr m' \<longleftrightarrow>
      \<not> mtrue m (ma_name a) \<and> ?fe = Inr () \<and> ?rv = Inr () \<and> ?or = Inr () \<and> ?ts = Inr () \<and>
      m' = mput (ma_name a) True m"
    by (cases ?fe; cases ?rv; cases ?or; cases ?ts) (auto simp: validate_artifact_def)
  then show ?thesis
    unfolding validate_forEach_Inr validate_revision_Inr loopE_checks [OF validate_template_Inr] artifact_valid_def
    by (auto split: option.splits)
qed

lemma validateSpec_accepts:
  "validateSpec env obj = Inr () \<longleftrightarrow>
     distinct (spec_aliases obj) \<and>
     (\<forall>s \<in> set (sp_sources (mg_spec obj)). local_ref env obj (sr_namespace s)) \<and>
     (\<forall>raw. sp_values (mg_spec obj) = Some raw \<longrightarrow> ValidateInline (pe_yaml (ve_pipe env)) raw = Inr ()) \<and>
     (\<forall>ref \<in> set (sp_valuesFrom (mg_spec obj)).
        ValidateTargetPath (vr_targetPath ref) = Inr () \<and> local_ref env obj (vr_namespace ref)) \<and>
     (sp_pipeline (mg_spec obj) \<noteq> [] \<longrightarrow>
        is_ok (Compile (ve_pipe env) (sp_pipeline (mg_spec obj)) (mset_of (spec_aliases obj)))) \<and>
     distinct (map ma_name (sp_artifacts (mg_spec obj))) \<and>
     (\<forall>a \<in> set (sp_artifacts (mg_spec obj)). artifact_valid env obj a)"
proof -
  let ?spec = "mg_spec obj"
  let ?al = "mset_of (spec_aliases obj)"
  let ?st = "mset_of (map ps_name (sp_pipeline ?spec))"
  have src: "loopE (validate_source env obj) (sp_sources ?spec) [] = Inr m \<longleftrightarrow>
      distinct (spec_aliases obj) \<and> (\<forall>s \<in> set (sp_sources ?spec). local_ref env obj (sr_namespace s)) \<and> m = ?al" for m
    by (simp add: sources_Inr spec_aliases_def)
  have inl: "validate_inline env obj = Inr () \<longleftrightarrow>
      (\<forall>raw. sp_values ?spec = Some raw \<longrightarrow> ValidateInline (pe_yaml (ve_pipe env)) raw = Inr ())"
    by (auto simp: validate_inline_def split: option.split sum.split)
  have pip: "validate_pipeline env obj ?al = Inr m \<longleftrightarrow>
      (sp_pipeline ?spec \<noteq> [] \<longrightarrow> is_ok (Compile (ve_pipe env) (sp_pipeline ?spec) ?al)) \<and> m = ?st" for m
    using fold_map_true [of ps_name "sp_pipeline ?spec" "[]"]
    by (auto simp: validate_pipeline_def mset_of_def split: sum.split)
  have art: "(\<exists>m. loopE (validate_artifact env ?al ?st) (sp_artifacts ?spec) [] = Inr m) \<longleftrightarrow>
      distinct (map ma_name (sp_artifacts ?spec)) \<and> (\<forall>a \<in> set (sp_artifacts ?spec). artifact_valid env obj a)"
  proof -
    have "loopE (validate_artifact env ?al ?st) xs [] = Inr m \<longleftrightarrow> distinct (map ma_name xs) \<and>
        (\<forall>a \<in> set xs. \<not> mtrue [] (ma_name a) \<and> artifact_valid env obj a) \<and>
        m = fold (\<lambda>k. mput k True) (map ma_name xs) []" for xs m
      by (rule loopE_keys) (rule validate_artifact_Inr)
    then show ?thesis by (simp only: mtrue_def mget_simps) blast
  qed
  have "validateSpec env obj = Inr () \<longleftrightarrow>
      (\<exists>m. loopE (validate_source env obj) (sp_sources ?spec) [] = Inr m \<and> validate_inline env obj = Inr () \<and>
        loopE (validate_valuesFrom env obj) (enumerate 0 (sp_valuesFrom ?spec)) () = Inr () \<and>
        (\<exists>s. validate_pipeline env obj m = Inr s \<and>
           (\<exists>n. loopE (validate_artifact env m s) (sp_artifacts ?spec) [] = Inr n)))" (is "_ \<longleftrightarrow> ?steps")
    by (simp add: validateSpec_def split: sum.split)
  moreover have "?steps \<longleftrightarrow> distinct (spec_aliases obj) \<and>
      (\<forall>s \<in> set (sp_sources ?spec). local_ref env obj (sr_namespace s)) \<and>
      validate_inline env obj = Inr () \<and>
      loopE (validate_valuesFrom env obj) (enumerate 0 (sp_valuesFrom ?spec)) () = Inr () \<and>
      (sp_pipeline ?spec \<noteq> [] \<longrightarrow> is_ok (Compile (ve_pipe env) (sp_pipeline ?spec) ?al)) \<and>
      (\<exists>n. loopE (validate_artifact env ?al ?st) (sp_artifacts ?spec) [] = Inr n)"
    unfolding src by (simp add: pip conj_ac)
  ultimately show ?thesis unfolding inl valuesFrom_Inr art by (simp only: conj_assoc)
qed

lemma validated:
  assumes "validateSpec env obj = Inr ()"
  shows validated_artifact: "a \<in> set (sp_artifacts (mg_spec obj)) \<Longrightarrow> artifact_valid env obj a"
    and validated_names: "distinct (map ma_name (sp_artifacts (mg_spec obj)))"
    and validated_aliases: "distinct (spec_aliases obj)"
    and validated_refs: "ref \<in> set (sp_valuesFrom (mg_spec obj)) \<Longrightarrow>
      ValidateTargetPath (vr_targetPath ref) = Inr () \<and> local_ref env obj (vr_namespace ref)"
    and validated_inline: "sp_values (mg_spec obj) = Some raw \<Longrightarrow> ValidateInline (pe_yaml (ve_pipe env)) raw = Inr ()"
    and validated_pipeline: "sp_pipeline (mg_spec obj) \<noteq> [] \<Longrightarrow>
      is_ok (Compile (ve_pipe env) (sp_pipeline (mg_spec obj)) (mset_of (spec_aliases obj)))"
  using assms unfolding validateSpec_accepts by blast+

text \<open>
  C22. The validator accepts a spec exactly when: source aliases are distinct and artifact names are
  distinct; with cross-namespace references switched off every source and ConfigMap is local;
  inline values decode to an object or null; every target path is well formed; the pipeline
  compiles against the declared aliases; every \<open>forEach\<close> reads a pipeline step and does not bind
  \<open>values\<close>; every revision alias and template source is declared and every destination parses.
\<close>

theorem validateSpec_iff:
  "validateSpec env obj = Inr () \<longleftrightarrow>
     distinct (spec_aliases obj) \<and>
     (\<forall>s \<in> set (sp_sources (mg_spec obj)). local_ref env obj (sr_namespace s)) \<and>
     (\<forall>raw. sp_values (mg_spec obj) = Some raw \<longrightarrow> ValidateInline (pe_yaml (ve_pipe env)) raw = Inr ()) \<and>
     (\<forall>ref \<in> set (sp_valuesFrom (mg_spec obj)).
        ValidateTargetPath (vr_targetPath ref) = Inr () \<and> local_ref env obj (vr_namespace ref)) \<and>
     (sp_pipeline (mg_spec obj) \<noteq> [] \<longrightarrow>
        is_ok (Compile (ve_pipe env) (sp_pipeline (mg_spec obj)) (mset_of (spec_aliases obj)))) \<and>
     distinct (map ma_name (sp_artifacts (mg_spec obj))) \<and>
     (\<forall>a \<in> set (sp_artifacts (mg_spec obj)). artifact_valid env obj a)"
  by (rule validateSpec_accepts)

theorem validateSpec_iff_witness:
  "distinct (spec_aliases (sample_obj [''out''] [] [])) \<and>
   artifact_valid sample_val (sample_obj [''out''] [] []) (hd (sp_artifacts (mg_spec (sample_obj [''out''] [] []))))"
proof -
  have "validateSpec sample_val (sample_obj [''out''] [] []) = Inr ()" by code_simp
  moreover have "hd (sp_artifacts (mg_spec (sample_obj [''out''] [] []))) \<in>
      set (sp_artifacts (mg_spec (sample_obj [''out''] [] [])))" by code_simp
  ultimately show ?thesis unfolding validateSpec_iff by blast
qed

lemma reasons_distinct: "AccessDeniedReason \<noteq> ValidationFailedReason"
  by (simp add: api_consts)

text \<open>
  A refusal for access is one: the reason \<open>AccessDenied\<close> is given only with cross-namespace references
  switched off and only when a source or a ConfigMap of the spec lies in another namespace; every
  other refusal has the reason \<open>ValidationFailed\<close>.
\<close>

theorem validateSpec_reasons:
  assumes "validateSpec env obj = Inl (reason, e)"
  shows "(reason = ValidationFailedReason \<or> reason = AccessDeniedReason) \<and>
    (reason = AccessDeniedReason \<longrightarrow> ve_noCrossNamespaceRefs env \<and>
      (\<exists>ns \<in> sr_namespace ` set (sp_sources (mg_spec obj)) \<union> vr_namespace ` set (sp_valuesFrom (mg_spec obj)).
         ns \<noteq> [] \<and> ns \<noteq> mg_namespace obj))"
proof -
  let ?V = "\<lambda>r. fst r = ValidationFailedReason"
  have art: "?V re" if "validate_artifact env al st a m = Inl re" for al st a m re
  proof -
    have "?V re" if "loopE (validate_template env n al) ts () = Inl re" for n ts
      using loopE_Inl [OF that]
      by (auto simp: validate_template_def split: option.splits if_splits sum.splits)
    then show ?thesis
      using that by (auto simp: validate_artifact_def validate_forEach_def validate_revision_def
          split: if_splits sum.splits option.splits)
  qed
  have rest: "?V re" if "loopE (validate_artifact env al st) as [] = Inl re \<or> validate_inline env obj = Inl re \<or>
      validate_pipeline env obj al = Inl re" for al st as re
    using that loopE_Inl art
    by (fastforce simp: validate_inline_def validate_pipeline_def split: option.splits sum.splits if_splits)
  have src: "?V re \<or> fst re = AccessDeniedReason \<and> ve_noCrossNamespaceRefs env \<and>
      (\<exists>s \<in> set (sp_sources (mg_spec obj)). sr_namespace s \<noteq> [] \<and> sr_namespace s \<noteq> mg_namespace obj)"
    if "loopE (validate_source env obj) (sp_sources (mg_spec obj)) [] = Inl re" for re
    using loopE_Inl [OF that] by (auto simp: validate_source_def split: if_splits)
  have vf: "?V re \<or> fst re = AccessDeniedReason \<and> ve_noCrossNamespaceRefs env \<and>
      (\<exists>s \<in> set (sp_valuesFrom (mg_spec obj)). vr_namespace s \<noteq> [] \<and> vr_namespace s \<noteq> mg_namespace obj)"
    if "loopE (validate_valuesFrom env obj) (enumerate 0 (sp_valuesFrom (mg_spec obj))) () = Inl re" for re
    using loopE_Inl [OF that]
    by (auto simp: validate_valuesFrom_def split: if_splits sum.splits dest!: set_enumerate_snd)
  from assms consider
      "loopE (validate_source env obj) (sp_sources (mg_spec obj)) [] = Inl (reason, e)"
    | "loopE (validate_valuesFrom env obj) (enumerate 0 (sp_valuesFrom (mg_spec obj))) () = Inl (reason, e)"
    | al st where "loopE (validate_artifact env al st) (sp_artifacts (mg_spec obj)) [] = Inl (reason, e) \<or>
        validate_inline env obj = Inl (reason, e) \<or> validate_pipeline env obj al = Inl (reason, e)"
    unfolding validateSpec_def by (auto split: sum.splits)
  then show ?thesis
  proof cases
    case 1
    from src [OF 1] reasons_distinct show ?thesis by auto
  next
    case 2
    from vf [OF 2] reasons_distinct show ?thesis by auto
  next
    case 3
    from rest [OF 3] reasons_distinct show ?thesis by auto
  qed
qed

end
