(* ===== verification/Reconciler.thy ===== *)
theory Reconciler
  imports Controller_State Spec_Validation
begin

text \<open>
  The reconciler (\<open>internal/controller/manifestgenerator_controller.go\<close>, \<open>manifestgenerator_values.go\<close>,
  \<open>manifestgenerator_pipeline.go\<close>): observing and fetching the sources, resolving values, running the
  pipeline, building and publishing every artifact, deleting orphans, and the dispatch of \<open>Reconcile\<close>.

  Parameters, in the record \<open>rec_env\<close>: the API server's answers (the object, the source objects, the
  ConfigMaps, the two writes of an ExternalArtifact), the temporary directory, the fetcher (the
  content a download leaves in its directory), SHA-256 and the jitter of the interval. An
  \<open>ApplyEA\<close> or \<open>PatchEAStatus\<close> of the trace is a write that succeeded; \<open>DeleteEA\<close>, \<open>RemoveStorage\<close> and
  \<open>CollectGarbage\<close> are attempts, whose failures the code only logs. The texts of conditions and events
  are not modelled, their types and reasons are.
\<close>

record source_artifact =
  sa_Digest :: string
  sa_Revision :: string
  sa_URL :: string
  sa_Metadata :: "string gmap"

record rec_env =
  rv_val :: val_env
  rv_bld :: bld_env
  rv_ctl :: ctl_env
  rv_controllerName :: string
  rv_get :: "ManifestGenerator res"
  rv_mkdirtemp :: "string res"
  rv_evalsymlinks :: "string \<Rightarrow> string res"
  rv_source :: "string \<Rightarrow> string \<Rightarrow> string \<Rightarrow> source_artifact option res"
  rv_mkdir :: "string \<Rightarrow> goerr option"
  rv_fetch :: "string \<Rightarrow> string \<Rightarrow> staging res"
  rv_APIReader :: "(string \<Rightarrow> string \<Rightarrow> string gmap res) option"
  rv_Client :: "string \<Rightarrow> string \<Rightarrow> string gmap res"
  rv_apply :: "string \<Rightarrow> string \<Rightarrow> goerr option"
  rv_apply_status :: "string \<Rightarrow> string \<Rightarrow> Artifact \<Rightarrow> goerr option"
  rv_sha256 :: "string \<Rightarrow> string"
  rv_jitter :: "int \<Rightarrow> int"
  rv_dependencyRequeue :: int

abbreviation rv_cond :: "rec_env \<Rightarrow> cond_lib" where
  "rv_cond env \<equiv> ce_cond (rv_ctl env)"

section \<open>Sources\<close>

definition source_kinds :: "string list" where
  "source_kinds = [SourceKindGitRepository, SourceKindOCIRepository, SourceKindBucket,
     SourceKindHelmChart, SourceKindExternalArtifact]"

definition observe_one ::
  "rec_env \<Rightarrow> ManifestGenerator \<Rightarrow> SourceReference \<Rightarrow> observedSource gmap \<Rightarrow> observedSource gmap res" where
  "observe_one env obj src out =
     (let ns = (if sr_namespace src \<noteq> [] then sr_namespace src else mg_namespace obj);
          key = AStr (ns @ ''/'' @ sr_name src) in
      if sr_kind src \<notin> set source_kinds then
        Inl (Errorf ''source %q kind %q not supported'' [AStr (sr_name src), AStr (sr_kind src)])
      else case rv_source env (sr_kind src) ns (sr_name src) of
          Inl err \<Rightarrow> if as_not_found err then Inl err else Inl (Wrapf ''unable to get source %q: %w'' [key] err)
        | Inr None \<Rightarrow> Inl (Errorf ''source %q is not ready'' [key])
        | Inr (Some a) \<Rightarrow> Inr (mput (sr_alias src)
            \<lparr>os_Digest = sa_Digest a, os_Revision = sa_Revision a, os_URL = sa_URL a,
             os_OriginRevision = (case mget (sa_Metadata a) ArtifactOriginRevisionAnnotation of
                None \<Rightarrow> [] | Some v \<Rightarrow> v)\<rparr> out))"

definition observeSources :: "rec_env \<Rightarrow> ManifestGenerator \<Rightarrow> observedSource gmap res" where
  "observeSources env obj = loopE (observe_one env obj) (sp_sources (mg_spec obj)) []"

text \<open>One download; the second component is the workspace, the content of every directory by its name.\<close>

definition fetch_one ::
  "rec_env \<Rightarrow> string \<Rightarrow> string \<times> observedSource \<Rightarrow> string gmap \<times> staging gmap \<Rightarrow> (string gmap \<times> staging gmap) res" where
  "fetch_one env tmpDir ks st =
     (case (ks, st) of ((al, src), (dirs, ws)) \<Rightarrow>
        let srcDir = path_join tmpDir al in
        case rv_mkdir env srcDir of
          Some err \<Rightarrow> Inl (Wrapf ''failed to create source dir: %w'' [] err)
        | None \<Rightarrow>
            (case rv_fetch env (os_URL src) (os_Digest src) of
               Inl err \<Rightarrow> Inl (Wrapf ''fetch %q: %w'' [AStr al] err)
             | Inr content \<Rightarrow> Inr (mput al srcDir dirs, mput al content ws)))"

definition fetchSources ::
  "rec_env \<Rightarrow> observedSource gmap \<Rightarrow> string \<Rightarrow> (string gmap \<times> staging gmap) res" where
  "fetchSources env sources tmpDir = loopE (fetch_one env tmpDir) sources ([], [])"

section \<open>Values and pipeline\<close>

definition valuesReader :: "rec_env \<Rightarrow> string \<Rightarrow> string \<Rightarrow> string gmap res" where
  "valuesReader env = (case rv_APIReader env of Some reader \<Rightarrow> reader | None \<Rightarrow> rv_Client env)"

definition resolveValues :: "rec_env \<Rightarrow> ManifestGenerator \<Rightarrow> gval gmap res" where
  "resolveValues env obj =
     (if sp_values (mg_spec obj) = None \<and> sp_valuesFrom (mg_spec obj) = [] then Inr []
      else Resolve (pe_yaml (ve_pipe (rv_val env)))
        (NewResolver (valuesReader env) (ve_noCrossNamespaceRefs (rv_val env))) obj)"

definition runPipeline ::
  "rec_env \<Rightarrow> ManifestGenerator \<Rightarrow> string gmap \<Rightarrow> gval gmap \<Rightarrow> gval gmap res" where
  "runPipeline env obj sources vals =
     (if sp_pipeline (mg_spec obj) = [] then Inr []
      else
        let aliases = fold (\<lambda>src. mput (sr_alias src) True) (sp_sources (mg_spec obj)) [] in
        case Compile (ve_pipe (rv_val env)) (sp_pipeline (mg_spec obj)) aliases of
          Inl err \<Rightarrow> Inl (Wrapf ''compile: %w'' [] err)
        | Inr ev \<Rightarrow> wrap_err ''evaluate: %w'' [] (Run (ve_pipe (rv_val env)) ev sources vals))"

section \<open>Outcomes\<close>

text \<open>The result of a reconcile: the delay of the next one and the errors returned.\<close>

type_synonym outcome = "int \<times> goerr list"

definition fail_ready :: "rec_env \<Rightarrow> string \<Rightarrow> rstate \<Rightarrow> rstate" where
  "fail_ready env reason s =
     emit (Event ''Warning'' reason) (on_conds (k_mark (rv_cond env) ''False'' ReadyCondition reason) s)"

definition handleValuesError :: "rec_env \<Rightarrow> goerr \<Rightarrow> rstate \<Rightarrow> outcome \<times> rstate" where
  "handleValuesError env err s =
     (if as_access err then
        (case newTerminalErrorFor (rv_ctl env) AccessDeniedReason
                (Errorf ''resolve values: %s'' [err_arg (rv_val env) err]) s of
           (e, s') \<Rightarrow> ((0, [e]), s'))
      else ((rv_dependencyRequeue env, []), fail_ready env SourceFetchFailedReason s))"

section \<open>Artifacts\<close>

definition external_artifact :: "rec_env \<Rightarrow> ManifestGenerator \<Rightarrow> ExternalArtifact" where
  "external_artifact env obj =
     \<lparr>ea_labels = mput ''app.kubernetes.io/managed-by'' (rv_controllerName env)
        (mput ManifestGeneratorLabel (mg_uid obj) []),
      ea_sourceRef = \<lparr>or_apiVersion = fst GroupVersion @ ''/'' @ snd GroupVersion, or_kind = ManifestGeneratorKind,
        or_name = mg_name obj, or_namespace = mg_namespace obj\<rparr>\<rparr>"

definition reconcileExternalArtifact ::
  "rec_env \<Rightarrow> ManifestArtifact \<Rightarrow> Artifact \<Rightarrow> rstate \<Rightarrow> (goerr \<times> rstate) + (ExternalArtifactReference \<times> rstate)" where
  "reconcileExternalArtifact env spec artifact s =
     (let obj = rs_obj s; ns = mg_namespace obj; name = ma_name spec in
      case rv_apply env ns name of
        Some err \<Rightarrow> Inl (Wrapf ''failed to apply ExternalArtifact: %w'' [] err, s)
      | None \<Rightarrow>
          let s1 = emit (ApplyEA ns name (external_artifact env obj) (rv_controllerName env)) s in
          case rv_apply_status env ns name artifact of
            Some err \<Rightarrow> Inl (Wrapf ''failed to patch ExternalArtifact status: %w'' [] err, s1)
          | None \<Rightarrow>
              let s2 = emit (PatchEAStatus ns name artifact) s1;
                  s3 = (if HasArtifactInInventory obj name ns (af_digest artifact) then s2
                        else emit (Event ''Trace'' ReadyCondition) s2) in
              Inr (\<lparr>ear_name = name, ear_namespace = ns, ear_digest = af_digest artifact,
                    ear_filename = path_base (af_filename artifact)\<rparr>, s3))"

definition build_one ::
  "rec_env \<Rightarrow> string gmap \<Rightarrow> gval gmap \<Rightarrow> string \<Rightarrow> staging gmap \<Rightarrow> observedSource gmap \<Rightarrow> ManifestArtifact \<Rightarrow>
   ExternalArtifactReference list \<times> rstate \<Rightarrow> (goerr \<times> rstate) + (ExternalArtifactReference list \<times> rstate)" where
  "build_one env localSources templateData tmpDir ws remote spec st =
     (case st of (eaRefs, s) \<Rightarrow>
        (case Build (rv_bld env) spec localSources templateData (mg_namespace (rs_obj s)) tmpDir ws of
           Inl err \<Rightarrow>
             Inl (err, fail_ready env (if as_render err then RenderFailedReason else BuildFailedReason) s)
         | Inr artifact0 \<Rightarrow>
             let artifact = setArtifactRevisions spec remote artifact0 in
             (case reconcileExternalArtifact env spec artifact s of
                Inl (err, s') \<Rightarrow> Inl (err, fail_ready env ReconciliationFailedReason s')
              | Inr (eaRef, s') \<Rightarrow> Inr (eaRefs @ [eaRef], s'))))"

definition collect_garbage :: "ExternalArtifactReference list \<Rightarrow> rstate \<Rightarrow> rstate" where
  "collect_garbage eaRefs s = fold (\<lambda>r. emit (CollectGarbage (ear_namespace r) (ear_name r))) eaRefs s"

text \<open>The end of a successful reconcile, from the search for orphans on.\<close>

definition publish ::
  "rec_env \<Rightarrow> ManifestGenerator \<Rightarrow> string \<Rightarrow> ExternalArtifactReference list \<Rightarrow> rstate \<Rightarrow> rstate" where
  "publish env oldObj sourcesDigest eaRefs s =
     (let orphans = findOrphanedReferences (st_inventory (mg_status (rs_obj s))) eaRefs;
          s1 = (if orphans \<noteq> [] then finalizeExternalArtifacts orphans s else s);
          s2 = collect_garbage eaRefs s1;
          obj = rs_obj s2;
          s3 = s2\<lparr>rs_obj := obj\<lparr>mg_status := (mg_status obj)
                 \<lparr>st_inventory := eaRefs, st_observedSourcesDigest := sourcesDigest,
                  st_observedGeneration := mg_generation obj\<rparr>\<rparr>\<rparr>;
          s4 = on_conds (k_mark (rv_cond env) ''True'' ReadyCondition SucceededReason) s3;
          s5 = emit (Event ''Trace'' ReadyCondition) s4
      in notify oldObj eaRefs s5)"

section \<open>reconcile and Reconcile\<close>

definition MkdirTempAbs :: "rec_env \<Rightarrow> string res" where
  "MkdirTempAbs env =
     (case rv_mkdirtemp env of
        Inl err \<Rightarrow> Inl err
      | Inr d \<Rightarrow> wrap_err ''error evaluating symlink: %w'' [] (rv_evalsymlinks env d))"

definition template_data :: "gval gmap \<Rightarrow> gval gmap \<Rightarrow> gval gmap" where
  "template_data outs vals = mput ValuesKey (VMap vals) (copy_into outs [])"

text \<open>The end of \<open>reconcile\<close>: all artifacts are built and applied, then the result is published.\<close>

definition publish_all ::
  "rec_env \<Rightarrow> ManifestGenerator \<Rightarrow> string \<Rightarrow> string gmap \<Rightarrow> staging gmap \<Rightarrow> gval gmap \<Rightarrow> observedSource gmap \<Rightarrow>
   rstate \<Rightarrow> outcome \<times> rstate" where
  "publish_all env oldObj tmpDir localSources ws templateData remote s =
     (case loopE (build_one env localSources templateData tmpDir ws remote)
             (sp_artifacts (mg_spec (rs_obj s))) ([], s) of
        Inl (err, s2) \<Rightarrow> ((0, [err]), s2)
      | Inr (eaRefs, s2) \<Rightarrow>
          ((rv_jitter env (GetRequeueAfter (rs_obj s2)), []),
           publish env oldObj (hashObservedSources (rv_sha256 env) remote) eaRefs s2))"

text \<open>The middle of \<open>reconcile\<close>: from the observation of the sources to the data of the templates.\<close>

definition reconcile_sources :: "rec_env \<Rightarrow> ManifestGenerator \<Rightarrow> string \<Rightarrow> rstate \<Rightarrow> outcome \<times> rstate" where
  "reconcile_sources env oldObj tmpDir s =
     (case observeSources env (rs_obj s) of
        Inl err \<Rightarrow> ((rv_dependencyRequeue env, []), fail_ready env SourceFetchFailedReason s)
      | Inr remote \<Rightarrow>
          (case fetchSources env remote tmpDir of
             Inl err \<Rightarrow> ((rv_dependencyRequeue env, []), fail_ready env SourceFetchFailedReason s)
           | Inr (localSources, ws) \<Rightarrow>
               (case resolveValues env (rs_obj s) of
                  Inl err \<Rightarrow> handleValuesError env err s
                | Inr vals \<Rightarrow>
                    (case runPipeline env (rs_obj s) localSources vals of
                       Inl err \<Rightarrow> ((0, [err]), fail_ready env PipelineFailedReason s)
                     | Inr outs \<Rightarrow>
                         publish_all env oldObj tmpDir localSources ws (template_data outs vals) remote s))))"

definition reconcile :: "rec_env \<Rightarrow> rstate \<Rightarrow> outcome \<times> rstate" where
  "reconcile env s =
     (case MkdirTempAbs env of
        Inl err \<Rightarrow> ((0, [Wrapf ''failed to create tmp dir: %w'' [] err]), s)
      | Inr tmpDir \<Rightarrow>
          (case patchStatus (rv_ctl env) ''start''
                  (on_conds (k_mark (rv_cond env) ''Unknown'' ReadyCondition ProgressingReason)
                    (on_conds (k_mark_reconciling (rv_cond env) ProgressingReason) s)) of
             (Some err, s1) \<Rightarrow> ((0, [Wrapf ''failed to update status: %w'' [] err]), s1)
           | (None, s1) \<Rightarrow> reconcile_sources env (rs_obj s) tmpDir s1))"

definition dispatch :: "rec_env \<Rightarrow> rstate \<Rightarrow> outcome \<times> rstate" where
  "dispatch env s =
     (let obj = rs_obj s in
      if mg_deleting obj then ((0, []), finalize s)
      else if Finalizer \<notin> set (mg_finalizers obj) then ((1000000, []), addFinalizer (rv_ctl env) s)
      else if IsDisabled obj then ((0, []), emit (Event ''Trace'' ReconciliationDisabledReason) s)
      else case validateSpec (rv_val env) obj of
          Inl (reason, err) \<Rightarrow>
            (case newTerminalErrorFor (rv_ctl env) reason err s of (e, s') \<Rightarrow> ((0, [e]), s'))
        | Inr _ \<Rightarrow> reconcile env s)"

definition Reconcile :: "rec_env \<Rightarrow> outcome \<times> rstate option" where
  "Reconcile env =
     (case rv_get env of
        Inl err \<Rightarrow> ((0, if as_not_found err then [] else [err]), None)
      | Inr obj \<Rightarrow>
          (case dispatch env \<lparr>rs_obj = obj, rs_trace = []\<rparr> of
             ((requeue, errs), s) \<Rightarrow>
               (case summarizeStatus (rv_ctl env) s of
                  (None, s') \<Rightarrow> ((requeue, errs), Some s')
                | (Some err, s') \<Rightarrow> ((requeue, errs @ [err]), Some s'))))"

section \<open>Reading the trace\<close>

definition applied :: "call list \<Rightarrow> (string \<times> string) list" where
  "applied tr = List.map_filter (\<lambda>c. case c of ApplyEA ns n u k \<Rightarrow> Some (ns, n) | _ \<Rightarrow> None) tr"

definition deleted :: "call list \<Rightarrow> (string \<times> string) list" where
  "deleted tr = List.map_filter (\<lambda>c. case c of DeleteEA ns n \<Rightarrow> Some (ns, n) | _ \<Rightarrow> None) tr"

lemma trace_simps [simp]:
  "applied [] = []" "deleted [] = []"
  "applied (tr @ tr') = applied tr @ applied tr'" "deleted (tr @ tr') = deleted tr @ deleted tr'"
  "applied [Event t r] = []" "deleted [Event t r] = []"
  "applied [PatchStatus obj b] = []" "deleted [PatchStatus obj b] = []"
  "applied [ApplyEA ns n u k] = [(ns, n)]" "deleted [ApplyEA ns n u k] = []"
  "applied [PatchEAStatus ns n a] = []" "deleted [PatchEAStatus ns n a] = []"
  "applied [CollectGarbage ns n] = []" "deleted [CollectGarbage ns n] = []"
  by (simp_all add: applied_def deleted_def map_filter_def)

lemma trace_Cons [simp]:
  "applied (Event t r # tr) = applied tr" "deleted (Event t r # tr) = deleted tr"
  "applied (ApplyEA ns n u k # tr) = (ns, n) # applied tr" "deleted (ApplyEA ns n u k # tr) = deleted tr"
  "applied (PatchEAStatus ns n a # tr) = applied tr" "deleted (PatchEAStatus ns n a # tr) = deleted tr"
  "applied (DeleteEA ns n # tr) = applied tr" "deleted (DeleteEA ns n # tr) = (ns, n) # deleted tr"
  "applied (RemoveStorage ns n # tr) = applied tr" "deleted (RemoveStorage ns n # tr) = deleted tr"
  by (simp_all add: applied_def deleted_def map_filter_def)

definition ref_id :: "ExternalArtifactReference \<Rightarrow> string \<times> string" where
  "ref_id r = (ear_namespace r, ear_name r)"

lemma finalize_trace:
  "applied (rs_trace (finalizeExternalArtifacts refs s)) = applied (rs_trace s)"
  "deleted (rs_trace (finalizeExternalArtifacts refs s)) = deleted (rs_trace s) @ map ref_id refs"
proof -
  have a: "applied (concat (map (\<lambda>r. [RemoveStorage (ear_namespace r) (ear_name r), DeleteEA (ear_namespace r) (ear_name r)]) refs)) = []"
    by (induction refs) simp_all
  have d: "deleted (concat (map (\<lambda>r. [RemoveStorage (ear_namespace r) (ear_name r), DeleteEA (ear_namespace r) (ear_name r)]) refs)) =
      map ref_id refs"
    by (induction refs) (simp_all add: ref_id_def)
  show "applied (rs_trace (finalizeExternalArtifacts refs s)) = applied (rs_trace s)"
    "deleted (rs_trace (finalizeExternalArtifacts refs s)) = deleted (rs_trace s) @ map ref_id refs"
    using a d finalizeExternalArtifacts_trace [of refs s] by simp_all
qed

section \<open>Building the artifacts\<close>

definition inventory :: "rstate \<Rightarrow> ExternalArtifactReference list" where
  "inventory s = st_inventory (mg_status (rs_obj s))"

lemma fail_ready_simps [simp]:
  "rs_trace (fail_ready env reason s) = rs_trace s @ [Event ''Warning'' reason]"
  "inventory (fail_ready env reason s) = inventory s"
  "mg_finalizers (rs_obj (fail_ready env reason s)) = mg_finalizers (rs_obj s)"
  "mg_deleting (rs_obj (fail_ready env reason s)) = mg_deleting (rs_obj s)"
  "st_observedGeneration (mg_status (rs_obj (fail_ready env reason s))) = st_observedGeneration (mg_status (rs_obj s))"
  by (simp_all add: fail_ready_def inventory_def)

lemma fail_ready_status: "cond_ok (rv_cond env) \<Longrightarrow>
    has_status (rv_cond env) (rs_obj (fail_ready env reason s)) ReadyCondition st \<longleftrightarrow> st = ''False''"
  by (simp add: fail_ready_def has_status_mark)

lemma fail_ready_reason: "cond_ok (rv_cond env) \<Longrightarrow>
    has_reason (rv_cond env) (rs_obj (fail_ready env reason s)) ReadyCondition r \<longleftrightarrow> r = reason"
  using cond_mark_same [of "rv_cond env" "''False''" ReadyCondition reason "GetConditions (rs_obj s)"]
  by (auto simp: fail_ready_def has_reason_def)

lemma reconcileEA_Inr:
  assumes "reconcileExternalArtifact env spec a s = Inr (ref, s')"
  shows "rs_obj s' = rs_obj s \<and> ref_id ref = (mg_namespace (rs_obj s), ma_name spec) \<and>
    ear_digest ref = af_digest a \<and>
    applied (rs_trace s') = applied (rs_trace s) @ [ref_id ref] \<and> deleted (rs_trace s') = deleted (rs_trace s)"
  using assms
  by (auto simp: reconcileExternalArtifact_def Let_def ref_id_def split: option.splits if_splits)

lemma reconcileEA_Inl:
  assumes "reconcileExternalArtifact env spec a s = Inl (e, s')"
  shows "rs_obj s' = rs_obj s \<and> deleted (rs_trace s') = deleted (rs_trace s) \<and>
    (applied (rs_trace s') = applied (rs_trace s) \<or>
     applied (rs_trace s') = applied (rs_trace s) @ [(mg_namespace (rs_obj s), ma_name spec)])"
  using assms by (auto simp: reconcileExternalArtifact_def Let_def split: option.splits if_splits)

lemma build_one_Inr:
  assumes "build_one env src data tmp ws remote spec (refs, s) = Inr (refs', s')"
  shows "\<exists>r. refs' = refs @ [r] \<and> ref_id r = (mg_namespace (rs_obj s), ma_name spec) \<and> rs_obj s' = rs_obj s \<and>
    applied (rs_trace s') = applied (rs_trace s) @ [ref_id r] \<and> deleted (rs_trace s') = deleted (rs_trace s)"
  using assms by (auto simp: build_one_def Let_def dest!: reconcileEA_Inr split: sum.splits)

lemma build_one_Inl:
  assumes "build_one env src data tmp ws remote spec (refs, s) = Inl (e, s')"
  shows "\<exists>s0 reason. s' = fail_ready env reason s0 \<and> rs_obj s0 = rs_obj s \<and>
    deleted (rs_trace s0) = deleted (rs_trace s) \<and>
    (applied (rs_trace s0) = applied (rs_trace s) \<or>
     applied (rs_trace s0) = applied (rs_trace s) @ [(mg_namespace (rs_obj s), ma_name spec)])"
proof (cases "Build (rv_bld env) spec src data (mg_namespace (rs_obj s)) tmp ws")
  case (Inl err)
  with assms show ?thesis by (auto simp: build_one_def)
next
  case (Inr a)
  with assms obtain s0 where "reconcileExternalArtifact env spec (setArtifactRevisions spec remote a) s = Inl (e, s0)"
    "s' = fail_ready env ReconciliationFailedReason s0"
    by (auto simp: build_one_def Let_def split: sum.splits)
  then show ?thesis using reconcileEA_Inl by blast
qed

lemma build_all_Inr:
  assumes "loopE (build_one env src data tmp ws remote) specs (refs, s) = Inr (refs', s')"
  shows "\<exists>new. refs' = refs @ new \<and> map ref_id new = map (\<lambda>a. (mg_namespace (rs_obj s), ma_name a)) specs \<and>
    rs_obj s' = rs_obj s \<and> applied (rs_trace s') = applied (rs_trace s) @ map ref_id new \<and>
    deleted (rs_trace s') = deleted (rs_trace s)"
  using assms
proof (induction specs arbitrary: refs s)
  case Nil
  then show ?case by simp
next
  case (Cons a specs)
  then obtain refs1 s1 where b: "build_one env src data tmp ws remote a (refs, s) = Inr (refs1, s1)"
    "loopE (build_one env src data tmp ws remote) specs (refs1, s1) = Inr (refs', s')"
    by (auto split: sum.splits)
  from build_one_Inr [OF b(1)] obtain r where r: "refs1 = refs @ [r]"
    "ref_id r = (mg_namespace (rs_obj s), ma_name a)" "rs_obj s1 = rs_obj s"
    "applied (rs_trace s1) = applied (rs_trace s) @ [ref_id r]" "deleted (rs_trace s1) = deleted (rs_trace s)" by blast
  from Cons.IH [OF b(2)] obtain new where "refs' = refs1 @ new"
    "map ref_id new = map (\<lambda>a. (mg_namespace (rs_obj s1), ma_name a)) specs" "rs_obj s' = rs_obj s1"
    "applied (rs_trace s') = applied (rs_trace s1) @ map ref_id new" "deleted (rs_trace s') = deleted (rs_trace s1)" by blast
  with r show ?case by (intro exI [of _ "r # new"]) simp
qed

lemma build_all_Inl:
  assumes "loopE (build_one env src data tmp ws remote) specs (refs, s) = Inl (e, s')"
  shows "\<exists>i s0 reason. i \<le> length specs \<and> s' = fail_ready env reason s0 \<and> rs_obj s0 = rs_obj s \<and>
    deleted (rs_trace s0) = deleted (rs_trace s) \<and>
    applied (rs_trace s0) = applied (rs_trace s) @ map (\<lambda>a. (mg_namespace (rs_obj s), ma_name a)) (take i specs)"
proof -
  from loopE_fail [OF assms] obtain ys y zs u where f: "specs = ys @ y # zs"
    "loopE (build_one env src data tmp ws remote) ys (refs, s) = Inr u"
    "build_one env src data tmp ws remote y u = Inl (e, s')" by metis
  obtain refs1 s1 where u: "u = (refs1, s1)" by (cases u)
  from build_all_Inr [of env src data tmp ws remote ys refs s refs1 s1] f(2) u obtain new where
    n: "map ref_id new = map (\<lambda>a. (mg_namespace (rs_obj s), ma_name a)) ys" "rs_obj s1 = rs_obj s"
      "applied (rs_trace s1) = applied (rs_trace s) @ map ref_id new" "deleted (rs_trace s1) = deleted (rs_trace s)"
    by auto
  from build_one_Inl [of env src data tmp ws remote y refs1 s1 e s'] f(3) u obtain s0 reason where
    z: "s' = fail_ready env reason s0" "rs_obj s0 = rs_obj s1" "deleted (rs_trace s0) = deleted (rs_trace s1)"
      "applied (rs_trace s0) = applied (rs_trace s1) \<or>
       applied (rs_trace s0) = applied (rs_trace s1) @ [(mg_namespace (rs_obj s1), ma_name y)]" by blast
  from z(4) show ?thesis
  proof
    assume "applied (rs_trace s0) = applied (rs_trace s1)"
    then show ?thesis using z n f(1) by (intro exI [of _ "length ys"] exI [of _ s0] exI [of _ reason]) simp
  next
    assume "applied (rs_trace s0) = applied (rs_trace s1) @ [(mg_namespace (rs_obj s1), ma_name y)]"
    then show ?thesis using z n f(1) by (intro exI [of _ "Suc (length ys)"] exI [of _ s0] exI [of _ reason]) simp
  qed
qed

section \<open>The two outcomes of a reconcile\<close>

text \<open>What a failed reconcile leaves behind: a prefix of the artifacts applied, and the rest as it was.\<close>

definition artifact_ids :: "ManifestGenerator \<Rightarrow> (string \<times> string) list" where
  "artifact_ids obj = map (\<lambda>a. (mg_namespace obj, ma_name a)) (sp_artifacts (mg_spec obj))"

definition failed_from :: "rstate \<Rightarrow> rstate \<Rightarrow> bool" where
  "failed_from s s' \<longleftrightarrow> inventory s' = inventory s \<and>
     st_observedGeneration (mg_status (rs_obj s')) = st_observedGeneration (mg_status (rs_obj s)) \<and>
     mg_finalizers (rs_obj s') = mg_finalizers (rs_obj s) \<and> mg_deleting (rs_obj s') = mg_deleting (rs_obj s) \<and>
     deleted (rs_trace s') = deleted (rs_trace s) \<and>
     (\<exists>i \<le> length (sp_artifacts (mg_spec (rs_obj s))).
        applied (rs_trace s') = applied (rs_trace s) @ take i (artifact_ids (rs_obj s)))"

definition succeeded :: "rec_env \<Rightarrow> outcome \<Rightarrow> rstate \<Rightarrow> bool" where
  "succeeded env out s' \<longleftrightarrow> snd out = [] \<and> has_status (rv_cond env) (rs_obj s') ReadyCondition ''True''"

lemma publish_facts:
  assumes "cond_ok (rv_cond env)"
  shows "inventory (publish env old d refs s) = refs \<and>
    st_observedGeneration (mg_status (rs_obj (publish env old d refs s))) = mg_generation (rs_obj s) \<and>
    mg_finalizers (rs_obj (publish env old d refs s)) = mg_finalizers (rs_obj s) \<and>
    mg_deleting (rs_obj (publish env old d refs s)) = mg_deleting (rs_obj s) \<and>
    has_status (rv_cond env) (rs_obj (publish env old d refs s)) ReadyCondition ''True'' \<and>
    applied (rs_trace (publish env old d refs s)) = applied (rs_trace s) \<and>
    deleted (rs_trace (publish env old d refs s)) =
      deleted (rs_trace s) @ map ref_id (findOrphanedReferences (inventory s) refs)"
proof -
  let ?s1 = "if findOrphanedReferences (inventory s) refs \<noteq> []
    then finalizeExternalArtifacts (findOrphanedReferences (inventory s) refs) s else s"
  have g: "rs_obj (collect_garbage rs u) = rs_obj u \<and> applied (rs_trace (collect_garbage rs u)) = applied (rs_trace u) \<and>
      deleted (rs_trace (collect_garbage rs u)) = deleted (rs_trace u)" for rs u
    unfolding collect_garbage_def by (induction rs arbitrary: u) simp_all
  have o1: "rs_obj ?s1 = rs_obj s" using finalizeExternalArtifacts_trace by simp
  have t1: "applied (rs_trace ?s1) = applied (rs_trace s)"
    "deleted (rs_trace ?s1) = deleted (rs_trace s) @ map ref_id (findOrphanedReferences (inventory s) refs)"
    by (simp_all add: finalize_trace)
  have n: "rs_obj (notify old refs u) = rs_obj u" "applied (rs_trace (notify old refs u)) = applied (rs_trace u)"
    "deleted (rs_trace (notify old refs u)) = deleted (rs_trace u)" for u
    by (simp_all add: notify_def)
  let ?s2 = "collect_garbage refs ?s1"
  let ?s3 = "?s2\<lparr>rs_obj := rs_obj ?s2\<lparr>mg_status := (mg_status (rs_obj ?s2))
    \<lparr>st_inventory := refs, st_observedSourcesDigest := d, st_observedGeneration := mg_generation (rs_obj ?s2)\<rparr>\<rparr>\<rparr>"
  let ?s5 = "emit (Event ''Trace'' ReadyCondition) (on_conds (k_mark (rv_cond env) ''True'' ReadyCondition SucceededReason) ?s3)"
  have p: "publish env old d refs s = notify old refs ?s5"
    by (simp add: publish_def Let_def inventory_def)
  have o2: "rs_obj ?s2 = rs_obj s" "applied (rs_trace ?s2) = applied (rs_trace ?s1)"
    "deleted (rs_trace ?s2) = deleted (rs_trace ?s1)" using g [of refs ?s1] o1 by simp_all
  have "inventory (notify old refs ?s5) = refs"
    "st_observedGeneration (mg_status (rs_obj (notify old refs ?s5))) = mg_generation (rs_obj s)"
    "mg_finalizers (rs_obj (notify old refs ?s5)) = mg_finalizers (rs_obj s)"
    "mg_deleting (rs_obj (notify old refs ?s5)) = mg_deleting (rs_obj s)"
    "has_status (rv_cond env) (rs_obj (notify old refs ?s5)) ReadyCondition ''True''"
    "applied (rs_trace (notify old refs ?s5)) = applied (rs_trace s)"
    "deleted (rs_trace (notify old refs ?s5)) =
      deleted (rs_trace s) @ map ref_id (findOrphanedReferences (inventory s) refs)"
    using o2 t1 n by (simp_all add: inventory_def has_status_mark [OF assms])
  then show ?thesis unfolding p by blast
qed

text \<open>The state when the status has been patched and the sources are about to be read.\<close>

lemma patchStatus_simps:
  "patchStatus env loc s = (e, s') \<Longrightarrow> rs_obj s' = rs_obj s \<and>
     (\<exists>b. rs_trace s' = rs_trace s @ [PatchStatus (rs_obj s) b])"
  by (auto simp: patchStatus_def split: option.splits)

definition started :: "rec_env \<Rightarrow> rstate \<Rightarrow> rstate \<Rightarrow> bool" where
  "started env s s1 \<longleftrightarrow> (\<exists>f b. rs_obj s1 = rs_obj (on_conds f s) \<and>
     rs_trace s1 = rs_trace s @ [PatchStatus (rs_obj s1) b] \<and>
     has_status (rv_cond env) (rs_obj s1) ReadyCondition ''Unknown'')"

lemma started_patch:
  assumes "cond_ok (rv_cond env)"
    and "patchStatus (rv_ctl env) ''start''
      (on_conds (k_mark (rv_cond env) ''Unknown'' ReadyCondition ProgressingReason)
        (on_conds (k_mark_reconciling (rv_cond env) ProgressingReason) s)) = (e, s1)"
  shows "started env s s1"
proof -
  let ?f = "k_mark (rv_cond env) ''Unknown'' ReadyCondition ProgressingReason \<circ>
    k_mark_reconciling (rv_cond env) ProgressingReason"
  have f: "on_conds (k_mark (rv_cond env) ''Unknown'' ReadyCondition ProgressingReason)
      (on_conds (k_mark_reconciling (rv_cond env) ProgressingReason) s) = on_conds ?f s"
    by (simp add: on_conds_def SetConditions_def GetConditions_def)
  have "has_status (rv_cond env) (rs_obj (on_conds ?f s)) ReadyCondition ''Unknown''"
    unfolding f [symmetric] by (simp add: has_status_mark [OF assms(1)])
  then show ?thesis
    using patchStatus_simps [OF assms(2)] unfolding f started_def by (intro exI [of _ ?f]) auto
qed

lemma started_facts:
  assumes "started env s s1"
  shows "mg_spec (rs_obj s1) = mg_spec (rs_obj s) \<and> mg_namespace (rs_obj s1) = mg_namespace (rs_obj s) \<and>
    mg_finalizers (rs_obj s1) = mg_finalizers (rs_obj s) \<and> mg_deleting (rs_obj s1) = mg_deleting (rs_obj s) \<and>
    mg_generation (rs_obj s1) = mg_generation (rs_obj s) \<and> inventory s1 = inventory s \<and>
    st_observedGeneration (mg_status (rs_obj s1)) = st_observedGeneration (mg_status (rs_obj s)) \<and>
    applied (rs_trace s1) = applied (rs_trace s) \<and> deleted (rs_trace s1) = deleted (rs_trace s)"
  using assms by (auto simp: started_def inventory_def)

lemma newTerminal_facts:
  "newTerminalErrorFor cenv reason err s = (e, s') \<Longrightarrow>
   inventory s' = inventory s \<and> mg_finalizers (rs_obj s') = mg_finalizers (rs_obj s) \<and>
   mg_deleting (rs_obj s') = mg_deleting (rs_obj s) \<and>
   st_observedGeneration (mg_status (rs_obj s')) = st_observedGeneration (mg_status (rs_obj s)) \<and>
   rs_trace s' = rs_trace s @ [Event ''Warning'' reason]"
  by (auto simp: newTerminalErrorFor_def inventory_def)

lemma failed_from_started:
  assumes "started env s s1" and "inventory s' = inventory s1"
    and "mg_finalizers (rs_obj s') = mg_finalizers (rs_obj s1)" and "mg_deleting (rs_obj s') = mg_deleting (rs_obj s1)"
    and "st_observedGeneration (mg_status (rs_obj s')) = st_observedGeneration (mg_status (rs_obj s1))"
    and "applied (rs_trace s') = applied (rs_trace s1) @ take i (artifact_ids (rs_obj s1))"
    and "deleted (rs_trace s') = deleted (rs_trace s1)" and "i \<le> length (sp_artifacts (mg_spec (rs_obj s1)))"
  shows "failed_from s s'"
  using assms started_facts [OF assms(1)] unfolding failed_from_def artifact_ids_def
  by (intro conjI exI [of _ i]) simp_all

lemma handleValuesError_fails:
  assumes "cond_ok (rv_cond env)" and "started env s s1" and "handleValuesError env err s1 = (out, s')"
  shows "failed_from s s' \<and> \<not> succeeded env out s'"
proof (cases "as_access err")
  case True
  then obtain e where n: "newTerminalErrorFor (rv_ctl env) AccessDeniedReason
      (Errorf ''resolve values: %s'' [err_arg (rv_val env) err]) s1 = (e, s')" "out = (0, [e])"
    using assms(3) by (auto simp: handleValuesError_def split: prod.splits)
  have "failed_from s s'"
    by (rule failed_from_started [OF assms(2), of s' 0]) (use newTerminal_facts [OF n(1)] in simp_all)
  then show ?thesis using n(2) by (simp add: succeeded_def)
next
  case False
  then have s': "s' = fail_ready env SourceFetchFailedReason s1" using assms(3) by (simp add: handleValuesError_def)
  have "failed_from s s'" by (rule failed_from_started [OF assms(2), of s' 0]) (simp_all add: s')
  then show ?thesis by (simp add: succeeded_def s' fail_ready_status [OF assms(1)])
qed

lemma fail_ready_fails:
  assumes "cond_ok (rv_cond env)" and "started env s s1"
  shows "failed_from s (fail_ready env reason s1) \<and> \<not> succeeded env out (fail_ready env reason s1)"
proof -
  have "failed_from s (fail_ready env reason s1)"
    by (rule failed_from_started [OF assms(2), of _ 0]) simp_all
  then show ?thesis by (simp add: succeeded_def fail_ready_status [OF assms(1)])
qed

lemma failed_from_refl: "failed_from s s"
  by (auto simp: failed_from_def)

text \<open>
  Every run of \<open>reconcile\<close> fails, with nothing recorded, or publishes: then all its stages succeeded, and
  every artifact was built and applied.
\<close>

definition evaluated ::
  "rec_env \<Rightarrow> ManifestGenerator \<Rightarrow> string \<Rightarrow> observedSource gmap \<Rightarrow> string gmap \<Rightarrow> staging gmap \<Rightarrow>
   gval gmap \<Rightarrow> gval gmap \<Rightarrow> bool" where
  "evaluated env obj tmpDir remote dirs ws vals outs \<longleftrightarrow>
     observeSources env obj = Inr remote \<and> fetchSources env remote tmpDir = Inr (dirs, ws) \<and>
     resolveValues env obj = Inr vals \<and> runPipeline env obj dirs vals = Inr outs"

definition stages ::
  "rec_env \<Rightarrow> rstate \<Rightarrow> rstate \<Rightarrow> string \<Rightarrow> observedSource gmap \<Rightarrow> string gmap \<Rightarrow> staging gmap \<Rightarrow>
   gval gmap \<Rightarrow> gval gmap \<Rightarrow> ExternalArtifactReference list \<Rightarrow> rstate \<Rightarrow> bool" where
  "stages env s s1 tmpDir remote dirs ws vals outs refs s2 \<longleftrightarrow>
     started env s s1 \<and> MkdirTempAbs env = Inr tmpDir \<and>
     evaluated env (rs_obj s1) tmpDir remote dirs ws vals outs \<and>
     loopE (build_one env dirs (template_data outs vals) tmpDir ws remote)
       (sp_artifacts (mg_spec (rs_obj s1))) ([], s1) = Inr (refs, s2)"

text \<open>The status of the object has no influence on its sources, values and pipeline.\<close>

lemma evaluated_cong:
  assumes "mg_spec obj' = mg_spec obj" and "mg_namespace obj' = mg_namespace obj"
  shows "evaluated env obj' tmpDir remote dirs ws vals outs = evaluated env obj tmpDir remote dirs ws vals outs"
proof -
  have "observe_one env obj' = observe_one env obj" by (intro ext) (simp add: observe_one_def assms)
  then have "observeSources env obj' = observeSources env obj" by (simp add: observeSources_def assms)
  moreover have "resolveValues env obj' = resolveValues env obj" unfolding resolveValues_def Resolve_def assms ..
  moreover have "runPipeline env obj' = runPipeline env obj" unfolding runPipeline_def assms ..
  ultimately show ?thesis by (simp add: evaluated_def)
qed

text \<open>Nor on what is applied.\<close>

lemma started_owner:
  assumes "started env s s1"
  shows "external_artifact env' (rs_obj s1) = external_artifact env' (rs_obj s)"
  using assms by (auto simp: started_def external_artifact_def)

lemma publish_all_cases:
  assumes "started env s s1" and "publish_all env old tmp dirs ws data remote s1 = (out, s')"
  obtains (failed) "failed_from s s'" "\<not> succeeded env out s'"
  | (published) refs s2 where
      "loopE (build_one env dirs data tmp ws remote) (sp_artifacts (mg_spec (rs_obj s1))) ([], s1) = Inr (refs, s2)"
      "snd out = []" "s' = publish env old (hashObservedSources (rv_sha256 env) remote) refs s2"
proof (cases "loopE (build_one env dirs data tmp ws remote) (sp_artifacts (mg_spec (rs_obj s1))) ([], s1)")
  case (Inl es)
  then obtain err where l: "es = (err, s')" "out = (0, [err])"
    using assms(2) by (cases es) (auto simp: publish_all_def)
  from build_all_Inl [OF Inl [unfolded l(1)]] obtain i s0 reason where
    i: "i \<le> length (sp_artifacts (mg_spec (rs_obj s1)))" "s' = fail_ready env reason s0"
      "rs_obj s0 = rs_obj s1" "deleted (rs_trace s0) = deleted (rs_trace s1)"
      "applied (rs_trace s0) = applied (rs_trace s1) @ take i (artifact_ids (rs_obj s1))"
    by (auto simp: artifact_ids_def take_map)
  have "inventory s0 = inventory s1" using i(3) by (simp add: inventory_def)
  then have "failed_from s s'"
    using i by (intro failed_from_started [OF assms(1), of s' i]) simp_all
  then show thesis using l(2) by (intro failed) (simp_all add: succeeded_def)
next
  case (Inr rs)
  with assms(2) show thesis by (cases rs) (auto simp: publish_all_def intro: published)
qed

lemma reconcile_sources_cases:
  assumes "cond_ok (rv_cond env)" and "started env s s1" and "reconcile_sources env old tmp s1 = (out, s')"
  obtains (failed) "failed_from s s'" "\<not> succeeded env out s'"
  | (published) remote dirs ws vals outs refs s2 where
      "evaluated env (rs_obj s1) tmp remote dirs ws vals outs"
      "loopE (build_one env dirs (template_data outs vals) tmp ws remote)
         (sp_artifacts (mg_spec (rs_obj s1))) ([], s1) = Inr (refs, s2)"
      "snd out = []" "s' = publish env old (hashObservedSources (rv_sha256 env) remote) refs s2"
proof -
  have fr: thesis if "s' = fail_ready env r s1" for r
    using fail_ready_fails [OF assms(1,2), of r out] that by (auto intro: failed)
  show thesis
  proof (cases "observeSources env (rs_obj s1)")
    case Inl
    then show thesis using fr assms(3) by (auto simp: reconcile_sources_def)
  next
    case remote: (Inr remote)
    show thesis
    proof (cases "fetchSources env remote tmp")
      case Inl
      then show thesis using fr assms(3) remote by (auto simp: reconcile_sources_def)
    next
      case (Inr lw)
      then obtain dirs ws where fetch: "fetchSources env remote tmp = Inr (dirs, ws)" by (cases lw) auto
      note r = assms(3) [unfolded reconcile_sources_def remote, simplified, unfolded fetch, simplified]
      show thesis
      proof (cases "resolveValues env (rs_obj s1)")
        case (Inl err)
        then have "handleValuesError env err s1 = (out, s')" using r by simp
        then show thesis using handleValuesError_fails [OF assms(1,2)] by (blast intro: failed)
      next
        case vals: (Inr vals)
        show thesis
        proof (cases "runPipeline env (rs_obj s1) dirs vals")
          case Inl
          then show thesis using fr r vals by auto
        next
          case outs: (Inr outs)
          have ev: "evaluated env (rs_obj s1) tmp remote dirs ws vals outs"
            using remote fetch vals outs by (simp add: evaluated_def)
          have "publish_all env old tmp dirs ws (template_data outs vals) remote s1 = (out, s')"
            using r vals outs by simp
          then show thesis
            by (rule publish_all_cases [OF assms(2)]) (auto intro: failed published [OF ev])
        qed
      qed
    qed
  qed
qed

lemma reconcile_cases:
  assumes "cond_ok (rv_cond env)" and "reconcile env s = (out, s')"
  obtains (failed) "failed_from s s'" "\<not> succeeded env out s'"
  | (published) s1 tmpDir remote dirs ws vals outs refs s2 where
      "stages env s s1 tmpDir remote dirs ws vals outs refs s2" "snd out = []"
      "s' = publish env (rs_obj s) (hashObservedSources (rv_sha256 env) remote) refs s2"
proof (cases "MkdirTempAbs env")
  case (Inl err)
  with assms(2) have "s' = s" "snd out \<noteq> []" by (auto simp: reconcile_def)
  then show thesis using failed_from_refl by (intro failed) (simp_all add: succeeded_def)
next
  case tmp: (Inr tmpDir)
  obtain e s1 where st: "patchStatus (rv_ctl env) ''start''
      (on_conds (k_mark (rv_cond env) ''Unknown'' ReadyCondition ProgressingReason)
        (on_conds (k_mark_reconciling (rv_cond env) ProgressingReason) s)) = (e, s1)" by fastforce
  have s1: "started env s s1" by (rule started_patch [OF assms(1) st])
  show thesis
  proof (cases e)
    case (Some err)
    have "failed_from s s1" by (rule failed_from_started [OF s1, of s1 0]) simp_all
    with Some assms(2) show thesis by (auto simp: reconcile_def tmp st succeeded_def intro!: failed)
  next
    case None
    then have "reconcile_sources env (rs_obj s) tmpDir s1 = (out, s')"
      using assms(2) by (simp add: reconcile_def tmp st)
    then show thesis
      by (rule reconcile_sources_cases [OF assms(1) s1]) (use s1 tmp in \<open>auto simp: stages_def intro: failed published\<close>)
  qed
qed

lemma reconcile_outcome:
  assumes "cond_ok (rv_cond env)" and "reconcile env s = (out, s')"
  shows "(failed_from s s' \<and> \<not> succeeded env out s') \<or>
    (\<exists>d refs s2. snd out = [] \<and> s' = publish env (rs_obj s) d refs s2 \<and> inventory s2 = inventory s \<and>
       mg_generation (rs_obj s2) = mg_generation (rs_obj s) \<and> map ref_id refs = artifact_ids (rs_obj s) \<and>
       mg_finalizers (rs_obj s2) = mg_finalizers (rs_obj s) \<and> mg_deleting (rs_obj s2) = mg_deleting (rs_obj s) \<and>
       applied (rs_trace s2) = applied (rs_trace s) @ map ref_id refs \<and> deleted (rs_trace s2) = deleted (rs_trace s))"
  using assms
proof (cases rule: reconcile_cases)
  case (published s1 tmpDir remote dirs ws vals outs refs s2)
  then have s1: "started env s s1" and "loopE (build_one env dirs (template_data outs vals) tmpDir ws remote)
      (sp_artifacts (mg_spec (rs_obj s1))) ([], s1) = Inr (refs, s2)" by (simp_all add: stages_def)
  from build_all_Inr [OF this(2)] have b: "map ref_id refs = artifact_ids (rs_obj s1)" "rs_obj s2 = rs_obj s1"
    "applied (rs_trace s2) = applied (rs_trace s1) @ map ref_id refs"
    "deleted (rs_trace s2) = deleted (rs_trace s1)"
    by (auto simp: artifact_ids_def)
  have "inventory s2 = inventory s1" "artifact_ids (rs_obj s1) = artifact_ids (rs_obj s)"
    using b(2) started_facts [OF s1] by (simp_all add: inventory_def artifact_ids_def)
  then show ?thesis
    using published(2,3) b started_facts [OF s1]
    by (intro disjI2 exI [of _ "hashObservedSources (rv_sha256 env) remote"] exI [of _ refs] exI [of _ s2]) simp
qed blast

section \<open>Sample environment\<close>

text \<open>
  An environment in which a reconcile runs to its end: one source that is ready, a fetch that leaves one
  file, an API server that accepts every write except the status of the artifact \<open>bad\<close>.
\<close>

definition sample_rec :: "ManifestGenerator \<Rightarrow> rec_env" where
  "sample_rec obj = \<lparr>rv_val = sample_val, rv_bld = sample_bld, rv_ctl = sample_ctl,
     rv_controllerName = ''ctl'', rv_get = Inr obj, rv_mkdirtemp = Inr ''/tmp/w'', rv_evalsymlinks = Inr,
     rv_source = (\<lambda>_ _ _. Inr (Some \<lparr>sa_Digest = ''d'', sa_Revision = ''r'', sa_URL = ''u'', sa_Metadata = []\<rparr>)),
     rv_mkdir = (\<lambda>_. None), rv_fetch = (\<lambda>_ _. Inr [(''cfg.yaml'', NFile ''x: 1'' 420)]),
     rv_APIReader = Some (\<lambda>_ _. Inr []), rv_Client = (\<lambda>_ _. Inl (ExtErr ''no cache'')),
     rv_apply = (\<lambda>_ _. None),
     rv_apply_status = (\<lambda>_ n _. if n = ''bad'' then Some (ExtErr ''conflict'') else None),
     rv_sha256 = (\<lambda>s. s), rv_jitter = (\<lambda>d. d), rv_dependencyRequeue = 5\<rparr>"

definition sample_state :: "ManifestGenerator \<Rightarrow> rstate" where
  "sample_state obj = \<lparr>rs_obj = obj, rs_trace = []\<rparr>"

definition sample_run :: "string list \<Rightarrow> string list \<Rightarrow> outcome \<times> rstate" where
  "sample_run names old =
     reconcile (sample_rec (sample_obj names [Finalizer] old)) (sample_state (sample_obj names [Finalizer] old))"

lemma sample_rec_cond: "cond_ok (rv_cond (sample_rec obj))"
  by (simp add: sample_rec_def sample_ctl_def sample_cond_ok)

lemma sample_run_eq: "reconcile (sample_rec (sample_obj names [Finalizer] old))
    (sample_state (sample_obj names [Finalizer] old)) = (fst (sample_run names old), snd (sample_run names old))"
  by (simp add: sample_run_def)

section \<open>What a reconcile promises\<close>

text \<open>
  C3. A reconcile that reports success has done all of it: every artifact of the spec was applied, in spec
  order; the new inventory lists exactly these; the observed generation is the object's; the
  ExternalArtifacts deleted are the entries of the old inventory that the spec no longer names, and
  none of them is in the new inventory.
\<close>

theorem reconcile_success:
  assumes "cond_ok (rv_cond env)" and "reconcile env s = (out, s')" and "succeeded env out s'"
  shows "map ref_id (inventory s') = artifact_ids (rs_obj s) \<and>
    st_observedGeneration (mg_status (rs_obj s')) = mg_generation (rs_obj s) \<and>
    applied (rs_trace s') = applied (rs_trace s) @ artifact_ids (rs_obj s) \<and>
    (\<exists>orphans. deleted (rs_trace s') = deleted (rs_trace s) @ map ref_id orphans \<and>
       set orphans \<subseteq> set (inventory s) \<and>
       (\<forall>r \<in> set (inventory s). r \<in> set orphans \<or> ref_key r \<in> ref_key ` set (inventory s')) \<and>
       (\<forall>r \<in> set orphans. ref_id r \<notin> set (artifact_ids (rs_obj s))))"
proof -
  from reconcile_outcome [OF assms(1,2)] assms(3) obtain d refs s2 where
    p: "s' = publish env (rs_obj s) d refs s2" "inventory s2 = inventory s"
      "mg_generation (rs_obj s2) = mg_generation (rs_obj s)" "map ref_id refs = artifact_ids (rs_obj s)"
      "applied (rs_trace s2) = applied (rs_trace s) @ map ref_id refs" "deleted (rs_trace s2) = deleted (rs_trace s)"
    by blast
  note f = publish_facts [OF assms(1), of "rs_obj s" d refs s2, folded p(1)]
  let ?o = "findOrphanedReferences (inventory s) refs"
  have new: "inventory s' = refs" using f by blast
  have key: "ref_key r = ref_key c" if "ref_id r = ref_id c" for r c
    using that by (simp add: ref_id_def ref_key_def)
  have "ref_id r \<notin> set (artifact_ids (rs_obj s))" if "r \<in> set ?o" for r
  proof
    assume "ref_id r \<in> set (artifact_ids (rs_obj s))"
    then obtain c where "c \<in> set refs" "ref_id c = ref_id r" unfolding p(4) [symmetric] by auto
    then show False using that key [of c r] unfolding findOrphaned_iff by (metis imageI)
  qed
  moreover have "set ?o \<subseteq> set (inventory s)" "\<forall>r \<in> set (inventory s). r \<in> set ?o \<or> ref_key r \<in> ref_key ` set refs"
    by (auto simp: findOrphaned_iff)
  ultimately show ?thesis
    using f p(2-6) unfolding new by (intro conjI exI [of _ ?o]) simp_all
qed

theorem reconcile_success_witness:
  "map ref_id (inventory (snd (sample_run [''out''] [''old'', ''out'']))) = [(''apps'', ''out'')] \<and>
   st_observedGeneration (mg_status (rs_obj (snd (sample_run [''out''] [''old'', ''out''])))) = 7"
proof -
  have "succeeded (sample_rec (sample_obj [''out''] [Finalizer] [''old'', ''out'']))
      (fst (sample_run [''out''] [''old'', ''out''])) (snd (sample_run [''out''] [''old'', ''out'']))"
    by code_simp
  from reconcile_success [OF sample_rec_cond sample_run_eq this]
  show ?thesis by (simp add: sample_state_def sample_obj_def sample_spec_def sample_artifact_def artifact_ids_def)
qed

text \<open>
  C8. A reconcile that does not report success records nothing: the inventory, the observed generation and
  the finalizers are as they were, nothing was deleted, and the artifacts applied so far are a
  prefix of the spec's.
\<close>

theorem reconcile_failure:
  assumes "cond_ok (rv_cond env)" and "reconcile env s = (out, s')" and "\<not> succeeded env out s'"
  shows "inventory s' = inventory s \<and>
    st_observedGeneration (mg_status (rs_obj s')) = st_observedGeneration (mg_status (rs_obj s)) \<and>
    mg_finalizers (rs_obj s') = mg_finalizers (rs_obj s) \<and> deleted (rs_trace s') = deleted (rs_trace s) \<and>
    (\<exists>i \<le> length (sp_artifacts (mg_spec (rs_obj s))).
       applied (rs_trace s') = applied (rs_trace s) @ take i (artifact_ids (rs_obj s)))"
proof -
  from reconcile_outcome [OF assms(1,2)] consider "failed_from s s'"
    | d refs s2 where "snd out = []" "s' = publish env (rs_obj s) d refs s2" by blast
  then show ?thesis
  proof cases
    case 1
    then show ?thesis by (simp add: failed_from_def)
  next
    case 2
    then have "succeeded env out s'" using publish_facts [OF assms(1)] by (simp add: succeeded_def)
    with assms(3) show ?thesis by blast
  qed
qed

theorem reconcile_failure_witness:
  "map ref_id (inventory (snd (sample_run [''out'', ''bad''] [''old'']))) = [(''apps'', ''old'')] \<and>
   deleted (rs_trace (snd (sample_run [''out'', ''bad''] [''old'']))) = []"
proof -
  have "snd (fst (sample_run [''out'', ''bad''] [''old''])) \<noteq> []" by code_simp
  then have "\<not> succeeded (sample_rec (sample_obj [''out'', ''bad''] [Finalizer] [''old'']))
      (fst (sample_run [''out'', ''bad''] [''old''])) (snd (sample_run [''out'', ''bad''] [''old'']))"
    by (simp add: succeeded_def)
  from reconcile_failure [OF sample_rec_cond sample_run_eq this]
  show ?thesis by (simp add: sample_state_def sample_obj_def sample_ref_def ref_id_def inventory_def)
qed

text \<open>
  C9. Artifacts of a failed reconcile can be orphaned for good: an ExternalArtifact that such a reconcile
  applied, and that the inventory did not list before, is not deleted when the object is deleted
  next, because finalizing works from the inventory alone.
\<close>

theorem unrecorded_artifact_never_deleted:
  assumes "cond_ok (rv_cond env)" and "reconcile env s = (out, s')" and "\<not> succeeded env out s'"
    and "x \<in> set (applied (rs_trace s'))" and "x \<notin> ref_id ` set (inventory s)" and "x \<notin> set (deleted (rs_trace s))"
  shows "x \<notin> set (deleted (rs_trace (finalize s')))"
proof -
  from reconcile_outcome [OF assms(1,2)] assms(3) publish_facts [OF assms(1)] have "failed_from s s'"
    by (metis succeeded_def)
  then have "inventory s' = inventory s" "deleted (rs_trace s') = deleted (rs_trace s)"
    by (simp_all add: failed_from_def)
  then show ?thesis
    using assms(5,6) by (auto simp: finalize_def Let_def finalize_trace inventory_def)
qed

theorem unrecorded_artifact_never_deleted_witness:
  "(''apps'', ''out'') \<in> set (applied (rs_trace (snd (sample_run [''out'', ''bad''] [])))) \<and>
   (''apps'', ''out'') \<notin> set (deleted (rs_trace (finalize (snd (sample_run [''out'', ''bad''] [])))))"
proof -
  have "snd (fst (sample_run [''out'', ''bad''] [])) \<noteq> []" by code_simp
  then have f: "\<not> succeeded (sample_rec (sample_obj [''out'', ''bad''] [Finalizer] []))
      (fst (sample_run [''out'', ''bad''] [])) (snd (sample_run [''out'', ''bad''] []))"
    by (simp add: succeeded_def)
  have a: "(''apps'', ''out'') \<in> set (applied (rs_trace (snd (sample_run [''out'', ''bad''] []))))"
    by code_simp
  show ?thesis
    using a unrecorded_artifact_never_deleted [OF sample_rec_cond sample_run_eq f a]
    by (simp add: sample_state_def sample_obj_def inventory_def)
qed

end
