(* ===== verification/Cluster.thy ===== *)
theory Cluster
  imports Reconciler
begin

text \<open>
  What the calls of the controller leave in the cluster. The trace of a state is interpreted over the
  ExternalArtifacts of an API server: an apply creates or overwrites the object, a status patch sets
  the artifact of an object that is there, a deletion removes it when the server accepts it. This is the
  abstract specification of publishing: after a reconcile that succeeds the cluster holds what the spec
  asks for, and the rest as it was.
\<close>

record cluster_entry =
  cl_object :: ExternalArtifact
  cl_artifact :: "Artifact option"

type_synonym cluster = "string \<times> string \<Rightarrow> cluster_entry option"

text \<open>Names and namespaces of Kubernetes have no slash.\<close>

definition slash_free :: "string \<Rightarrow> bool" where
  "slash_free s \<longleftrightarrow> CHR ''/'' \<notin> set s"

text \<open>
  \<open>dels\<close> says which deletions the server accepts; an error of one is only logged. An entry is what this
  controller applies: a server-side apply would leave labels and fields of other managers beside it.
\<close>

fun exec_call :: "(string \<times> string \<Rightarrow> bool) \<Rightarrow> call \<Rightarrow> cluster \<Rightarrow> cluster" where
  "exec_call dels (ApplyEA ns n ea mgr) c =
     c((ns, n) \<mapsto> \<lparr>cl_object = ea, cl_artifact = (case c (ns, n) of None \<Rightarrow> None | Some e \<Rightarrow> cl_artifact e)\<rparr>)"
| "exec_call dels (PatchEAStatus ns n a) c =
     (case c (ns, n) of None \<Rightarrow> c | Some e \<Rightarrow> c((ns, n) \<mapsto> e\<lparr>cl_artifact := Some a\<rparr>))"
| "exec_call dels (DeleteEA ns n) c = (if dels (ns, n) then c((ns, n) := None) else c)"
| "exec_call dels _ c = c"

definition exec_calls :: "(string \<times> string \<Rightarrow> bool) \<Rightarrow> call list \<Rightarrow> cluster \<Rightarrow> cluster" where
  "exec_calls dels tr c = fold (exec_call dels) tr c"

lemma exec_calls_simps [simp]:
  "exec_calls dels [] c = c"
  "exec_calls dels (x # tr) c = exec_calls dels tr (exec_call dels x c)"
  "exec_calls dels (tr @ tr') c = exec_calls dels tr' (exec_calls dels tr c)"
  by (simp_all add: exec_calls_def)

text \<open>
  \<open>runs s s' f\<close>: the calls between the two states have the effect \<open>f\<close> on the cluster.
\<close>

definition runs :: "(string \<times> string \<Rightarrow> bool) \<Rightarrow> rstate \<Rightarrow> rstate \<Rightarrow> (cluster \<Rightarrow> cluster) \<Rightarrow> bool" where
  "runs dels s s' f \<longleftrightarrow> (\<exists>tr. rs_trace s' = rs_trace s @ tr \<and> exec_calls dels tr = f)"

lemma runs_trans: "runs dels s s' f \<Longrightarrow> runs dels s' s'' g \<Longrightarrow> runs dels s s'' (g \<circ> f)"
  unfolding runs_def by (fastforce simp: fun_eq_iff)

lemma runs_same: "rs_trace s' = rs_trace s \<Longrightarrow> runs dels s s' id"
  by (auto simp: runs_def fun_eq_iff)

lemma runs_emit: "runs dels s (emit c s) (exec_call dels c)"
  by (auto simp: runs_def fun_eq_iff)

section \<open>Effects of the operations\<close>

definition published_entry :: "rec_env \<Rightarrow> ManifestGenerator \<Rightarrow> Artifact \<Rightarrow> cluster_entry" where
  "published_entry env obj a = \<lparr>cl_object = external_artifact env obj, cl_artifact = Some a\<rparr>"

lemma reconcileEA_runs:
  assumes "reconcileExternalArtifact env spec a s = Inr (ref, s')"
  shows "runs dels s s' (\<lambda>c. c((mg_namespace (rs_obj s), ma_name spec) \<mapsto> published_entry env (rs_obj s) a))"
  using assms
  by (auto simp: reconcileExternalArtifact_def Let_def runs_def published_entry_def fun_eq_iff
      split: option.splits if_splits)

text \<open>The artifact of a spec that a build produced, with the revisions of the spec.\<close>

definition built_artifact ::
  "rec_env \<Rightarrow> string gmap \<Rightarrow> gval gmap \<Rightarrow> string \<Rightarrow> string \<Rightarrow> staging gmap \<Rightarrow> observedSource gmap \<Rightarrow>
   ManifestArtifact \<Rightarrow> Artifact \<Rightarrow> bool" where
  "built_artifact env dirs data ns tmp ws remote spec a \<longleftrightarrow>
     (\<exists>b. Build (rv_bld env) spec dirs data ns tmp ws = Inr b \<and> a = setArtifactRevisions spec remote b)"

lemma build_one_runs:
  assumes "build_one env dirs data tmp ws remote spec (refs, s) = Inr (refs', s')"
  shows "\<exists>a. built_artifact env dirs data (mg_namespace (rs_obj s)) tmp ws remote spec a \<and> rs_obj s' = rs_obj s \<and>
    runs dels s s' (\<lambda>c. c((mg_namespace (rs_obj s), ma_name spec) \<mapsto> published_entry env (rs_obj s) a))"
proof -
  from assms obtain b ref where b: "Build (rv_bld env) spec dirs data (mg_namespace (rs_obj s)) tmp ws = Inr b"
    "reconcileExternalArtifact env spec (setArtifactRevisions spec remote b) s = Inr (ref, s')"
    by (auto simp: build_one_def Let_def split: sum.splits)
  then show ?thesis
    using reconcileEA_runs [OF b(2)] reconcileEA_Inr [OF b(2)] by (auto simp: built_artifact_def)
qed

lemma build_all_runs:
  assumes "loopE (build_one env dirs data tmp ws remote) specs (refs, s) = Inr (refs', s')"
  shows "\<exists>as. list_all2 (built_artifact env dirs data (mg_namespace (rs_obj s)) tmp ws remote) specs as \<and>
    runs dels s s' (\<lambda>c. c(map (\<lambda>sp. (mg_namespace (rs_obj s), ma_name sp)) specs [\<mapsto>]
      map (published_entry env (rs_obj s)) as))"
  using assms
proof (induction specs arbitrary: refs s)
  case Nil
  then show ?case by (auto intro: runs_same simp flip: id_def)
next
  case (Cons spec specs)
  then obtain refs1 s1 where b: "build_one env dirs data tmp ws remote spec (refs, s) = Inr (refs1, s1)"
    "loopE (build_one env dirs data tmp ws remote) specs (refs1, s1) = Inr (refs', s')"
    by (auto split: sum.splits)
  from build_one_runs [OF b(1)] obtain a where
    a: "built_artifact env dirs data (mg_namespace (rs_obj s)) tmp ws remote spec a" "rs_obj s1 = rs_obj s"
      "runs dels s s1 (\<lambda>c. c((mg_namespace (rs_obj s), ma_name spec) \<mapsto> published_entry env (rs_obj s) a))" by blast
  from Cons.IH [OF b(2)] a(2) obtain as where
    as: "list_all2 (built_artifact env dirs data (mg_namespace (rs_obj s)) tmp ws remote) specs as"
      "runs dels s1 s' (\<lambda>c. c(map (\<lambda>sp. (mg_namespace (rs_obj s), ma_name sp)) specs [\<mapsto>]
         map (published_entry env (rs_obj s)) as))" by auto
  show ?case
    using a(1) as(1) runs_trans [OF a(3) as(2)] by (intro exI [of _ "a # as"]) (simp add: comp_def)
qed

definition remove_ids :: "(string \<times> string) set \<Rightarrow> cluster \<Rightarrow> cluster" where
  "remove_ids D c = (\<lambda>x. if x \<in> D then None else c x)"

lemma finalize_runs:
  "runs dels s (finalizeExternalArtifacts refs s) (remove_ids {x \<in> ref_id ` set refs. dels x})"
proof (induction refs arbitrary: s)
  case Nil
  then show ?case by (simp add: finalizeExternalArtifacts_def remove_ids_def runs_same flip: id_def)
next
  case (Cons r refs)
  have f: "finalizeExternalArtifacts (r # refs) s = finalizeExternalArtifacts refs (finalize_one r s)"
    by (simp add: finalizeExternalArtifacts_def)
  have "runs dels s (finalize_one r s) (remove_ids {x. x = ref_id r \<and> dels x})"
    by (auto simp: runs_def finalize_one_def remove_ids_def ref_id_def fun_eq_iff)
  from runs_trans [OF this Cons.IH] show ?case
    unfolding f by (rule back_subst [of "runs dels s _"]) (auto simp: remove_ids_def fun_eq_iff)
qed

lemma garbage_runs: "runs dels s (collect_garbage refs s) id"
proof (induction refs arbitrary: s)
  case (Cons r refs)
  have "runs dels s (emit (CollectGarbage (ear_namespace r) (ear_name r)) s) id"
    by (auto simp: runs_def fun_eq_iff)
  from runs_trans [OF this Cons.IH] show ?case by (simp add: collect_garbage_def)
qed (simp add: collect_garbage_def runs_same)

lemma publish_runs:
  "runs dels s (publish env old d refs s)
     (remove_ids {x \<in> ref_id ` set (findOrphanedReferences (inventory s) refs). dels x})"
proof -
  let ?o = "findOrphanedReferences (inventory s) refs"
  let ?s1 = "if ?o \<noteq> [] then finalizeExternalArtifacts ?o s else s"
  have "runs dels s ?s1 (remove_ids {x \<in> ref_id ` set ?o. dels x})"
    using finalize_runs [of dels s ?o] by (auto simp: finalizeExternalArtifacts_def)
  from runs_trans [OF this garbage_runs] have g:
    "runs dels s (collect_garbage refs ?s1) (remove_ids {x \<in> ref_id ` set ?o. dels x})" by simp
  let ?s2 = "collect_garbage refs ?s1"
  let ?s3 = "?s2\<lparr>rs_obj := rs_obj ?s2\<lparr>mg_status := (mg_status (rs_obj ?s2))
    \<lparr>st_inventory := refs, st_observedSourcesDigest := d, st_observedGeneration := mg_generation (rs_obj ?s2)\<rparr>\<rparr>\<rparr>"
  let ?s5 = "emit (Event ''Trace'' ReadyCondition) (on_conds (k_mark (rv_cond env) ''True'' ReadyCondition SucceededReason) ?s3)"
  have p: "publish env old d refs s = notify old refs ?s5"
    by (simp add: publish_def Let_def inventory_def)
  have "runs dels u (notify old refs u) id" for u by (auto simp: notify_def runs_def fun_eq_iff)
  moreover have "runs dels ?s2 ?s5 id" by (auto simp: runs_def fun_eq_iff)
  ultimately have "runs dels ?s2 (publish env old d refs s) id" unfolding p using runs_trans by fastforce
  from runs_trans [OF g this] show ?thesis by simp
qed

section \<open>The cluster after a reconcile\<close>

lemma started_runs: "started env s s1 \<Longrightarrow> runs dels s s1 id"
  by (auto simp: started_def runs_def fun_eq_iff)

text \<open>A successful reconcile, as a function on clusters: all artifacts are written, then the orphans go.\<close>

lemma reconcile_runs:
  assumes "cond_ok (rv_cond env)" and "reconcile env s = (out, s')" and "succeeded env out s'"
  shows "\<exists>tmpDir remote dirs ws vals outs as refs. MkdirTempAbs env = Inr tmpDir \<and>
    evaluated env (rs_obj s) tmpDir remote dirs ws vals outs \<and>
    list_all2 (built_artifact env dirs (template_data outs vals) (mg_namespace (rs_obj s)) tmpDir ws remote)
      (sp_artifacts (mg_spec (rs_obj s))) as \<and>
    map ref_id refs = artifact_ids (rs_obj s) \<and>
    runs dels s s' (\<lambda>c. remove_ids {x \<in> ref_id ` set (findOrphanedReferences (inventory s) refs). dels x}
      (c(artifact_ids (rs_obj s) [\<mapsto>] map (published_entry env (rs_obj s)) as)))"
  using assms(1,2)
proof (cases rule: reconcile_cases)
  case (published s1 tmpDir remote dirs ws vals outs refs s2)
  let ?f = "build_one env dirs (template_data outs vals) tmpDir ws remote"
  from published(1) have s1: "started env s s1" and tmp: "MkdirTempAbs env = Inr tmpDir"
    and ev: "evaluated env (rs_obj s1) tmpDir remote dirs ws vals outs"
    and l: "loopE ?f (sp_artifacts (mg_spec (rs_obj s1))) ([], s1) = Inr (refs, s2)" by (simp_all add: stages_def)
  from started_facts [OF s1] have o: "mg_spec (rs_obj s1) = mg_spec (rs_obj s)"
    "mg_namespace (rs_obj s1) = mg_namespace (rs_obj s)" "inventory s1 = inventory s" by simp_all
  have "published_entry env (rs_obj s1) = published_entry env (rs_obj s)"
    by (rule ext) (simp add: published_entry_def started_owner [OF s1])
  from build_all_runs [OF l, of dels, unfolded this o(1,2)] obtain as where as:
    "list_all2 (built_artifact env dirs (template_data outs vals) (mg_namespace (rs_obj s)) tmpDir ws remote)
      (sp_artifacts (mg_spec (rs_obj s))) as"
    "runs dels s1 s2 (\<lambda>c. c(artifact_ids (rs_obj s) [\<mapsto>] map (published_entry env (rs_obj s)) as))"
    by (auto simp: artifact_ids_def)
  from build_all_Inr [OF l] have ids: "map ref_id refs = artifact_ids (rs_obj s)" "inventory s2 = inventory s"
    using o by (simp_all add: artifact_ids_def inventory_def)
  have "runs dels s2 s' (remove_ids {x \<in> ref_id ` set (findOrphanedReferences (inventory s) refs). dels x})"
    using publish_runs [of dels s2 env "rs_obj s" _ refs] published(3) ids(2) by metis
  from runs_trans [OF runs_trans [OF started_runs [OF s1] as(2)] this]
  have "runs dels s s' (\<lambda>c. remove_ids {x \<in> ref_id ` set (findOrphanedReferences (inventory s) refs). dels x}
      (c(artifact_ids (rs_obj s) [\<mapsto>] map (published_entry env (rs_obj s)) as)))" by (simp add: comp_def)
  then show ?thesis using tmp ev evaluated_cong [OF o(1,2)] as(1) ids(1) by blast
qed (use assms(3) in blast)

lemma map_upds_nth:
  "distinct xs \<Longrightarrow> length ys = length xs \<Longrightarrow> i < length xs \<Longrightarrow> (c(xs [\<mapsto>] ys)) (xs ! i) = Some (ys ! i)"
proof (induction xs arbitrary: c ys i)
  case (Cons x xs)
  then show ?case by (cases ys; cases i) auto
qed simp

lemma map_upds_mem:
  "x \<in> set xs \<Longrightarrow> length ys = length xs \<Longrightarrow> \<exists>y \<in> set ys. (c(xs [\<mapsto>] ys)) x = Some y"
proof (induction xs arbitrary: c ys)
  case (Cons z xs)
  then obtain y ys' where ys: "ys = y # ys'" by (cases ys) auto
  show ?case
  proof (cases "x \<in> set xs")
    case True
    then show ?thesis using Cons ys by auto
  next
    case False
    then show ?thesis using Cons.prems ys by auto
  qed
qed simp

lemma orphan_iff:
  assumes "slash_free (ear_namespace r)" and "\<forall>q \<in> set refs. slash_free (ear_namespace q)"
  shows "r \<in> set (findOrphanedReferences old refs) \<longleftrightarrow> r \<in> set old \<and> ref_id r \<notin> ref_id ` set refs"
proof -
  have "ref_key r = ref_key q \<longleftrightarrow> ref_id r = ref_id q" if "q \<in> set refs" for q
    using that assms first_sep_unique [of "CHR ''/''" "ear_namespace r" "ear_namespace q"]
    by (auto simp: ref_key_def ref_id_def slash_free_def)
  then show ?thesis unfolding findOrphaned_iff by blast
qed

text \<open>With slash-free namespaces and a server that accepts deletions, the effect is a function of the ids alone.\<close>

definition clean_inventory :: "(string \<times> string \<Rightarrow> bool) \<Rightarrow> rstate \<Rightarrow> bool" where
  "clean_inventory dels s \<longleftrightarrow> rs_trace s = [] \<and> slash_free (mg_namespace (rs_obj s)) \<and>
     (\<forall>r \<in> set (inventory s). dels (ref_id r) \<and> slash_free (ear_namespace r))"

lemma reconcile_cluster:
  assumes "cond_ok (rv_cond env)" and "reconcile env s = (out, s')" and "succeeded env out s'"
    and "clean_inventory dels s"
  shows "\<exists>tmpDir remote dirs ws vals outs as.
    evaluated env (rs_obj s) tmpDir remote dirs ws vals outs \<and>
    list_all2 (built_artifact env dirs (template_data outs vals) (mg_namespace (rs_obj s)) tmpDir ws remote)
      (sp_artifacts (mg_spec (rs_obj s))) as \<and>
    exec_calls dels (rs_trace s') = (\<lambda>c. remove_ids (ref_id ` set (inventory s) - set (artifact_ids (rs_obj s)))
      (c(artifact_ids (rs_obj s) [\<mapsto>] map (published_entry env (rs_obj s)) as)))"
proof -
  let ?ids = "artifact_ids (rs_obj s)"
  from reconcile_runs [OF assms(1-3), of dels] obtain tmpDir remote dirs ws vals outs as refs where
    ev: "evaluated env (rs_obj s) tmpDir remote dirs ws vals outs"
    and as: "list_all2 (built_artifact env dirs (template_data outs vals) (mg_namespace (rs_obj s)) tmpDir ws remote)
      (sp_artifacts (mg_spec (rs_obj s))) as"
    and ids: "map ref_id refs = ?ids"
    and r: "runs dels s s' (\<lambda>c. remove_ids {x \<in> ref_id ` set (findOrphanedReferences (inventory s) refs). dels x}
      (c(?ids [\<mapsto>] map (published_entry env (rs_obj s)) as)))" by blast
  have set_ids: "set ?ids = ref_id ` set refs" using arg_cong [OF ids, of set] by simp
  have ns: "ear_namespace q = mg_namespace (rs_obj s)" if "q \<in> set refs" for q
  proof -
    from that set_ids have "ref_id q \<in> set ?ids" by blast
    then show ?thesis by (auto simp: ref_id_def artifact_ids_def)
  qed
  let ?D = "{x \<in> ref_id ` set (findOrphanedReferences (inventory s) refs). dels x}"
  have "q \<in> set (findOrphanedReferences (inventory s) refs) \<longleftrightarrow> q \<in> set (inventory s) \<and> ref_id q \<notin> set ?ids" for q
  proof (cases "q \<in> set (inventory s)")
    case True
    have "slash_free (ear_namespace q)" "\<forall>q \<in> set refs. slash_free (ear_namespace q)"
      using True assms(4) ns by (simp_all add: clean_inventory_def)
    from orphan_iff [OF this, of "inventory s"] show ?thesis unfolding set_ids .
  next
    case False
    then show ?thesis by (simp add: findOrphaned_iff)
  qed
  then have "set (findOrphanedReferences (inventory s) refs) = {q \<in> set (inventory s). ref_id q \<notin> set ?ids}" by blast
  moreover have "\<forall>q \<in> set (inventory s). dels (ref_id q)" using assms(4) by (simp add: clean_inventory_def)
  ultimately have "?D = ref_id ` set (inventory s) - set ?ids" by (simp only:) blast
  with r have "exec_calls dels (rs_trace s') = (\<lambda>c. remove_ids (ref_id ` set (inventory s) - set ?ids)
      (c(?ids [\<mapsto>] map (published_entry env (rs_obj s)) as)))"
    using assms(4) by (auto simp: runs_def clean_inventory_def)
  with ev as show ?thesis by blast
qed

lemma distinct_ids: "distinct (map ma_name (sp_artifacts (mg_spec obj))) \<Longrightarrow> distinct (artifact_ids obj)"
  by (simp add: artifact_ids_def distinct_map inj_on_def)

text \<open>
  C1. The cluster after a successful reconcile of an object with distinct artifact names: for every artifact
  of the spec it holds an ExternalArtifact with the labels of the object and the archive that was built
  from the sources, values and pipeline of this reconcile; what the inventory listed and the spec no
  longer names is gone, when the server accepts the deletions; every other ExternalArtifact, of
  this or another namespace, is as it was.
\<close>

theorem cluster_after_success:
  assumes "cond_ok (rv_cond env)" and "reconcile env s = (out, s')" and "succeeded env out s'"
    and "clean_inventory dels s" and "distinct (map ma_name (sp_artifacts (mg_spec (rs_obj s))))"
  shows "\<exists>tmpDir remote dirs ws vals outs as.
    evaluated env (rs_obj s) tmpDir remote dirs ws vals outs \<and>
    list_all2 (\<lambda>spec a. \<exists>b. Build (rv_bld env) spec dirs (template_data outs vals) (mg_namespace (rs_obj s)) tmpDir ws = Inr b \<and>
      a = setArtifactRevisions spec remote b) (sp_artifacts (mg_spec (rs_obj s))) as \<and>
    (\<forall>i < length as. exec_calls dels (rs_trace s') c (artifact_ids (rs_obj s) ! i) =
       Some \<lparr>cl_object = external_artifact env (rs_obj s), cl_artifact = Some (as ! i)\<rparr>) \<and>
    (\<forall>x. x \<notin> set (artifact_ids (rs_obj s)) \<longrightarrow>
       exec_calls dels (rs_trace s') c x = (if x \<in> ref_id ` set (inventory s) then None else c x))"
proof -
  let ?ids = "artifact_ids (rs_obj s)"
  from reconcile_cluster [OF assms(1-4)] obtain tmpDir remote dirs ws vals outs as where
    ev: "evaluated env (rs_obj s) tmpDir remote dirs ws vals outs"
    and as: "list_all2 (built_artifact env dirs (template_data outs vals) (mg_namespace (rs_obj s)) tmpDir ws remote)
      (sp_artifacts (mg_spec (rs_obj s))) as"
    and e: "exec_calls dels (rs_trace s') = (\<lambda>c. remove_ids (ref_id ` set (inventory s) - set ?ids)
      (c(?ids [\<mapsto>] map (published_entry env (rs_obj s)) as)))" by blast
  have len: "length as = length ?ids" using list_all2_lengthD [OF as] by (simp add: artifact_ids_def)
  have "exec_calls dels (rs_trace s') c (?ids ! i) =
      Some \<lparr>cl_object = external_artifact env (rs_obj s), cl_artifact = Some (as ! i)\<rparr>" if "i < length as" for i
    using that len map_upds_nth [OF distinct_ids [OF assms(5)], of "map (published_entry env (rs_obj s)) as" i c]
    unfolding e by (simp add: remove_ids_def published_entry_def)
  moreover have "exec_calls dels (rs_trace s') c x = (if x \<in> ref_id ` set (inventory s) then None else c x)"
    if "x \<notin> set ?ids" for x
    using that unfolding e by (simp add: remove_ids_def)
  ultimately show ?thesis using ev as unfolding built_artifact_def by blast
qed

lemma sample_clean: "clean_inventory (\<lambda>_. True) (sample_state (sample_obj names [Finalizer] [''old'']))"
  by (simp add: clean_inventory_def sample_state_def sample_obj_def sample_ref_def slash_free_def inventory_def)

definition sample_entry :: cluster_entry where
  "sample_entry = \<lparr>cl_object = \<lparr>ea_labels = [], ea_sourceRef = \<lparr>or_apiVersion = [], or_kind = [], or_name = ''x'',
     or_namespace = []\<rparr>\<rparr>, cl_artifact = None\<rparr>"

lemma sample_ok: "succeeded (sample_rec (sample_obj [''out''] [Finalizer] [''old'']))
    (fst (sample_run [''out''] [''old''])) (snd (sample_run [''out''] [''old'']))"
  by code_simp

theorem cluster_after_success_witness:
  "exec_calls (\<lambda>_. True) (rs_trace (snd (sample_run [''out''] [''old'']))) (\<lambda>_. Some sample_entry) (''apps'', ''old'') = None \<and>
   exec_calls (\<lambda>_. True) (rs_trace (snd (sample_run [''out''] [''old'']))) (\<lambda>_. Some sample_entry) (''other'', ''out'') =
     Some sample_entry"
proof -
  let ?s = "sample_state (sample_obj [''out''] [Finalizer] [''old''])"
  have i: "artifact_ids (rs_obj ?s) = [(''apps'', ''out'')]" "ref_id ` set (inventory ?s) = {(''apps'', ''old'')}"
    by (simp_all add: artifact_ids_def sample_state_def sample_obj_def sample_spec_def sample_artifact_def
        inventory_def sample_ref_def ref_id_def)
  have "distinct (map ma_name (sp_artifacts (mg_spec (rs_obj ?s))))"
    by (simp add: sample_state_def sample_obj_def sample_spec_def)
  from cluster_after_success [OF sample_rec_cond sample_run_eq sample_ok sample_clean this, of "\<lambda>_. Some sample_entry"]
  show ?thesis unfolding i by force
qed

section \<open>Two generators with one artifact name\<close>

text \<open>
  C10. Nothing ties a deletion to the owner of the object. When two generators of a namespace name the same
  artifact, finalizing one of them deletes the ExternalArtifact that the other has just published:
  afterwards it is missing from the cluster while the inventory of its owner still lists it.
\<close>

theorem finalize_deletes_foreign_artifact:
  assumes "cond_ok (rv_cond env)" and "reconcile env b = (out, b')" and "succeeded env out b'"
    and "clean_inventory dels b" and "rs_trace a = []"
    and "x \<in> set (artifact_ids (rs_obj b))" and "x \<in> ref_id ` set (inventory a)" and "dels x"
  shows "x \<in> ref_id ` set (inventory b') \<and>
    (\<exists>art. exec_calls dels (rs_trace b') c x = Some \<lparr>cl_object = external_artifact env (rs_obj b), cl_artifact = Some art\<rparr>) \<and>
    exec_calls dels (rs_trace b' @ rs_trace (finalize a)) c x = None"
proof -
  from reconcile_outcome [OF assms(1,2)] assms(3) obtain d refs s2 where
    "b' = publish env (rs_obj b) d refs s2" "map ref_id refs = artifact_ids (rs_obj b)" by blast
  then have "map ref_id (inventory b') = artifact_ids (rs_obj b)" using publish_facts [OF assms(1)] by simp
  then have inv: "x \<in> ref_id ` set (inventory b')" using assms(6) by (metis list.set_map)
  from reconcile_cluster [OF assms(1-4)] obtain as specs where
    len: "length as = length (artifact_ids (rs_obj b))" and
    e: "exec_calls dels (rs_trace b') c = remove_ids (ref_id ` set (inventory b) - set (artifact_ids (rs_obj b)))
      (c(artifact_ids (rs_obj b) [\<mapsto>] map (published_entry env (rs_obj b)) as))"
    by (fastforce simp: artifact_ids_def dest: list_all2_lengthD)
  obtain art where "(c(artifact_ids (rs_obj b) [\<mapsto>] map (published_entry env (rs_obj b)) as)) x =
      Some (published_entry env (rs_obj b) art)"
    using map_upds_mem [OF assms(6), of "map (published_entry env (rs_obj b)) as" c] len by auto
  then have "exec_calls dels (rs_trace b') c x = Some (published_entry env (rs_obj b) art)"
    using assms(6) unfolding e by (simp add: remove_ids_def)
  moreover have "runs dels a (finalize a) (remove_ids {x \<in> ref_id ` set (inventory a). dels x})"
    using finalize_runs [of dels a "inventory a"] by (simp add: finalize_def runs_def Let_def inventory_def)
  then have "exec_calls dels (rs_trace (finalize a)) = remove_ids {x \<in> ref_id ` set (inventory a). dels x}"
    using assms(5) by (auto simp: runs_def)
  then have "exec_calls dels (rs_trace b' @ rs_trace (finalize a)) c x = None"
    using assms(7,8) by (simp add: remove_ids_def)
  ultimately show ?thesis using inv by (auto simp: published_entry_def)
qed

theorem finalize_deletes_foreign_artifact_witness:
  "exec_calls (\<lambda>_. True) (rs_trace (snd (sample_run [''out''] [''old''])) @
     rs_trace (finalize (sample_state (sample_obj [] [Finalizer] [''out''])))) (\<lambda>_. None) (''apps'', ''out'') = None"
proof -
  have "(''apps'', ''out'') \<in> set (artifact_ids (rs_obj (sample_state (sample_obj [''out''] [Finalizer] [''old'']))))"
    "(''apps'', ''out'') \<in> ref_id ` set (inventory (sample_state (sample_obj [] [Finalizer] [''out''])))"
    "rs_trace (sample_state (sample_obj [] [Finalizer] [''out''])) = []"
    by (simp_all add: artifact_ids_def sample_state_def sample_obj_def sample_spec_def sample_artifact_def
        inventory_def sample_ref_def ref_id_def)
  with finalize_deletes_foreign_artifact [OF sample_rec_cond sample_run_eq sample_ok sample_clean] show ?thesis by simp
qed

end
