(* ===== verification/Lifecycle.thy ===== *)
theory Lifecycle
  imports Reconciler
begin

text \<open>
  The entry point \<open>Reconcile\<close> (\<open>internal/controller/manifestgenerator_controller.go\<close>) seen from outside:
  when it may write to the cluster and what it may delete, and the life of one ManifestGenerator under
  any sequence of edits, deletions and reconciles, as a transition system over the stored object and
  the calls made so far.
\<close>

section \<open>Frames of the steps\<close>

text \<open>What every step keeps of the fields that matter for the life of the object.\<close>

definition frame :: "rstate \<Rightarrow> rstate \<Rightarrow> bool" where
  "frame s s' \<longleftrightarrow> inventory s' = inventory s \<and> mg_finalizers (rs_obj s') = mg_finalizers (rs_obj s) \<and>
     mg_deleting (rs_obj s') = mg_deleting (rs_obj s) \<and>
     applied (rs_trace s') = applied (rs_trace s) \<and> deleted (rs_trace s') = deleted (rs_trace s)"

lemma frame_refl [simp]: "frame s s"
  by (simp add: frame_def)

lemma frame_trans: "frame s s' \<Longrightarrow> frame s' s'' \<Longrightarrow> frame s s''"
  by (simp add: frame_def)

lemma frame_on_conds [simp]: "frame s (on_conds f s)"
  by (simp add: frame_def inventory_def)

lemma frame_SetLast [simp]: "frame s (s\<lparr>rs_obj := SetLastHandledReconcileAt (rs_obj s) v\<rparr>)"
  by (simp add: frame_def inventory_def SetLastHandledReconcileAt_def)

lemma frame_patchStatus: "frame s (snd (patchStatus env loc s))"
  by (simp add: frame_def inventory_def patchStatus_def split: option.split)

lemma frame_summarizeStatus: "summarizeStatus env s = (e, s') \<Longrightarrow> frame s s'"
proof -
  define s1 where "s1 = (case ce_annotation env (mg_annotations (rs_obj s)) of
    None \<Rightarrow> s | Some v \<Rightarrow> s\<lparr>rs_obj := SetLastHandledReconcileAt (rs_obj s) v\<rparr>)"
  define s2 where "s2 = (case obj_get (ce_cond env) (rs_obj s1) ReconcilingCondition of
      Some rc \<Rightarrow> if has_status (ce_cond env) (rs_obj s1) ReadyCondition ''False'' then
        on_conds (k_set (ce_cond env) (rc\<lparr>c_reason := ProgressingWithRetryReason\<rparr>)) s1 else s1
    | None \<Rightarrow> s1)"
  define s3 where "s3 = (if has_status (ce_cond env) (rs_obj s2) ReadyCondition ''True'' \<or>
      has_status (ce_cond env) (rs_obj s2) StalledCondition ''True''
    then on_conds (k_delete (ce_cond env) ReconcilingCondition) s2 else s2)"
  have "frame s s1" by (simp add: s1_def split: option.split)
  moreover have "frame s1 s2" by (simp add: s2_def split: option.split)
  moreover have "frame s2 s3" by (simp add: s3_def)
  ultimately have f: "frame s s3" using frame_trans by blast
  assume "summarizeStatus env s = (e, s')"
  moreover have "summarizeStatus env s = patchStatus env ''summary'' s3"
    unfolding summarizeStatus_def Let_def s1_def [symmetric] s2_def [symmetric] s3_def [symmetric] ..
  ultimately have "s' = snd (patchStatus env ''summary'' s3)" by simp
  then show "frame s s'" using f frame_patchStatus frame_trans by blast
qed

text \<open>What a reconcile may change.\<close>

definition ids :: "rstate \<Rightarrow> (string \<times> string) set" where
  "ids s = ref_id ` set (inventory s)"

definition evolves :: "rstate \<Rightarrow> rstate \<Rightarrow> bool" where
  "evolves s s' \<longleftrightarrow> mg_deleting (rs_obj s') = mg_deleting (rs_obj s) \<and>
     (\<exists>new. applied (rs_trace s') = applied (rs_trace s) @ new \<and> ids s' \<subseteq> ids s \<union> set new \<and>
        set new \<subseteq> set (artifact_ids (rs_obj s))) \<and>
     (\<exists>gone. deleted (rs_trace s') = deleted (rs_trace s) @ gone \<and> set gone \<subseteq> ids s)"

lemma frame_evolves: "frame s s' \<Longrightarrow> evolves s s'"
  by (simp add: frame_def evolves_def ids_def)

lemma evolves_frame: "evolves s s' \<Longrightarrow> frame s' s'' \<Longrightarrow> evolves s s''"
  by (simp add: frame_def evolves_def ids_def)

lemma failed_from_evolves: "failed_from s s' \<Longrightarrow> evolves s s' \<and> mg_finalizers (rs_obj s') = mg_finalizers (rs_obj s)"
  by (auto simp: failed_from_def evolves_def ids_def dest: in_set_takeD)

lemma reconcile_evolves:
  assumes "cond_ok (rv_cond env)" and "reconcile env s = (out, s')"
  shows "evolves s s' \<and> mg_finalizers (rs_obj s') = mg_finalizers (rs_obj s)"
proof -
  from reconcile_outcome [OF assms] consider "failed_from s s'"
    | d refs s2 where "s' = publish env (rs_obj s) d refs s2" "inventory s2 = inventory s"
      "map ref_id refs = artifact_ids (rs_obj s)"
      "mg_finalizers (rs_obj s2) = mg_finalizers (rs_obj s)" "mg_deleting (rs_obj s2) = mg_deleting (rs_obj s)"
      "applied (rs_trace s2) = applied (rs_trace s) @ map ref_id refs" "deleted (rs_trace s2) = deleted (rs_trace s)"
    by blast
  then show ?thesis
  proof cases
    case 1
    then show ?thesis by (rule failed_from_evolves)
  next
    case 2
    note f = publish_facts [OF assms(1), of "rs_obj s" d refs s2, folded 2(1)]
    have "ref_id ` set (findOrphanedReferences (inventory s) refs) \<subseteq> ids s"
      by (auto simp: findOrphaned_iff ids_def)
    moreover have "set (artifact_ids (rs_obj s)) = ref_id ` set refs" by (simp flip: 2(3))
    ultimately show ?thesis using f 2 by (auto simp: evolves_def ids_def)
  qed
qed

lemma finalize_facts:
  "evolves s (finalize s) \<and> applied (rs_trace (finalize s)) = applied (rs_trace s) \<and>
   inventory (finalize s) = inventory s \<and> set (deleted (rs_trace (finalize s))) = set (deleted (rs_trace s)) \<union> ids s \<and>
   Finalizer \<notin> set (mg_finalizers (rs_obj (finalize s)))"
  using finalizeExternalArtifacts_trace [of "st_inventory (mg_status (rs_obj s))" s, THEN conjunct2]
  by (simp add: finalize_def Let_def finalize_trace evolves_def ids_def inventory_def)

lemma addFinalizer_facts:
  "frame s ((addFinalizer env s)\<lparr>rs_obj := (rs_obj (addFinalizer env s))\<lparr>mg_finalizers := mg_finalizers (rs_obj s)\<rparr>\<rparr>) \<and>
   Finalizer \<in> set (mg_finalizers (rs_obj (addFinalizer env s)))"
  by (auto simp: frame_def addFinalizer_def Let_def inventory_def)

section \<open>Dispatch\<close>

text \<open>The state in which the controller may create or change ExternalArtifacts.\<close>

definition active :: "rec_env \<Rightarrow> ManifestGenerator \<Rightarrow> bool" where
  "active env obj \<longleftrightarrow> \<not> mg_deleting obj \<and> Finalizer \<in> set (mg_finalizers obj) \<and> \<not> IsDisabled obj \<and>
     validateSpec (rv_val env) obj = Inr ()"

lemma dispatch_cases:
  assumes "dispatch env s = (out, s')"
  obtains "mg_deleting (rs_obj s)" "s' = finalize s"
    | "\<not> mg_deleting (rs_obj s)" "Finalizer \<notin> set (mg_finalizers (rs_obj s))" "s' = addFinalizer (rv_ctl env) s"
    | "\<not> mg_deleting (rs_obj s)" "Finalizer \<in> set (mg_finalizers (rs_obj s))" "frame s s'"
    | "active env (rs_obj s)" "reconcile env s = (out, s')"
proof -
  consider "mg_deleting (rs_obj s)" | "\<not> mg_deleting (rs_obj s)" "Finalizer \<notin> set (mg_finalizers (rs_obj s))"
    | "\<not> mg_deleting (rs_obj s)" "Finalizer \<in> set (mg_finalizers (rs_obj s))" "IsDisabled (rs_obj s)"
    | re where "\<not> mg_deleting (rs_obj s)" "Finalizer \<in> set (mg_finalizers (rs_obj s))" "\<not> IsDisabled (rs_obj s)"
      "validateSpec (rv_val env) (rs_obj s) = Inl re"
    | "active env (rs_obj s)"
    by (cases "validateSpec (rv_val env) (rs_obj s)") (auto simp: active_def)
  then show thesis
  proof cases
    case 1
    then show thesis using that(1) assms by (simp add: dispatch_def Let_def)
  next
    case 2
    then show thesis using that(2) assms by (simp add: dispatch_def Let_def)
  next
    case 3
    then have "s' = emit (Event ''Trace'' ReconciliationDisabledReason) s" using assms by (simp add: dispatch_def Let_def)
    then show thesis using that(3) 3 by (simp add: frame_def inventory_def)
  next
    case 4
    obtain reason err where re: "re = (reason, err)" by (cases re)
    obtain e where "newTerminalErrorFor (rv_ctl env) reason err s = (e, s')"
      using assms 4 re by (auto simp: dispatch_def Let_def split: prod.splits)
    from newTerminal_facts [OF this] show thesis using that(3) 4 by (simp add: frame_def)
  next
    case 5
    then show thesis using that(4) assms by (simp add: dispatch_def Let_def active_def)
  qed
qed

lemma dispatch_evolves:
  assumes "cond_ok (rv_cond env)" and "dispatch env s = (out, s')"
  shows "evolves s s' \<and> (applied (rs_trace s') \<noteq> applied (rs_trace s) \<longrightarrow> active env (rs_obj s)) \<and>
    (Finalizer \<in> set (mg_finalizers (rs_obj s)) \<longrightarrow> Finalizer \<notin> set (mg_finalizers (rs_obj s')) \<longrightarrow>
       mg_deleting (rs_obj s) \<and> inventory s' = inventory s \<and> ids s \<subseteq> set (deleted (rs_trace s')))"
  using assms(2)
proof (cases rule: dispatch_cases)
  case 1
  then show ?thesis using finalize_facts [of s] by auto
next
  case 2
  have "evolves s s'"
    using addFinalizer_facts [of s "rv_ctl env"] unfolding 2(3) frame_def evolves_def ids_def inventory_def by auto
  then show ?thesis using 2 addFinalizer_facts [of s "rv_ctl env"] by (auto simp: frame_def)
next
  case 3
  then show ?thesis using frame_evolves by (auto simp: frame_def)
next
  case 4
  then show ?thesis using reconcile_evolves [OF assms(1) 4(2)] by auto
qed

section \<open>The entry point\<close>

lemma Reconcile_Some:
  assumes "Reconcile env = (out, Some s')"
  obtains obj out1 s1 e where "rv_get env = Inr obj" "dispatch env \<lparr>rs_obj = obj, rs_trace = []\<rparr> = (out1, s1)"
    "summarizeStatus (rv_ctl env) s1 = (e, s')"
proof (cases "rv_get env")
  case (Inr obj)
  obtain requeue errs s1 where d: "dispatch env \<lparr>rs_obj = obj, rs_trace = []\<rparr> = ((requeue, errs), s1)"
    by (metis surj_pair)
  obtain e s2 where z: "summarizeStatus (rv_ctl env) s1 = (e, s2)" by fastforce
  have "s2 = s'" using assms by (cases e) (simp_all add: Reconcile_def Inr d z)
  then show thesis using that Inr d z by blast
qed (use assms in \<open>simp add: Reconcile_def\<close>)

lemma Reconcile_evolves:
  assumes "cond_ok (rv_cond env)" and "Reconcile env = (out, Some s')" and "rv_get env = Inr obj"
  shows "evolves (sample_state obj) s' \<and> (applied (rs_trace s') \<noteq> [] \<longrightarrow> active env obj) \<and>
    (Finalizer \<in> set (mg_finalizers obj) \<longrightarrow> Finalizer \<notin> set (mg_finalizers (rs_obj s')) \<longrightarrow>
       mg_deleting obj \<and> inventory s' = st_inventory (mg_status obj) \<and>
       ref_id ` set (st_inventory (mg_status obj)) \<subseteq> set (deleted (rs_trace s')))"
proof -
  from Reconcile_Some [OF assms(2)] obtain obj' out1 s1 e where "rv_get env = Inr obj'"
    "dispatch env \<lparr>rs_obj = obj', rs_trace = []\<rparr> = (out1, s1)" "summarizeStatus (rv_ctl env) s1 = (e, s')" .
  then have d: "dispatch env (sample_state obj) = (out1, s1)" "summarizeStatus (rv_ctl env) s1 = (e, s')"
    using assms(3) by (simp_all add: sample_state_def)
  have f: "frame s1 s'" by (rule frame_summarizeStatus [OF d(2)])
  have z: "rs_obj (sample_state obj) = obj" "rs_trace (sample_state obj) = []"
    "inventory (sample_state obj) = st_inventory (mg_status obj)"
    by (simp_all add: sample_state_def inventory_def)
  have e: "evolves (sample_state obj) s'"
    using dispatch_evolves [OF assms(1) d(1)] evolves_frame f by blast
  have a: "applied (rs_trace s') \<noteq> [] \<longrightarrow> active env obj"
    using dispatch_evolves [OF assms(1) d(1)] f z by (simp add: frame_def)
  have g: "Finalizer \<in> set (mg_finalizers obj) \<longrightarrow> Finalizer \<notin> set (mg_finalizers (rs_obj s')) \<longrightarrow>
      mg_deleting obj \<and> inventory s' = st_inventory (mg_status obj) \<and>
      ref_id ` set (st_inventory (mg_status obj)) \<subseteq> set (deleted (rs_trace s'))"
    using dispatch_evolves [OF assms(1) d(1)] f z by (simp add: frame_def ids_def)
  from e a g show ?thesis by blast
qed

text \<open>
  C7. The guards of the controller: a call of \<open>Reconcile\<close> that applies any ExternalArtifact found an object
  that is not being deleted, carries the finalizer, is neither suspended nor disabled, and whose spec
  passed validation. In every other case the cluster sees no artifact.
\<close>

theorem Reconcile_writes_guarded:
  assumes "cond_ok (rv_cond env)" and "Reconcile env = (out, Some s')" and "applied (rs_trace s') \<noteq> []"
  shows "\<exists>obj. rv_get env = Inr obj \<and> \<not> mg_deleting obj \<and> Finalizer \<in> set (mg_finalizers obj) \<and>
    \<not> sp_suspend (mg_spec obj) \<and> \<not> IsDisabled obj \<and> validateSpec (rv_val env) obj = Inr ()"
proof -
  obtain obj where "rv_get env = Inr obj" using Reconcile_Some [OF assms(2)] by metis
  then show ?thesis
    using Reconcile_evolves [OF assms(1,2)] assms(3) by (auto simp: active_def IsDisabled_def)
qed

theorem Reconcile_writes_guarded_witness:
  "applied (rs_trace (the (snd (Reconcile (sample_rec (sample_obj [''out''] [Finalizer] [])))))) \<noteq> [] \<and>
   validateSpec sample_val (sample_obj [''out''] [Finalizer] []) = Inr ()"
proof -
  let ?env = "sample_rec (sample_obj [''out''] [Finalizer] [])"
  have a: "applied (rs_trace (the (snd (Reconcile ?env)))) \<noteq> []" by code_simp
  have "snd (Reconcile ?env) \<noteq> None" by code_simp
  then have "Reconcile ?env = (fst (Reconcile ?env), Some (the (snd (Reconcile ?env))))" by simp
  from a Reconcile_writes_guarded [OF sample_rec_cond this a] show ?thesis by (auto simp: sample_rec_def)
qed

text \<open>
  The controller deletes only what the object's own inventory lists: no call of \<open>Reconcile\<close>, in a
  garbage collection of orphans or in a finalization, deletes an ExternalArtifact outside it.
\<close>

theorem Reconcile_deletes_inventory_only:
  assumes "cond_ok (rv_cond env)" and "Reconcile env = (out, Some s')" and "rv_get env = Inr obj"
  shows "set (deleted (rs_trace s')) \<subseteq> ref_id ` set (st_inventory (mg_status obj))"
  using Reconcile_evolves [OF assms] by (auto simp: evolves_def ids_def sample_state_def inventory_def)

theorem Reconcile_deletes_inventory_only_witness:
  "set (deleted (rs_trace (the (snd (Reconcile (sample_rec
     ((sample_obj [''out''] [Finalizer] [''old''])\<lparr>mg_deleting := True\<rparr>))))))) \<subseteq> {(''apps'', ''old'')}"
proof -
  let ?env = "sample_rec ((sample_obj [''out''] [Finalizer] [''old''])\<lparr>mg_deleting := True\<rparr>)"
  have "snd (Reconcile ?env) \<noteq> None" by code_simp
  then have "Reconcile ?env = (fst (Reconcile ?env), Some (the (snd (Reconcile ?env))))" by simp
  from Reconcile_deletes_inventory_only [OF sample_rec_cond this] show ?thesis
    by (simp add: sample_rec_def sample_obj_def sample_ref_def ref_id_def)
qed

section \<open>The status at the end\<close>

text \<open>
  C26. Every call of \<open>Reconcile\<close> that finds its object, whatever way it takes, ends with one status patch as
  its last call. The object it writes has no \<open>Reconciling\<close> condition when it is ready or stalled; when
  \<open>Ready\<close> is false, a \<open>Reconciling\<close> condition that is there says \<open>ProgressingWithRetry\<close>; every other
  condition is as the rest of the call left it. When the patch is accepted the outcome is that of the rest
  of the call, and when it is refused for an object that is not being deleted, its error is returned too.
\<close>

theorem Reconcile_status_normal_form:
  assumes "cond_ok (rv_cond env)" and "Reconcile env = (out, Some s')" and "rv_get env = Inr obj"
  shows "let lib = rv_cond env; obj' = rs_obj s' in
    (has_status lib obj' ReadyCondition ''True'' \<or> has_status lib obj' StalledCondition ''True'' \<longrightarrow>
       obj_get lib obj' ReconcilingCondition = None) \<and>
    (has_status lib obj' ReadyCondition ''False'' \<and> obj_get lib obj' ReconcilingCondition \<noteq> None \<longrightarrow>
       has_reason lib obj' ReconcilingCondition ProgressingWithRetryReason) \<and>
    (\<exists>out1 s1 b. dispatch env \<lparr>rs_obj = obj, rs_trace = []\<rparr> = (out1, s1) \<and>
       rs_trace s' = rs_trace s1 @ [PatchStatus obj' b] \<and>
       (\<forall>t. t \<noteq> ReconcilingCondition \<longrightarrow> obj_get lib obj' t = obj_get lib (rs_obj s1) t) \<and>
       (if b then out = out1 else mg_deleting obj \<or> (\<exists>err. out = (fst out1, snd out1 @ [err]))))"
proof -
  obtain requeue errs s1 where d: "dispatch env \<lparr>rs_obj = obj, rs_trace = []\<rparr> = ((requeue, errs), s1)"
    by (metis surj_pair)
  obtain e s2 where z: "summarizeStatus (rv_ctl env) s1 = (e, s2)" by fastforce
  have s2: "s2 = s'" "out = (requeue, errs @ (case e of None \<Rightarrow> [] | Some err \<Rightarrow> [err]))"
    using assms(2) by (cases e; simp add: Reconcile_def assms(3) d z)+
  note n = summarizeStatus_normal_form [OF assms(1), of s1, unfolded z Let_def, simplified, unfolded s2(1)]
  have del: "mg_deleting (rs_obj s') = mg_deleting obj"
    using dispatch_evolves [OF assms(1) d] frame_summarizeStatus [OF z] s2(1) by (simp add: evolves_def frame_def)
  obtain b where b: "rs_trace s' = rs_trace s1 @ [PatchStatus (rs_obj s') b]"
    "if b then e = None else mg_deleting obj \<or> e \<noteq> None"
    using summarizeStatus_patch [OF z] unfolding s2(1) del by blast
  have "if b then out = (requeue, errs) else mg_deleting obj \<or> (\<exists>err. out = (fst (requeue, errs), snd (requeue, errs) @ [err]))"
    using b(2) s2(2) by (cases e) auto
  with n d b(1) show ?thesis unfolding Let_def by blast
qed

theorem Reconcile_status_normal_form_witness:
  "\<exists>s' b. snd (Reconcile (sample_rec (sample_obj [''out''] [Finalizer] []))) = Some s' \<and>
    last (rs_trace s') = PatchStatus (rs_obj s') b \<and> obj_get sample_cond (rs_obj s') ReconcilingCondition = None"
proof -
  let ?env = "sample_rec (sample_obj [''out''] [Finalizer] [])"
  have "case snd (Reconcile ?env) of None \<Rightarrow> False | Some s' \<Rightarrow> has_status sample_cond (rs_obj s') ReadyCondition ''True''"
    by code_simp
  then obtain s' where s': "snd (Reconcile ?env) = Some s'" "has_status sample_cond (rs_obj s') ReadyCondition ''True''"
    by (auto split: option.splits)
  then have r: "Reconcile ?env = (fst (Reconcile ?env), Some s')" by (metis prod.collapse)
  have c: "rv_cond ?env = sample_cond" and g: "rv_get ?env = Inr (sample_obj [''out''] [Finalizer] [])"
    by (simp_all add: sample_rec_def sample_ctl_def)
  show ?thesis
    using Reconcile_status_normal_form [OF sample_rec_cond r g] s' unfolding Let_def c by fastforce
qed

section \<open>The life of an object\<close>

text \<open>
  A state is the stored object, every version of it so far, every call made for it, and whether the life
  was orderly. Between two reconciles a user edits the spec, the annotations and the finalizers or asks for
  the deletion. A reconcile runs \<open>Reconcile\<close> on the stored object or on an older version that a cache still
  holds. Of what it patched, the finalizers and the status are stored or lost independently, since they are two
  requests either of which can fail; a patch holds the fields that changed, so the rest of the status may
  be of any origin. The status is written by the controller alone. A life is orderly as long as no
  reconcile worked from an older version and no user removed the finalizer of the controller.
\<close>

definition store :: "bool \<Rightarrow> bool \<Rightarrow> ManifestGeneratorStatus \<Rightarrow> ManifestGenerator \<Rightarrow> ManifestGenerator \<Rightarrow> ManifestGenerator" where
  "store meta status rest old new = old\<lparr>
     mg_finalizers := (if meta then mg_finalizers new else mg_finalizers old),
     mg_status := rest\<lparr>st_inventory := (if status then st_inventory (mg_status new) else st_inventory (mg_status old))\<rparr>\<rparr>"

record life_state =
  lf_obj :: ManifestGenerator
  lf_versions :: "ManifestGenerator set"
  lf_trace :: "call list"
  lf_orderly :: bool

definition next_version :: "ManifestGenerator \<Rightarrow> life_state \<Rightarrow> life_state" where
  "next_version obj s = s\<lparr>lf_obj := obj, lf_versions := insert obj (lf_versions s)\<rparr>"

inductive life_step :: "life_state \<Rightarrow> life_state \<Rightarrow> bool" where
  edit: "orderly = (lf_orderly s \<and> (Finalizer \<in> set (mg_finalizers (lf_obj s)) \<longrightarrow> Finalizer \<in> set fs)) \<Longrightarrow>
    life_step s (next_version ((lf_obj s)\<lparr>mg_spec := spec, mg_annotations := ann, mg_finalizers := fs,
      mg_generation := gen\<rparr>) s\<lparr>lf_orderly := orderly\<rparr>)"
| delete: "life_step s (next_version ((lf_obj s)\<lparr>mg_deleting := True\<rparr>) s)"
| reconcile: "cond_ok (rv_cond env) \<Longrightarrow> obj \<in> lf_versions s \<Longrightarrow> rv_get env = Inr obj \<Longrightarrow>
    Reconcile env = (out, Some s') \<Longrightarrow>
    life_step s (next_version (store meta status rest (lf_obj s) (rs_obj s')) s
      \<lparr>lf_trace := lf_trace s @ rs_trace s', lf_orderly := (lf_orderly s \<and> obj = lf_obj s)\<rparr>)"

inductive life :: "life_state \<Rightarrow> bool" where
  create: "st_inventory (mg_status obj) = [] \<Longrightarrow> \<not> mg_deleting obj \<Longrightarrow>
    life \<lparr>lf_obj = obj, lf_versions = {obj}, lf_trace = [], lf_orderly = True\<rparr>"
| step: "life s \<Longrightarrow> life_step s s' \<Longrightarrow> life s'"

inductive_cases life_stepE [consumes 1, case_names edit delete reconcile]: "life_step s s'"

definition obj_ids :: "ManifestGenerator \<Rightarrow> (string \<times> string) set" where
  "obj_ids obj = ref_id ` set (st_inventory (mg_status obj))"

text \<open>
  The invariant: whatever version is read, its inventory was applied, what was deleted was applied, and in
  an orderly life the finalizer guards both.
\<close>

definition life_inv :: "life_state \<Rightarrow> bool" where
  "life_inv s \<longleftrightarrow> lf_obj s \<in> lf_versions s \<and>
     (\<forall>obj \<in> lf_versions s. obj_ids obj \<subseteq> set (applied (lf_trace s))) \<and>
     set (deleted (lf_trace s)) \<subseteq> set (applied (lf_trace s)) \<and>
     (lf_orderly s \<longrightarrow> Finalizer \<notin> set (mg_finalizers (lf_obj s)) \<longrightarrow> applied (lf_trace s) \<noteq> [] \<longrightarrow>
        mg_deleting (lf_obj s) \<and> obj_ids (lf_obj s) \<subseteq> set (deleted (lf_trace s)))"

lemma store_simps [simp]:
  "mg_deleting (store meta status rest old new) = mg_deleting old"
  "mg_finalizers (store meta status rest old new) = mg_finalizers (if meta then new else old)"
  "obj_ids (store meta status rest old new) = obj_ids (if status then new else old)"
  by (simp_all add: store_def obj_ids_def)

lemma next_version_simps [simp]:
  "lf_obj (next_version obj s) = obj" "lf_versions (next_version obj s) = insert obj (lf_versions s)"
  "lf_trace (next_version obj s) = lf_trace s" "lf_orderly (next_version obj s) = lf_orderly s"
  by (simp_all add: next_version_def)

lemma obj_ids_edit [simp]:
  "obj_ids (obj\<lparr>mg_spec := spec, mg_annotations := ann, mg_finalizers := fs, mg_generation := gen\<rparr>) = obj_ids obj"
  "obj_ids (obj\<lparr>mg_deleting := d\<rparr>) = obj_ids obj"
  by (simp_all add: obj_ids_def)

text \<open>What a reconcile of any version adds to the trace and to the inventory.\<close>

lemma Reconcile_ids:
  assumes "cond_ok (rv_cond env)" and "Reconcile env = (out, Some s')" and "rv_get env = Inr obj"
  shows "obj_ids (rs_obj s') \<subseteq> obj_ids obj \<union> set (applied (rs_trace s'))"
    and "set (deleted (rs_trace s')) \<subseteq> obj_ids obj"
    and "Finalizer \<notin> set (mg_finalizers obj) \<Longrightarrow> applied (rs_trace s') = []"
    and "Finalizer \<in> set (mg_finalizers obj) \<Longrightarrow> Finalizer \<notin> set (mg_finalizers (rs_obj s')) \<Longrightarrow>
      mg_deleting obj \<and> obj_ids (rs_obj s') = obj_ids obj \<and> obj_ids obj \<subseteq> set (deleted (rs_trace s'))"
  using Reconcile_evolves [OF assms]
  by (auto simp: evolves_def ids_def sample_state_def inventory_def obj_ids_def active_def)

text \<open>A fresh reconcile keeps the promise of the finalizer, whatever of it is stored back.\<close>

lemma Reconcile_guarded:
  assumes "cond_ok (rv_cond env)" and "Reconcile env = (out, Some s')" and "rv_get env = Inr obj"
    and "Finalizer \<notin> set (mg_finalizers obj) \<longrightarrow> applied tr \<noteq> [] \<longrightarrow> mg_deleting obj \<and> obj_ids obj \<subseteq> set (deleted tr)"
    and "Finalizer \<notin> set (mg_finalizers (store meta status rest obj (rs_obj s')))" and "applied (tr @ rs_trace s') \<noteq> []"
  shows "mg_deleting obj \<and> obj_ids (store meta status rest obj (rs_obj s')) \<subseteq> set (deleted (tr @ rs_trace s'))"
proof (cases "Finalizer \<in> set (mg_finalizers obj)")
  case True
  then have "Finalizer \<notin> set (mg_finalizers (rs_obj s'))" using assms(5) by (auto split: if_splits)
  from Reconcile_ids(4) [OF assms(1-3) True this] show ?thesis by auto
next
  case False
  have no: "applied (rs_trace s') = []" by (rule Reconcile_ids(3) [OF assms(1-3) False])
  then have "mg_deleting obj \<and> obj_ids obj \<subseteq> set (deleted tr)" using assms(4,6) False by simp
  then show ?thesis using Reconcile_ids(1) [OF assms(1-3)] no by auto
qed

lemma life_step_inv:
  assumes "life_step s t" and "life_inv s"
  shows "life_inv t"
  using assms(1)
proof (cases rule: life_stepE)
  case (edit fs spec ann gen)
  then show ?thesis using assms(2) unfolding life_inv_def by auto
next
  case delete
  then show ?thesis using assms(2) unfolding life_inv_def by auto
next
  case (reconcile env obj out s' meta status rest)
  let ?new = "store meta status rest (lf_obj s) (rs_obj s')"
  note r = Reconcile_ids [OF reconcile(2,5,4)]
  have I: "lf_obj s \<in> lf_versions s" "\<forall>v \<in> lf_versions s. obj_ids v \<subseteq> set (applied (lf_trace s))"
    "set (deleted (lf_trace s)) \<subseteq> set (applied (lf_trace s))"
    using assms(2) by (simp_all add: life_inv_def)
  have v: "obj_ids obj \<subseteq> set (applied (lf_trace s))" "obj_ids (lf_obj s) \<subseteq> set (applied (lf_trace s))"
    using I(1,2) reconcile(3) by blast+
  have "obj_ids ?new \<subseteq> set (applied (lf_trace s @ rs_trace s'))" using r(1) v by auto
  moreover have "set (deleted (lf_trace s @ rs_trace s')) \<subseteq> set (applied (lf_trace s @ rs_trace s'))"
    using r(2) v I(3) by auto
  moreover have "mg_deleting (lf_obj s) \<and> obj_ids ?new \<subseteq> set (deleted (lf_trace s @ rs_trace s'))"
    if "lf_orderly s" "obj = lf_obj s" "Finalizer \<notin> set (mg_finalizers ?new)" "applied (lf_trace s @ rs_trace s') \<noteq> []"
  proof (rule Reconcile_guarded [OF reconcile(2,5) reconcile(4) [unfolded that(2)] _ that(3,4)])
    show "Finalizer \<notin> set (mg_finalizers (lf_obj s)) \<longrightarrow> applied (lf_trace s) \<noteq> [] \<longrightarrow>
        mg_deleting (lf_obj s) \<and> obj_ids (lf_obj s) \<subseteq> set (deleted (lf_trace s))"
      using assms(2) that(1) by (simp add: life_inv_def)
  qed
  ultimately show ?thesis
    using I(2) reconcile(1) unfolding life_inv_def by auto
qed

lemma life_inv: "life s \<Longrightarrow> life_inv s"
proof (induction rule: life.induct)
  case (create obj)
  then show ?case by (simp add: life_inv_def obj_ids_def)
next
  case (step s s')
  then show ?case by (blast intro: life_step_inv)
qed

text \<open>
  C6. Ownership over the whole life of an object, whatever users edit in its spec, annotations and
  finalizers, from however old a version reconciles work, however often they fail and whichever of their
  patches are lost: everything the inventory lists and everything the controller ever deletes was applied
  by it for this object before. In an orderly life, without stale reads and without a user who removes the
  finalizer of the controller, once that finalizer is gone after the first artifact, the object is being
  deleted and a delete was issued for every entry of the inventory.
\<close>

theorem lifecycle_ownership:
  assumes "life s"
  shows "ref_id ` set (st_inventory (mg_status (lf_obj s))) \<subseteq> set (applied (lf_trace s)) \<and>
    set (deleted (lf_trace s)) \<subseteq> set (applied (lf_trace s)) \<and>
    (lf_orderly s \<longrightarrow> Finalizer \<notin> set (mg_finalizers (lf_obj s)) \<longrightarrow> applied (lf_trace s) \<noteq> [] \<longrightarrow>
       mg_deleting (lf_obj s) \<and>
       ref_id ` set (st_inventory (mg_status (lf_obj s))) \<subseteq> set (deleted (lf_trace s)))"
  using life_inv [OF assms] by (auto simp: life_inv_def obj_ids_def)

text \<open>A whole life: the object is created and reconciled, then deleted and reconciled again.\<close>

definition sample_first :: "ManifestGenerator \<Rightarrow> rstate" where
  "sample_first obj = the (snd (Reconcile (sample_rec obj)))"

definition sample_dying :: "rstate \<Rightarrow> ManifestGenerator" where
  "sample_dying s = (store True True (mg_status (rs_obj s)) (sample_obj [''out''] [Finalizer] []) (rs_obj s))\<lparr>mg_deleting := True\<rparr>"

definition sample_ends :: bool where
  "sample_ends = (case snd (Reconcile (sample_rec (sample_obj [''out''] [Finalizer] []))) of
       None \<Rightarrow> False
     | Some s1 \<Rightarrow>
         (case snd (Reconcile (sample_rec (sample_dying s1))) of
            None \<Rightarrow> False
          | Some s2 \<Rightarrow> applied (rs_trace s1) = [(''apps'', ''out'')] \<and> Finalizer \<notin> set (mg_finalizers (rs_obj s2)) \<and>
              map ref_id (st_inventory (mg_status (rs_obj s2))) = [(''apps'', ''out'')]))"

lemma sample_ends: sample_ends
  by code_simp

lemma sample_life_step:
  assumes "snd (Reconcile (sample_rec (lf_obj s))) = Some s'" and "lf_obj s \<in> lf_versions s" and "lf_orderly s"
  shows "life_step s (next_version (store True True (mg_status (rs_obj s')) (lf_obj s) (rs_obj s')) s
      \<lparr>lf_trace := lf_trace s @ rs_trace s', lf_orderly := True\<rparr>)"
proof -
  have r: "Reconcile (sample_rec (lf_obj s)) = (fst (Reconcile (sample_rec (lf_obj s))), Some s')"
    using assms(1) by (metis prod.collapse)
  have g: "rv_get (sample_rec (lf_obj s)) = Inr (lf_obj s)" by (simp add: sample_rec_def)
  show ?thesis
    using life_step.reconcile [OF sample_rec_cond assms(2) g r, where meta = True and status = True
        and rest = "mg_status (rs_obj s')"] assms(3) by simp
qed

theorem lifecycle_ownership_witness:
  "\<exists>s. life s \<and> lf_orderly s \<and> Finalizer \<notin> set (mg_finalizers (lf_obj s)) \<and>
     map ref_id (st_inventory (mg_status (lf_obj s))) = [(''apps'', ''out'')] \<and>
     (''apps'', ''out'') \<in> set (deleted (lf_trace s))"
proof -
  let ?obj = "sample_obj [''out''] [Finalizer] []"
  let ?s0 = "\<lparr>lf_obj = ?obj, lf_versions = {?obj}, lf_trace = [], lf_orderly = True\<rparr>"
  from sample_ends obtain s1 s2 where r: "snd (Reconcile (sample_rec ?obj)) = Some s1"
    "snd (Reconcile (sample_rec (sample_dying s1))) = Some s2" and f: "applied (rs_trace s1) = [(''apps'', ''out'')]"
    "Finalizer \<notin> set (mg_finalizers (rs_obj s2))" "map ref_id (st_inventory (mg_status (rs_obj s2))) = [(''apps'', ''out'')]"
    by (auto simp: sample_ends_def split: option.splits)
  define t1 where "t1 = next_version (store True True (mg_status (rs_obj s1)) ?obj (rs_obj s1)) ?s0
      \<lparr>lf_trace := rs_trace s1, lf_orderly := True\<rparr>"
  define t2 where "t2 = next_version ((lf_obj t1)\<lparr>mg_deleting := True\<rparr>) t1"
  define t3 where "t3 = next_version (store True True (mg_status (rs_obj s2)) (lf_obj t2) (rs_obj s2)) t2
      \<lparr>lf_trace := lf_trace t2 @ rs_trace s2, lf_orderly := True\<rparr>"
  have o: "lf_obj t2 = sample_dying s1" by (simp add: t2_def t1_def sample_dying_def)
  have "life ?s0" by (rule life.create) (simp_all add: sample_obj_def)
  moreover have "life_step ?s0 t1" using sample_life_step [of ?s0 s1] r(1) by (simp add: t1_def)
  ultimately have "life t1" by (rule life.step)
  then have "life t2" unfolding t2_def by (rule life.step) (rule life_step.delete)
  then have l: "life t3"
  proof (rule life.step)
    show "life_step t2 t3"
      unfolding t3_def by (rule sample_life_step) (simp add: o r(2), simp_all add: t2_def t1_def)
  qed
  have "lf_orderly t3 \<and> Finalizer \<notin> set (mg_finalizers (lf_obj t3)) \<and> applied (lf_trace t3) \<noteq> []"
    using f by (simp add: t3_def t2_def t1_def)
  moreover have "map ref_id (st_inventory (mg_status (lf_obj t3))) = [(''apps'', ''out'')]"
    using f(3) by (simp add: t3_def store_def)
  moreover from this have "(''apps'', ''out'') \<in> ref_id ` set (st_inventory (mg_status (lf_obj t3)))"
    by (metis list.set_intros(1) list.set_map)
  ultimately show ?thesis using lifecycle_ownership [OF l] l by (intro exI [of _ t3]) blast
qed

end
