(* ===== verification/Fleet.thy ===== *)
theory Fleet
  imports Cluster Lifecycle
begin

text \<open>
  Several ManifestGenerators in one cluster. The controller reconciles many objects at a time
  (\<open>MaxConcurrentReconciles\<close>), each from its own, possibly stale, read of the object, and all of them
  write ExternalArtifacts into one API server. A state is the stored objects, every version of them a
  cache may still hold, and the ExternalArtifacts; a step is an action of a user, or one \<open>Reconcile\<close> of
  one object. When the generators claim disjoint names, no reconcile can disturb what another published.
\<close>

section \<open>What a reconcile touches\<close>

definition patched :: "call list \<Rightarrow> (string \<times> string) list" where
  "patched tr = List.map_filter (\<lambda>c. case c of PatchEAStatus ns n a \<Rightarrow> Some (ns, n) | _ \<Rightarrow> None) tr"

lemma patched_simps [simp]:
  "patched [] = []" "patched (tr @ tr') = patched tr @ patched tr'"
  "patched (Event t r # tr) = patched tr" "patched (PatchStatus obj b # tr) = patched tr"
  "patched (ApplyEA ns n u k # tr) = patched tr" "patched (PatchEAStatus ns n a # tr) = (ns, n) # patched tr"
  "patched (DeleteEA ns n # tr) = patched tr" "patched (RemoveStorage ns n # tr) = patched tr"
  "patched (CollectGarbage ns n # tr) = patched tr"
  by (simp_all add: patched_def map_filter_def)

text \<open>The ExternalArtifact a call is about, and the locality of its effect.\<close>

fun call_id :: "call \<Rightarrow> (string \<times> string) option" where
  "call_id (ApplyEA ns n ea mgr) = Some (ns, n)"
| "call_id (PatchEAStatus ns n a) = Some (ns, n)"
| "call_id (DeleteEA ns n) = Some (ns, n)"
| "call_id _ = None"

lemma exec_call_other: "call_id q \<noteq> Some x \<Longrightarrow> exec_call dels q c x = c x"
  by (cases q) (auto split: option.split)

lemma exec_call_local: "c x = c' x \<Longrightarrow> exec_call dels q c x = exec_call dels q c' x"
  by (cases q; cases "c' x") (auto split: option.split)

lemma exec_calls_local: "c x = c' x \<Longrightarrow> exec_calls dels tr c x = exec_calls dels tr c' x"
proof (induction tr arbitrary: c c')
  case (Cons q tr)
  show ?case using Cons.IH [of "exec_call dels q c" "exec_call dels q c'"] exec_call_local [of c x c' dels q] Cons.prems by simp
qed simp

abbreviation about :: "string \<times> string \<Rightarrow> call list \<Rightarrow> call list" where
  "about x \<equiv> filter (\<lambda>q. call_id q = Some x)"

lemma exec_calls_about: "exec_calls dels (about x tr) c x = exec_calls dels tr c x"
proof (induction tr arbitrary: c)
  case (Cons q tr)
  show ?case
  proof (cases "call_id q = Some x")
    case False
    then have "exec_calls dels tr (exec_call dels q c) x = exec_calls dels tr c x"
      by (intro exec_calls_local exec_call_other)
    with False Cons show ?thesis by simp
  qed (simp add: Cons)
qed simp

lemma call_id_cases: "q \<in> set tr \<Longrightarrow> call_id q = Some x \<Longrightarrow>
    x \<in> set (applied tr) \<or> x \<in> set (patched tr) \<or> x \<in> set (deleted tr)"
  by (induction tr) (auto simp: applied_def deleted_def patched_def map_filter_def elim!: call_id.elims)

text \<open>A status is only ever patched on an ExternalArtifact that the same reconcile applied before.\<close>

definition paired :: "rstate \<Rightarrow> bool" where
  "paired s \<longleftrightarrow> set (patched (rs_trace s)) \<subseteq> set (applied (rs_trace s))"

lemma paired_on_conds [simp]: "paired (on_conds f s) = paired s"
  by (simp add: paired_def)

lemma paired_emit [simp]:
  "paired (emit (Event t r) s) = paired s" "paired (emit (PatchStatus obj b) s) = paired s"
  "paired (emit (DeleteEA ns n) s) = paired s" "paired (emit (RemoveStorage ns n) s) = paired s"
  "paired (emit (CollectGarbage ns n) s) = paired s"
  by (simp_all add: paired_def applied_def map_filter_def)

lemma paired_obj [simp]: "paired (s\<lparr>rs_obj := obj\<rparr>) = paired s"
  by (simp add: paired_def)

lemma paired_fail_ready [simp]: "paired (fail_ready env r s) = paired s"
  by (simp add: fail_ready_def)

lemma paired_patchStatus: "patchStatus env loc s = (e, s') \<Longrightarrow> paired s' = paired s"
  by (auto simp: patchStatus_def split: option.splits)

lemma paired_newTerminal: "newTerminalErrorFor env r err s = (e, s') \<Longrightarrow> paired s' = paired s"
  by (auto simp: newTerminalErrorFor_def)

lemma paired_finalize_all [simp]: "paired (finalizeExternalArtifacts refs s) = paired s"
  unfolding finalizeExternalArtifacts_def by (induction refs arbitrary: s) (simp_all add: finalize_one_def)

lemma paired_garbage [simp]: "paired (collect_garbage refs s) = paired s"
  unfolding collect_garbage_def by (induction refs arbitrary: s) simp_all

lemma paired_finalize [simp]: "paired (finalize s) = paired s"
  by (simp add: finalize_def Let_def)

lemma paired_addFinalizer [simp]: "paired (addFinalizer env s) = paired s"
  by (simp add: addFinalizer_def Let_def)

lemma paired_notify [simp]: "paired (notify old refs s) = paired s"
  by (simp add: notify_def)

lemma paired_publish [simp]: "paired (publish env old d refs s) = paired s"
  by (simp add: publish_def Let_def)

lemma paired_summarize: "summarizeStatus env s = (e, s') \<Longrightarrow> paired s' = paired s"
  by (auto simp: summarizeStatus_def Let_def dest!: paired_patchStatus split: option.splits if_splits)

text \<open>The state a call ends in, with an error or a result.\<close>

definition end_state :: "('e \<times> rstate) + ('r \<times> rstate) \<Rightarrow> rstate" where
  "end_state r = (case r of Inl p \<Rightarrow> snd p | Inr p \<Rightarrow> snd p)"

lemma end_state_simps [simp]: "end_state (Inl p) = snd p" "end_state (Inr q) = snd q"
  by (simp_all add: end_state_def)

lemma paired_reconcileEA: "paired s \<Longrightarrow> paired (end_state (reconcileExternalArtifact env spec a s))"
  by (auto simp: reconcileExternalArtifact_def Let_def paired_def split: option.split)

lemma paired_build_one:
  assumes "paired s"
  shows "paired (end_state (build_one env dirs data tmp ws remote spec (refs, s)))"
proof (cases "Build (rv_bld env) spec dirs data (mg_namespace (rs_obj s)) tmp ws")
  case (Inr a)
  then show ?thesis
    using paired_reconcileEA [OF assms, of env spec "setArtifactRevisions spec remote a"]
    by (auto simp: build_one_def Let_def split: sum.split)
qed (use assms in \<open>simp add: build_one_def\<close>)

lemma paired_build_all:
  assumes "paired s"
  shows "paired (end_state (loopE (build_one env dirs data tmp ws remote) specs (refs, s)))"
  using assms
proof (induction specs arbitrary: refs s)
  case (Cons spec specs)
  show ?case
  proof (cases "build_one env dirs data tmp ws remote spec (refs, s)")
    case (Inr rs)
    then show ?thesis
      using paired_build_one [OF Cons.prems, of env dirs data tmp ws remote spec refs] Cons.IH
      by (cases rs) simp
  qed (use paired_build_one [OF Cons.prems, of env dirs data tmp ws remote spec refs] in simp)
qed simp

lemma paired_publish_all: "paired s \<Longrightarrow> paired (snd (publish_all env old tmp dirs ws data remote s))"
  using paired_build_all [of s env dirs data tmp ws remote "sp_artifacts (mg_spec (rs_obj s))" "[]"]
  by (auto simp: publish_all_def split: sum.splits)

lemma paired_reconcile_sources: "paired s \<Longrightarrow> paired (snd (reconcile_sources env old tmp s))"
  by (auto simp: reconcile_sources_def handleValuesError_def paired_publish_all paired_newTerminal
      split: sum.splits prod.splits)

lemma paired_reconcile: "paired s \<Longrightarrow> paired (snd (reconcile env s))"
  by (auto simp: reconcile_def paired_patchStatus paired_reconcile_sources split: sum.splits prod.splits option.splits)

lemma paired_dispatch: "paired s \<Longrightarrow> paired (snd (dispatch env s))"
  by (auto simp: dispatch_def Let_def paired_newTerminal paired_reconcile split: sum.splits prod.splits)

text \<open>So a call of \<open>Reconcile\<close> touches the names of its spec and of its inventory, and no others.\<close>

definition touches :: "ManifestGenerator \<Rightarrow> (string \<times> string) set" where
  "touches obj = set (artifact_ids obj) \<union> ref_id ` set (st_inventory (mg_status obj))"

lemma Reconcile_calls:
  assumes "cond_ok (rv_cond env)" and "Reconcile env = (out, Some s')" and "rv_get env = Inr obj"
    and "x \<notin> touches obj"
  shows "about x (rs_trace s') = []"
proof -
  have e: "evolves (sample_state obj) s'" using Reconcile_evolves [OF assms(1-3)] by blast
  have a: "x \<notin> set (applied (rs_trace s'))" "x \<notin> set (deleted (rs_trace s'))"
    using e assms(4) by (auto simp: evolves_def touches_def sample_state_def ids_def inventory_def)
  from Reconcile_Some [OF assms(2)] obtain obj' out1 s1 e where
    d: "dispatch env \<lparr>rs_obj = obj', rs_trace = []\<rparr> = (out1, s1)" "summarizeStatus (rv_ctl env) s1 = (e, s')" .
  have "paired s'"
    using paired_dispatch [of "\<lparr>rs_obj = obj', rs_trace = []\<rparr>" env] d(1) paired_summarize [OF d(2)]
    by (simp add: paired_def)
  then have "x \<notin> set (patched (rs_trace s'))" using a by (auto simp: paired_def)
  with a show ?thesis by (auto simp: filter_empty_conv dest: call_id_cases)
qed

lemma Reconcile_touches:
  assumes "cond_ok (rv_cond env)" and "Reconcile env = (out, Some s')" and "rv_get env = Inr obj"
    and "x \<notin> touches obj"
  shows "exec_calls dels (rs_trace s') c x = c x"
  using Reconcile_calls [OF assms] exec_calls_about [of dels x "rs_trace s'" c] by simp

section \<open>Concurrent reconciles\<close>

lemma interleaved_about:
  assumes "tr \<in> shuffles tr1 tr2" and "about x tr1 = [] \<or> about x tr2 = []"
  shows "about x tr = about x (tr1 @ tr2)"
proof -
  have "about x tr \<in> shuffles (about x tr1) (about x tr2)"
    using assms(1) unfolding filter_shuffles [symmetric] by (rule imageI)
  then show ?thesis using assms(2) by auto
qed

lemma interleaved_effect:
  assumes "tr \<in> shuffles tr1 tr2" and "\<And>x. about x tr1 = [] \<or> about x tr2 = []"
  shows "exec_calls dels tr c = exec_calls dels tr2 (exec_calls dels tr1 c)"
    and "exec_calls dels tr c = exec_calls dels tr1 (exec_calls dels tr2 c)"
proof -
  have a: "about x tr = about x (tr1 @ tr2)" "about x tr = about x (tr2 @ tr1)" for x
    using interleaved_about [OF assms(1) assms(2)] assms(2) [of x] by auto
  have "exec_calls dels tr c x = exec_calls dels (tr1 @ tr2) c x" "exec_calls dels tr c x = exec_calls dels (tr2 @ tr1) c x" for x
    using exec_calls_about [of dels x tr c] exec_calls_about [of dels x "tr1 @ tr2" c]
      exec_calls_about [of dels x "tr2 @ tr1" c] a [of x] by (simp_all only:)
  then show "exec_calls dels tr c = exec_calls dels tr2 (exec_calls dels tr1 c)"
    "exec_calls dels tr c = exec_calls dels tr1 (exec_calls dels tr2 c)" by (simp_all add: fun_eq_iff)
qed

text \<open>
  What a reconcile reads of the ExternalArtifacts: the sources of that kind, in their effective namespace.
  \<open>at_cluster env ans c\<close> answers these reads from the entries of \<open>c\<close>; \<open>ans\<close> is what the API server makes of
  an entry, errors included. All other reads are those of \<open>env\<close>.
\<close>

definition source_id :: "ManifestGenerator \<Rightarrow> SourceReference \<Rightarrow> string \<times> string" where
  "source_id obj src = (if sr_namespace src \<noteq> [] then sr_namespace src else mg_namespace obj, sr_name src)"

definition reads :: "ManifestGenerator \<Rightarrow> (string \<times> string) set" where
  "reads obj = source_id obj ` {src \<in> set (sp_sources (mg_spec obj)). sr_kind src = SourceKindExternalArtifact}"

definition at_cluster ::
  "rec_env \<Rightarrow> (string \<times> string \<Rightarrow> cluster_entry option \<Rightarrow> source_artifact option res) \<Rightarrow> cluster \<Rightarrow> rec_env" where
  "at_cluster env ans c = env\<lparr>rv_source := \<lambda>kind ns n.
     if kind = SourceKindExternalArtifact then ans (ns, n) (c (ns, n)) else rv_source env kind ns n\<rparr>"

text \<open>The answers about the sources are used by \<open>observeSources\<close> alone.\<close>

lemma source_sel:
  "rv_val (env\<lparr>rv_source := r\<rparr>) = rv_val env" "rv_bld (env\<lparr>rv_source := r\<rparr>) = rv_bld env"
  "rv_ctl (env\<lparr>rv_source := r\<rparr>) = rv_ctl env" "rv_controllerName (env\<lparr>rv_source := r\<rparr>) = rv_controllerName env"
  "rv_get (env\<lparr>rv_source := r\<rparr>) = rv_get env" "rv_mkdirtemp (env\<lparr>rv_source := r\<rparr>) = rv_mkdirtemp env"
  "rv_evalsymlinks (env\<lparr>rv_source := r\<rparr>) = rv_evalsymlinks env" "rv_mkdir (env\<lparr>rv_source := r\<rparr>) = rv_mkdir env"
  "rv_fetch (env\<lparr>rv_source := r\<rparr>) = rv_fetch env" "rv_APIReader (env\<lparr>rv_source := r\<rparr>) = rv_APIReader env"
  "rv_Client (env\<lparr>rv_source := r\<rparr>) = rv_Client env" "rv_apply (env\<lparr>rv_source := r\<rparr>) = rv_apply env"
  "rv_apply_status (env\<lparr>rv_source := r\<rparr>) = rv_apply_status env" "rv_sha256 (env\<lparr>rv_source := r\<rparr>) = rv_sha256 env"
  "rv_jitter (env\<lparr>rv_source := r\<rparr>) = rv_jitter env"
  "rv_dependencyRequeue (env\<lparr>rv_source := r\<rparr>) = rv_dependencyRequeue env"
  by simp_all

lemma source_only:
  fixes env :: rec_env and r :: "string \<Rightarrow> string \<Rightarrow> string \<Rightarrow> source_artifact option res"
  defines "env' \<equiv> env\<lparr>rv_source := r\<rparr>"
  shows "MkdirTempAbs env' = MkdirTempAbs env" "fetchSources env' = fetchSources env"
    "resolveValues env' = resolveValues env" "runPipeline env' = runPipeline env"
    "fail_ready env' = fail_ready env" "handleValuesError env' = handleValuesError env"
    "publish_all env' = publish_all env"
proof -
  note sel = source_sel [where env = env and r = r, folded env'_def]
  have f: "fail_ready env' = fail_ready env" unfolding fun_eq_iff fail_ready_def sel by simp
  then show "fail_ready env' = fail_ready env" .
  show "MkdirTempAbs env' = MkdirTempAbs env" unfolding MkdirTempAbs_def sel ..
  show "fetchSources env' = fetchSources env"
    unfolding fun_eq_iff fetchSources_def fetch_one_def [abs_def] sel by simp
  show "resolveValues env' = resolveValues env"
    unfolding fun_eq_iff resolveValues_def valuesReader_def sel by simp
  show "runPipeline env' = runPipeline env" unfolding fun_eq_iff runPipeline_def sel by simp
  show "handleValuesError env' = handleValuesError env" unfolding fun_eq_iff handleValuesError_def f sel by simp
  have ea: "reconcileExternalArtifact env' = reconcileExternalArtifact env"
    unfolding fun_eq_iff reconcileExternalArtifact_def external_artifact_def sel by simp
  have b: "build_one env' = build_one env"
    unfolding fun_eq_iff build_one_def ea f sel by simp
  have p: "publish env' = publish env" unfolding fun_eq_iff publish_def sel by simp
  show "publish_all env' = publish_all env" unfolding fun_eq_iff publish_all_def b p sel by simp
qed

lemma observeSources_same:
  assumes "\<And>src. src \<in> set (sp_sources (mg_spec obj)) \<Longrightarrow>
      r (sr_kind src) (fst (source_id obj src)) (sr_name src) = r' (sr_kind src) (fst (source_id obj src)) (sr_name src)"
  shows "observeSources (env\<lparr>rv_source := r\<rparr>) obj = observeSources (env\<lparr>rv_source := r'\<rparr>) obj"
  unfolding observeSources_def
  by (rule loopE_cong) (use assms in \<open>simp add: observe_one_def source_id_def Let_def\<close>)

lemma reconcile_sources_same:
  assumes "observeSources (env\<lparr>rv_source := r\<rparr>) (rs_obj s) = observeSources (env\<lparr>rv_source := r'\<rparr>) (rs_obj s)"
  shows "reconcile_sources (env\<lparr>rv_source := r\<rparr>) old tmp s = reconcile_sources (env\<lparr>rv_source := r'\<rparr>) old tmp s"
  unfolding reconcile_sources_def assms source_only source_sel ..

lemma Reconcile_same:
  assumes "rv_get env = Inr obj"
    and "\<And>src. src \<in> set (sp_sources (mg_spec obj)) \<Longrightarrow>
      r (sr_kind src) (fst (source_id obj src)) (sr_name src) = r' (sr_kind src) (fst (source_id obj src)) (sr_name src)"
  shows "Reconcile (env\<lparr>rv_source := r\<rparr>) = Reconcile (env\<lparr>rv_source := r'\<rparr>)"
proof -
  let ?e = "env\<lparr>rv_source := r\<rparr>" and ?e' = "env\<lparr>rv_source := r'\<rparr>" and ?s = "\<lparr>rs_obj = obj, rs_trace = []\<rparr>"
  let ?start = "\<lambda>s. on_conds (k_mark (rv_cond env) ''Unknown'' ReadyCondition ProgressingReason)
      (on_conds (k_mark_reconciling (rv_cond env) ProgressingReason) s)"
  have rec: "reconcile ?e ?s = reconcile ?e' ?s"
  proof (cases "MkdirTempAbs env")
    case (Inr tmp)
    obtain e s1 where p: "patchStatus (rv_ctl env) ''start'' (?start ?s) = (e, s1)" by fastforce
    then have "mg_spec (rs_obj s1) = mg_spec obj" "mg_namespace (rs_obj s1) = mg_namespace obj"
      by (auto dest!: patchStatus_simps)
    moreover from this have "source_id (rs_obj s1) = source_id obj" by (simp add: fun_eq_iff source_id_def)
    ultimately have "observeSources ?e (rs_obj s1) = observeSources ?e' (rs_obj s1)"
      using assms(2) by (intro observeSources_same) simp
    from reconcile_sources_same [OF this] show ?thesis
      unfolding reconcile_def source_only source_sel Inr sum.case p by (cases e) simp_all
  qed (simp add: reconcile_def source_only)
  have "dispatch ?e ?s = dispatch ?e' ?s" unfolding dispatch_def Let_def source_sel rec ..
  then show ?thesis unfolding Reconcile_def source_sel assms(1) sum.case by simp
qed

text \<open>So a reconcile is the same over two clusters that agree on what it reads.\<close>

lemma Reconcile_at_cluster:
  assumes "rv_get env = Inr obj" and "\<And>x. x \<in> reads obj \<Longrightarrow> c x = c' x"
  shows "Reconcile (at_cluster env ans c) = Reconcile (at_cluster env ans c')"
  unfolding at_cluster_def
proof (rule Reconcile_same [OF assms(1)])
  fix src
  assume src: "src \<in> set (sp_sources (mg_spec obj))"
  have "c (fst (source_id obj src), sr_name src) = c' (fst (source_id obj src), sr_name src)"
    if "sr_kind src = SourceKindExternalArtifact"
  proof -
    have "source_id obj src \<in> reads obj" using src that by (auto simp: reads_def)
    from assms(2) [OF this] show ?thesis by (simp add: source_id_def)
  qed
  then show "(if sr_kind src = SourceKindExternalArtifact
      then ans (fst (source_id obj src), sr_name src) (c (fst (source_id obj src), sr_name src))
      else rv_source env (sr_kind src) (fst (source_id obj src)) (sr_name src)) =
    (if sr_kind src = SourceKindExternalArtifact
      then ans (fst (source_id obj src), sr_name src) (c' (fst (source_id obj src), sr_name src))
      else rv_source env (sr_kind src) (fst (source_id obj src)) (sr_name src))" by simp
qed

lemma at_cluster_sel [simp]: "rv_cond (at_cluster env ans c) = rv_cond env" "rv_get (at_cluster env ans c) = rv_get env"
  by (simp_all add: at_cluster_def)

text \<open>Entries that no call is about stay as they are, at every moment of an interleaving.\<close>

lemma exec_calls_untouched: "about x tr = [] \<Longrightarrow> exec_calls dels (take n tr) c x = c x"
proof -
  assume "about x tr = []"
  then have "about x (take n tr) = []" using set_take_subset [of n tr] by (auto simp: filter_empty_conv)
  then show ?thesis using exec_calls_about [of dels x "take n tr" c] by simp
qed

lemma interleaved_untouched: "tr \<in> shuffles tr1 tr2 \<Longrightarrow> about x tr1 = [] \<Longrightarrow> about x tr2 = [] \<Longrightarrow> about x tr = []"
  using interleaved_about [of tr tr1 tr2 x] by simp

text \<open>
  C5. Concurrent reconciles of two objects are serializable when their specs and inventories name disjoint
  ExternalArtifacts and neither has a source among them. Take any interleaving of their calls to the API
  server, each run reading every ExternalArtifact it has as a source at some moment of it. Then each of the
  two runs, with the same calls and the same outcome, is a run that has the cluster to itself, whether it
  comes first or after the other, and the cluster ends as after the two runs one by one, in either order.
\<close>

theorem concurrent_reconciles_serialize:
  assumes "cond_ok (rv_cond env1)" and "Reconcile (at_cluster env1 ans1 v1) = (out1, Some s1)" and "rv_get env1 = Inr obj1"
    and "cond_ok (rv_cond env2)" and "Reconcile (at_cluster env2 ans2 v2) = (out2, Some s2)" and "rv_get env2 = Inr obj2"
    and "tr \<in> shuffles (rs_trace s1) (rs_trace s2)"
    and "\<forall>x \<in> reads obj1. \<exists>n. v1 x = exec_calls dels (take n tr) c x"
    and "\<forall>x \<in> reads obj2. \<exists>n. v2 x = exec_calls dels (take n tr) c x"
    and "touches obj1 \<inter> touches obj2 = {}" and "(reads obj1 \<union> reads obj2) \<inter> (touches obj1 \<union> touches obj2) = {}"
  shows "let c1 = exec_calls dels (rs_trace s1) c; c2 = exec_calls dels (rs_trace s2) c in
    Reconcile (at_cluster env1 ans1 c) = (out1, Some s1) \<and> Reconcile (at_cluster env2 ans2 c1) = (out2, Some s2) \<and>
    exec_calls dels tr c = exec_calls dels (rs_trace s2) c1 \<and>
    Reconcile (at_cluster env2 ans2 c) = (out2, Some s2) \<and> Reconcile (at_cluster env1 ans1 c2) = (out1, Some s1) \<and>
    exec_calls dels tr c = exec_calls dels (rs_trace s1) c2"
proof -
  have q: "x \<in> touches obj1 \<or> about x (rs_trace s1) = []" "x \<in> touches obj2 \<or> about x (rs_trace s2) = []" for x
    using Reconcile_calls [OF _ assms(2), of obj1 x] Reconcile_calls [OF _ assms(5), of obj2 x] assms(1,3,4,6) by auto
  have e: "about x (rs_trace s1) = [] \<or> about x (rs_trace s2) = []" for x using assms(10) q [of x] by blast
  have u: "about x (rs_trace s1) = []" "about x (rs_trace s2) = []" "about x tr = []"
    if "x \<in> reads obj1 \<union> reads obj2" for x
  proof -
    show "about x (rs_trace s1) = []" "about x (rs_trace s2) = []" using assms(11) q [of x] that by blast+
    then show "about x tr = []" by (rule interleaved_untouched [OF assms(7)])
  qed
  have k: "exec_calls dels (rs_trace s1) c x = c x" "exec_calls dels (rs_trace s2) c x = c x"
    if "x \<in> reads obj1 \<union> reads obj2" for x
    using exec_calls_about [of dels x "rs_trace s1" c] exec_calls_about [of dels x "rs_trace s2" c] u [OF that] by simp_all
  have v: "x \<in> reads obj1 \<Longrightarrow> v1 x = c x" "x \<in> reads obj2 \<Longrightarrow> v2 x = c x" for x
    using assms(8,9) exec_calls_untouched [of x tr dels _ c] u(3) [of x] by (metis UnCI)+
  have r: "Reconcile (at_cluster env1 ans1 c) = (out1, Some s1)" "Reconcile (at_cluster env2 ans2 c) = (out2, Some s2)"
    using Reconcile_at_cluster [OF assms(3) v(1), where ans = ans1]
      Reconcile_at_cluster [OF assms(6) v(2), where ans = ans2] assms(2,5) by simp_all
  moreover have "Reconcile (at_cluster env1 ans1 (exec_calls dels (rs_trace s2) c)) = Reconcile (at_cluster env1 ans1 c)"
    "Reconcile (at_cluster env2 ans2 (exec_calls dels (rs_trace s1) c)) = Reconcile (at_cluster env2 ans2 c)"
    using Reconcile_at_cluster [OF assms(3)] Reconcile_at_cluster [OF assms(6)] k by blast+
  moreover note interleaved_effect [OF assms(7) e]
  ultimately show ?thesis unfolding Let_def by simp
qed

text \<open>Two generators of one namespace, each with one artifact of its own name.\<close>

definition sample_gen :: "string \<Rightarrow> ManifestGenerator" where
  "sample_gen n = (sample_obj [n] [Finalizer] [])\<lparr>mg_name := n\<rparr>"

definition sample_result :: "string \<Rightarrow> rstate" where
  "sample_result n = the (snd (Reconcile (sample_rec (sample_gen n))))"

lemma sample_get: "rv_get (sample_rec obj) = Inr obj"
  by (simp add: sample_rec_def)

definition sample_succeeds :: "string \<Rightarrow> bool" where
  "sample_succeeds n = (let env = sample_rec (sample_gen n) in
     case Reconcile env of (out, None) \<Rightarrow> False | (out, Some s') \<Rightarrow> succeeded env out s')"

lemma sample_out: "sample_succeeds ''out''"
  by code_simp

lemma sample_web: "sample_succeeds ''web''"
  by code_simp

lemma sample_result:
  assumes "sample_succeeds n"
  shows "Reconcile (sample_rec (sample_gen n)) = (fst (Reconcile (sample_rec (sample_gen n))), Some (sample_result n))"
    and "succeeded (sample_rec (sample_gen n)) (fst (Reconcile (sample_rec (sample_gen n)))) (sample_result n)"
  using assms by (auto simp: sample_succeeds_def sample_result_def Let_def split: prod.splits option.splits)

lemma sample_gen_ids:
  "artifact_ids (sample_gen n) = [(''apps'', n)]" "touches (sample_gen n) = {(''apps'', n)}"
  "length (sp_artifacts (mg_spec (sample_gen n))) = 1" "distinct (map ma_name (sp_artifacts (mg_spec (sample_gen n))))"
  by (simp_all add: sample_gen_def artifact_ids_def touches_def sample_obj_def sample_spec_def sample_artifact_def)

text \<open>
  The same two with the ExternalArtifact \<open>base\<close> of the namespace as their source, in a cluster that has it.
\<close>

definition sample_reader :: "string \<Rightarrow> ManifestGenerator" where
  "sample_reader n = (sample_gen n)\<lparr>mg_spec := (mg_spec (sample_gen n))\<lparr>sp_sources :=
     [\<lparr>sr_alias = ''src'', sr_name = ''base'', sr_namespace = [], sr_kind = ''ExternalArtifact''\<rparr>]\<rparr>\<rparr>"

definition sample_answer :: "string \<times> string \<Rightarrow> cluster_entry option \<Rightarrow> source_artifact option res" where
  "sample_answer x entry = (case entry of
       None \<Rightarrow> Inl (ExtErr ''not found'')
     | Some e \<Rightarrow> Inr (map_option (\<lambda>a. \<lparr>sa_Digest = af_digest a, sa_Revision = af_revision a, sa_URL = af_filename a,
          sa_Metadata = af_metadata a\<rparr>) (cl_artifact e)))"

definition sample_base :: cluster where
  "sample_base x = (if x = (''apps'', ''base'') then
     Some \<lparr>cl_object = external_artifact (sample_rec (sample_gen ''base'')) (sample_gen ''base''),
       cl_artifact = Some \<lparr>af_name = ''base'', af_namespace = ''apps'', af_filename = ''f'', af_revision = ''r'',
         af_digest = ''d'', af_metadata = []\<rparr>\<rparr> else None)"

definition sample_read :: "string \<Rightarrow> outcome \<times> rstate option" where
  "sample_read n = Reconcile (at_cluster (sample_rec (sample_reader n)) sample_answer sample_base)"

definition sample_read_ok :: "string \<Rightarrow> bool" where
  "sample_read_ok n = (case snd (sample_read n) of None \<Rightarrow> False | Some s \<Rightarrow> applied (rs_trace s) = [(''apps'', n)])"

lemma sample_read_out: "sample_read_ok ''out''"
  by code_simp

lemma sample_read_web: "sample_read_ok ''web''"
  by code_simp

lemma sample_reader_sets: "touches (sample_reader n) = {(''apps'', n)}" "reads (sample_reader n) = {(''apps'', ''base'')}"
  by (auto simp: sample_reader_def sample_gen_def artifact_ids_def touches_def sample_obj_def sample_spec_def
      sample_artifact_def reads_def source_id_def SourceKindExternalArtifact_def)

theorem concurrent_reconciles_serialize_witness:
  "\<exists>s1 s2. snd (sample_read ''out'') = Some s1 \<and> snd (sample_read ''web'') = Some s2 \<and>
    applied (rs_trace s1) = [(''apps'', ''out'')] \<and> applied (rs_trace s2) = [(''apps'', ''web'')] \<and>
    exec_calls (\<lambda>_. True) (splice (rs_trace s1) (rs_trace s2)) sample_base =
      exec_calls (\<lambda>_. True) (rs_trace s2) (exec_calls (\<lambda>_. True) (rs_trace s1) sample_base) \<and>
    snd (Reconcile (at_cluster (sample_rec (sample_reader ''web'')) sample_answer
      (exec_calls (\<lambda>_. True) (rs_trace s1) sample_base))) = Some s2"
proof -
  let ?o = "sample_rec (sample_reader ''out'')" and ?w = "sample_rec (sample_reader ''web'')"
  from sample_read_out sample_read_web obtain s1 s2 where s: "snd (sample_read ''out'') = Some s1"
    "snd (sample_read ''web'') = Some s2" "applied (rs_trace s1) = [(''apps'', ''out'')]" "applied (rs_trace s2) = [(''apps'', ''web'')]"
    by (auto simp: sample_read_ok_def split: option.splits)
  have r: "Reconcile (at_cluster ?o sample_answer sample_base) = (fst (sample_read ''out''), Some s1)"
    "Reconcile (at_cluster ?w sample_answer sample_base) = (fst (sample_read ''web''), Some s2)"
    using s(1,2) by (simp_all add: sample_read_def prod_eq_iff)
  let ?tr = "splice (rs_trace s1) (rs_trace s2)"
  have v: "\<forall>x \<in> reads (sample_reader n). \<exists>k. sample_base x = exec_calls (\<lambda>_. True) (take k ?tr) sample_base x" for n
    by (intro ballI exI [of _ 0]) simp
  have "touches (sample_reader ''out'') \<inter> touches (sample_reader ''web'') = {}"
    "(reads (sample_reader ''out'') \<union> reads (sample_reader ''web'')) \<inter>
      (touches (sample_reader ''out'') \<union> touches (sample_reader ''web'')) = {}"
    by (simp_all add: sample_reader_sets)
  from concurrent_reconciles_serialize [OF sample_rec_cond r(1) sample_get sample_rec_cond r(2) sample_get
      splice_in_shuffles v v this] s show ?thesis unfolding Let_def by auto
qed

section \<open>The fleet\<close>

type_synonym key = "string \<times> string"

record fleet =
  fl_objects :: "key \<Rightarrow> ManifestGenerator option"
  fl_versions :: "key \<Rightarrow> ManifestGenerator set"
  fl_cluster :: cluster

definition put :: "key \<Rightarrow> ManifestGenerator \<Rightarrow> fleet \<Rightarrow> fleet" where
  "put k obj f = f\<lparr>fl_objects := (fl_objects f)(k \<mapsto> obj), fl_versions := (fl_versions f)(k := insert obj (fl_versions f k))\<rparr>"

text \<open>
  Users create an object, edit its spec, annotations and finalizers and ask for its deletion; the API server
  drops it when no finalizer is left. Users leave its status and the ExternalArtifacts alone. \<open>Reconcile\<close> reads any version; of what it patches, the finalizers and the
  status are stored or lost independently, and nothing is stored when the object is gone. \<open>owns\<close> assigns
  to every object the ExternalArtifacts its spec may name.
\<close>

datatype action = User key | Reconciled key rec_env

definition stored :: "bool \<Rightarrow> bool \<Rightarrow> ManifestGeneratorStatus \<Rightarrow> key \<Rightarrow> rstate \<Rightarrow> fleet \<Rightarrow> fleet" where
  "stored meta status rest k s' f =
     (case fl_objects f k of None \<Rightarrow> f | Some cur \<Rightarrow> put k (store meta status rest cur (rs_obj s')) f)"

inductive fleet_step :: "(key \<Rightarrow> (string \<times> string) set) \<Rightarrow> fleet \<Rightarrow> action \<Rightarrow> fleet \<Rightarrow> bool"
  for owns :: "key \<Rightarrow> (string \<times> string) set" where
  create: "fl_objects f k = None \<Longrightarrow> k = (mg_namespace obj, mg_name obj) \<Longrightarrow> st_inventory (mg_status obj) = [] \<Longrightarrow> set (artifact_ids obj) \<subseteq> owns k \<Longrightarrow>
    fleet_step owns f (User k) (put k obj f)"
| edit: "fl_objects f k = Some obj \<Longrightarrow>
    obj' = obj\<lparr>mg_spec := spec, mg_annotations := ann, mg_finalizers := fs, mg_generation := gen\<rparr> \<Longrightarrow>
    set (artifact_ids obj') \<subseteq> owns k \<Longrightarrow> fleet_step owns f (User k) (put k obj' f)"
| delete: "fl_objects f k = Some obj \<Longrightarrow> fleet_step owns f (User k) (put k (obj\<lparr>mg_deleting := True\<rparr>) f)"
| drop: "fl_objects f k = Some obj \<Longrightarrow> mg_deleting obj \<Longrightarrow> mg_finalizers obj = [] \<Longrightarrow>
    fleet_step owns f (User k) (f\<lparr>fl_objects := (fl_objects f)(k := None)\<rparr>)"
| reconcile: "cond_ok (rv_cond env) \<Longrightarrow> rv_get env = Inr obj \<Longrightarrow> obj \<in> fl_versions f k \<Longrightarrow>
    Reconcile env = (out, Some s') \<Longrightarrow>
    fleet_step owns f (Reconciled k env)
      (stored meta status rest k s' (f\<lparr>fl_cluster := exec_calls dels (rs_trace s') (fl_cluster f)\<rparr>))"

inductive fleet_run :: "(key \<Rightarrow> (string \<times> string) set) \<Rightarrow> fleet \<Rightarrow> bool"
  for owns :: "key \<Rightarrow> (string \<times> string) set" where
  start: "fleet_run owns \<lparr>fl_objects = \<lambda>_. None, fl_versions = \<lambda>_. {}, fl_cluster = c\<rparr>"
| step: "fleet_run owns f \<Longrightarrow> fleet_step owns f a f' \<Longrightarrow> fleet_run owns f'"

inductive_cases fleet_reconciledE: "fleet_step owns f (Reconciled k env) f'"

text \<open>The invariant: every version of an object touches only what the object owns.\<close>

definition fleet_inv :: "(key \<Rightarrow> (string \<times> string) set) \<Rightarrow> fleet \<Rightarrow> bool" where
  "fleet_inv owns f \<longleftrightarrow> (\<forall>k. \<forall>obj \<in> fl_versions f k. touches obj \<subseteq> owns k) \<and>
     (\<forall>k obj. fl_objects f k = Some obj \<longrightarrow> obj \<in> fl_versions f k)"

lemma fleet_inv_version: "fleet_inv owns f \<Longrightarrow> obj \<in> fl_versions f k \<Longrightarrow> touches obj \<subseteq> owns k"
  unfolding fleet_inv_def by blast

lemma fleet_inv_touches: "fleet_inv owns f \<Longrightarrow> fl_objects f k = Some obj \<Longrightarrow> touches obj \<subseteq> owns k"
  using fleet_inv_version unfolding fleet_inv_def by blast

lemma fleet_inv_current: "fleet_inv owns f \<Longrightarrow> fl_objects f k = Some obj \<Longrightarrow> obj \<in> fl_versions f k"
  unfolding fleet_inv_def by blast

lemma fleet_inv_put:
  assumes "fleet_inv owns f" and "touches obj \<subseteq> owns k"
  shows "fleet_inv owns (put k obj f)"
proof -
  have "touches v \<subseteq> owns k'" if "v \<in> fl_versions (put k obj f) k'" for v k'
    using that assms(2) fleet_inv_version [OF assms(1), of v k'] by (cases "k' = k") (auto simp: put_def)
  moreover have "v \<in> fl_versions (put k obj f) k'" if "fl_objects (put k obj f) k' = Some v" for v k'
    using that fleet_inv_current [OF assms(1), of k' v] by (cases "k' = k") (auto simp: put_def)
  ultimately show ?thesis unfolding fleet_inv_def by blast
qed

lemma touches_store: "touches (store meta status rest old new) \<subseteq>
    touches old \<union> ref_id ` set (st_inventory (mg_status new))"
  by (auto simp: touches_def store_def artifact_ids_def)

text \<open>The inventory that a reconcile leaves.\<close>

lemma Reconcile_inventory:
  assumes "cond_ok (rv_cond env)" and "Reconcile env = (out, Some s')" and "rv_get env = Inr obj"
  shows "ref_id ` set (st_inventory (mg_status (rs_obj s'))) \<subseteq> touches obj"
  using Reconcile_evolves [OF assms]
  by (auto simp: evolves_def touches_def sample_state_def ids_def inventory_def)

lemma fleet_step_inv:
  assumes "fleet_step owns f a f'" and "fleet_inv owns f"
  shows "fleet_inv owns f'"
  using assms(1)
proof cases
  case (create k obj)
  then show ?thesis using assms(2) fleet_inv_put by (simp add: touches_def)
next
  case (edit k obj obj' spec ann fs gen)
  have "touches obj' \<subseteq> owns k"
    using fleet_inv_touches [OF assms(2) edit(3)] edit(4,5) by (auto simp: touches_def)
  then show ?thesis using edit assms(2) fleet_inv_put by simp
next
  case (delete k obj)
  have "touches (obj\<lparr>mg_deleting := True\<rparr>) = touches obj" by (simp add: touches_def artifact_ids_def)
  then show ?thesis using fleet_inv_touches [OF assms(2) delete(3)] delete assms(2) fleet_inv_put by simp
next
  case (drop k obj)
  then show ?thesis using assms(2) by (simp add: fleet_inv_def)
next
  case (reconcile env obj k out s' meta status rest dels)
  let ?g = "f\<lparr>fl_cluster := exec_calls dels (rs_trace s') (fl_cluster f)\<rparr>"
  have g: "fleet_inv owns ?g" using assms(2) by (simp add: fleet_inv_def)
  have "touches obj \<subseteq> owns k" by (rule fleet_inv_version [OF assms(2) reconcile(5)])
  then have new: "ref_id ` set (st_inventory (mg_status (rs_obj s'))) \<subseteq> owns k"
    using Reconcile_inventory [OF reconcile(3,6,4)] by blast
  show ?thesis
  proof (cases "fl_objects f k")
    case (Some cur)
    have "touches (store meta status rest cur (rs_obj s')) \<subseteq> owns k"
      using touches_store fleet_inv_touches [OF assms(2) Some] new by blast
    then show ?thesis using fleet_inv_put [OF g] Some reconcile(2) by (simp add: stored_def)
  qed (use g reconcile(2) in \<open>simp add: stored_def\<close>)
qed

lemma fleet_run_inv: "fleet_run owns f \<Longrightarrow> fleet_inv owns f"
proof (induction rule: fleet_run.induct)
  case (start c)
  show ?case by (simp add: fleet_inv_def)
next
  case (step f a f')
  then show ?case by (blast intro: fleet_step_inv)
qed

text \<open>Steps other than a reconcile of \<open>k\<close> leave the ExternalArtifacts of \<open>k\<close> alone.\<close>

definition disjoint_claims :: "(key \<Rightarrow> (string \<times> string) set) \<Rightarrow> bool" where
  "disjoint_claims owns \<longleftrightarrow> (\<forall>k k'. k \<noteq> k' \<longrightarrow> owns k \<inter> owns k' = {})"

fun reconciles :: "key \<Rightarrow> action \<Rightarrow> bool" where
  "reconciles k (User k') = False"
| "reconciles k (Reconciled k' env) = (k = k')"

lemma cluster_stored [simp]: "fl_cluster (stored meta status rest k s' f) = fl_cluster f"
  by (simp add: stored_def put_def split: option.split)

lemma fleet_step_isolated:
  assumes "fleet_step owns f a f'" and "fleet_inv owns f" and "disjoint_claims owns"
    and "\<not> reconciles k a" and "x \<in> owns k"
  shows "fl_cluster f' x = fl_cluster f x"
  using assms(1)
proof cases
  case (reconcile env obj k' out s' meta status rest dels)
  have "k \<noteq> k'" using assms(4) reconcile(1) by simp
  then have "x \<notin> touches obj"
    using fleet_inv_version [OF assms(2) reconcile(5)] assms(3,5) unfolding disjoint_claims_def by blast
  from Reconcile_touches [OF reconcile(3,6,4) this] reconcile(2) show ?thesis by simp
qed (simp_all add: put_def)

definition other_step :: "(key \<Rightarrow> (string \<times> string) set) \<Rightarrow> key \<Rightarrow> fleet \<Rightarrow> fleet \<Rightarrow> bool" where
  "other_step owns k f f' \<longleftrightarrow> (\<exists>a. \<not> reconciles k a \<and> fleet_step owns f a f')"

lemma others_isolated:
  assumes "(other_step owns k)\<^sup>*\<^sup>* f f'" and "fleet_inv owns f" and "disjoint_claims owns" and "x \<in> owns k"
  shows "fl_cluster f' x = fl_cluster f x"
proof -
  from assms(1) have "fleet_inv owns f' \<and> fl_cluster f' x = fl_cluster f x"
  proof induction
    case (step g h)
    then obtain a where "\<not> reconciles k a" "fleet_step owns g a h" by (auto simp: other_step_def)
    then show ?case using step.IH fleet_step_inv fleet_step_isolated [OF _ _ assms(3) _ assms(4)] by metis
  qed (simp add: assms(2))
  then show ?thesis ..
qed

section \<open>What a successful reconcile leaves, for good\<close>

lemma orphans_not_current:
  assumes "map ref_id refs = artifact_ids obj" and "x \<in> set (artifact_ids obj)"
  shows "x \<notin> ref_id ` set (findOrphanedReferences old refs)"
proof
  assume "x \<in> ref_id ` set (findOrphanedReferences old refs)"
  then obtain r where r: "ref_id r = x" "ref_key r \<notin> ref_key ` set refs" by (auto simp: findOrphaned_iff)
  have "x \<in> ref_id ` set refs" using assms by (metis list.set_map)
  then obtain q where "q \<in> set refs" "ref_id q = ref_id r" using r(1) by auto
  moreover from this have "ref_key q = ref_key r" by (simp add: ref_id_def ref_key_def)
  ultimately show False using r(2) by (metis imageI)
qed

lemma success_entries:
  assumes "cond_ok (rv_cond env)" and "reconcile env s = (out, s')" and "succeeded env out s'"
    and "rs_trace s = []" and "distinct (map ma_name (sp_artifacts (mg_spec (rs_obj s))))"
  shows "\<exists>tmpDir remote dirs ws vals outs as. evaluated env (rs_obj s) tmpDir remote dirs ws vals outs \<and>
    list_all2 (built_artifact env dirs (template_data outs vals) (mg_namespace (rs_obj s)) tmpDir ws remote)
      (sp_artifacts (mg_spec (rs_obj s))) as \<and>
    (\<forall>i < length as. exec_calls dels (rs_trace s') c (artifact_ids (rs_obj s) ! i) =
       Some (published_entry env (rs_obj s) (as ! i)))"
proof -
  let ?ids = "artifact_ids (rs_obj s)"
  from reconcile_runs [OF assms(1-3), of dels] obtain tmpDir remote dirs ws vals outs as refs where
    ev: "evaluated env (rs_obj s) tmpDir remote dirs ws vals outs"
    and as: "list_all2 (built_artifact env dirs (template_data outs vals) (mg_namespace (rs_obj s)) tmpDir ws remote)
      (sp_artifacts (mg_spec (rs_obj s))) as"
    and ids: "map ref_id refs = ?ids"
    and r: "runs dels s s' (\<lambda>c. remove_ids {x \<in> ref_id ` set (findOrphanedReferences (inventory s) refs). dels x}
      (c(?ids [\<mapsto>] map (published_entry env (rs_obj s)) as)))" by blast
  have len: "length as = length ?ids" using list_all2_lengthD [OF as] by (simp add: artifact_ids_def)
  have e: "exec_calls dels (rs_trace s') c =
      remove_ids {x \<in> ref_id ` set (findOrphanedReferences (inventory s) refs). dels x}
        (c(?ids [\<mapsto>] map (published_entry env (rs_obj s)) as))"
    using r assms(4) by (auto simp: runs_def)
  have "exec_calls dels (rs_trace s') c (?ids ! i) = Some (published_entry env (rs_obj s) (as ! i))" if "i < length as" for i
  proof -
    have "?ids ! i \<notin> ref_id ` set (findOrphanedReferences (inventory s) refs)"
      using orphans_not_current [OF ids] that len by simp
    then show ?thesis
      using that len map_upds_nth [OF distinct_ids [OF assms(5)], of "map (published_entry env (rs_obj s)) as" i c]
      unfolding e by (simp add: remove_ids_def)
  qed
  with ev as show ?thesis by blast
qed

lemma Reconcile_active:
  assumes "Reconcile env = (out, Some s')" and "rv_get env = Inr obj" and "active env obj"
    and "cond_ok (rv_cond env)" and "succeeded env out s'"
  obtains out1 s1 where "reconcile env (sample_state obj) = (out1, s1)" "succeeded env out1 s1"
    "exec_calls dels (rs_trace s') = exec_calls dels (rs_trace s1)"
proof -
  obtain rq errs s1 where d: "reconcile env (sample_state obj) = ((rq, errs), s1)" by (metis surj_pair)
  have a: "dispatch env (sample_state obj) = ((rq, errs), s1)"
    using assms(3) d by (simp add: dispatch_def active_def sample_state_def Let_def)
  obtain e s2 where z: "summarizeStatus (rv_ctl env) s1 = (e, s2)" by fastforce
  have r: "s2 = s'" "snd out = errs @ (case e of None \<Rightarrow> [] | Some err \<Rightarrow> [err])"
    using assms(1) a z by (auto simp: Reconcile_def assms(2) sample_state_def split: option.splits)
  have "succeeded env (rq, errs) s1"
    using assms(5) r summarizeStatus_ready [OF assms(4) z] by (simp add: succeeded_def)
  moreover have "exec_calls dels (rs_trace s') = exec_calls dels (rs_trace s1)"
    using summarizeStatus_trace [of "rv_ctl env" s1] z r(1) by (auto simp: fun_eq_iff)
  ultimately show thesis using that d by blast
qed

text \<open>
  C2. What a successful reconcile publishes stays published. In a fleet whose objects claim disjoint names,
  take a reconcile of an active object, from any version of it, that reports success. Whatever happens
  afterwards, except further reconciles of the same object, the cluster holds for every artifact of its
  spec the ExternalArtifact with the archive built by that reconcile: no action of a user on a
  ManifestGenerator, its finalizers included, and no reconcile of another object, successful, failing or
  finalizing, from fresh or stale reads, removes or changes it. Edits of ExternalArtifacts by hand are no
  steps of the fleet.
\<close>

theorem published_entries_stay:
  assumes "disjoint_claims owns" and "fleet_run owns f"
    and "fleet_step owns f (Reconciled k env) f1" and "(other_step owns k)\<^sup>*\<^sup>* f1 f2"
    and "Reconcile env = (out, Some s')" and "succeeded env out s'" and "rv_get env = Inr obj"
    and "active env obj" and "distinct (map ma_name (sp_artifacts (mg_spec obj)))"
  shows "\<exists>tmpDir remote dirs ws vals outs as. evaluated env obj tmpDir remote dirs ws vals outs \<and>
    list_all2 (\<lambda>spec a. \<exists>b. Build (rv_bld env) spec dirs (template_data outs vals) (mg_namespace obj) tmpDir ws = Inr b \<and>
      a = setArtifactRevisions spec remote b) (sp_artifacts (mg_spec obj)) as \<and>
    (\<forall>i < length as. fl_cluster f2 (artifact_ids obj ! i) =
       Some \<lparr>cl_object = external_artifact env obj, cl_artifact = Some (as ! i)\<rparr>)"
proof -
  from assms(3) obtain meta status rest dels where ok: "cond_ok (rv_cond env)" and v: "obj \<in> fl_versions f k"
    and f1: "f1 = stored meta status rest k s' (f\<lparr>fl_cluster := exec_calls dels (rs_trace s') (fl_cluster f)\<rparr>)"
    by (rule fleet_reconciledE) (use assms(5,7) in auto)
  have inv: "fleet_inv owns f" "fleet_inv owns f1"
    using fleet_run_inv [OF assms(2)] fleet_step_inv [OF assms(3)] by blast+
  from Reconcile_active [OF assms(5,7,8) ok assms(6), of dels] obtain out1 s1 where
    r: "reconcile env (sample_state obj) = (out1, s1)" "succeeded env out1 s1"
      "exec_calls dels (rs_trace s') = exec_calls dels (rs_trace s1)" .
  have o: "rs_obj (sample_state obj) = obj" "rs_trace (sample_state obj) = []" by (simp_all add: sample_state_def)
  from success_entries [OF ok r(1,2), unfolded o, OF refl assms(9), of dels "fl_cluster f"]
  obtain tmpDir remote dirs ws vals outs as where ev: "evaluated env obj tmpDir remote dirs ws vals outs"
    and as: "list_all2 (built_artifact env dirs (template_data outs vals) (mg_namespace obj) tmpDir ws remote)
      (sp_artifacts (mg_spec obj)) as"
    and e: "\<forall>i < length as. exec_calls dels (rs_trace s1) (fl_cluster f) (artifact_ids obj ! i) =
      Some (published_entry env obj (as ! i))" by blast
  have len: "length as = length (artifact_ids obj)" using list_all2_lengthD [OF as] by (simp add: artifact_ids_def)
  have "fl_cluster f2 (artifact_ids obj ! i) = Some (published_entry env obj (as ! i))" if "i < length as" for i
  proof -
    have "artifact_ids obj ! i \<in> owns k"
      using fleet_inv_version [OF inv(1) v] that len by (auto simp: touches_def)
    from others_isolated [OF assms(4) inv(2) assms(1) this] show ?thesis using e that r(3) f1 by simp
  qed
  with ev as show ?thesis unfolding built_artifact_def published_entry_def by blast
qed

text \<open>The first generator is created and reconciled, then the second.\<close>

definition sample_created :: "string \<Rightarrow> fleet \<Rightarrow> fleet" where
  "sample_created n f = put (''apps'', n) (sample_gen n) f"

definition sample_reconciled :: "string \<Rightarrow> fleet \<Rightarrow> fleet" where
  "sample_reconciled n f = stored True True (mg_status (rs_obj (sample_result n))) (''apps'', n) (sample_result n)
     (f\<lparr>fl_cluster := exec_calls (\<lambda>_. True) (rs_trace (sample_result n)) (fl_cluster f)\<rparr>)"

definition sample_empty :: fleet where
  "sample_empty = \<lparr>fl_objects = \<lambda>_. None, fl_versions = \<lambda>_. {}, fl_cluster = \<lambda>_. None\<rparr>"

lemma sample_created_step:
  "fl_objects f (''apps'', n) = None \<Longrightarrow> fleet_step (\<lambda>k. {k}) f (User (''apps'', n)) (sample_created n f)"
  unfolding sample_created_def
  by (rule fleet_step.create) (simp_all add: sample_gen_ids, simp_all add: sample_gen_def sample_obj_def)

lemma sample_reconciled_step:
  assumes "sample_succeeds n"
  shows "fleet_step (\<lambda>k. {k}) (sample_created n f) (Reconciled (''apps'', n) (sample_rec (sample_gen n)))
    (sample_reconciled n (sample_created n f))"
  unfolding sample_reconciled_def
  by (rule fleet_step.reconcile [OF sample_rec_cond sample_get _ sample_result(1) [OF assms]])
    (simp add: sample_created_def put_def)

lemma sample_active: "active (sample_rec (sample_gen ''out'')) (sample_gen ''out'')"
  by code_simp

theorem published_entries_stay_witness:
  "\<exists>a. fl_cluster (sample_reconciled ''web'' (sample_created ''web'' (sample_reconciled ''out'' (sample_created ''out'' sample_empty))))
     (''apps'', ''out'') =
   Some \<lparr>cl_object = external_artifact (sample_rec (sample_gen ''out'')) (sample_gen ''out''), cl_artifact = Some a\<rparr>"
proof -
  let ?k = "(''apps'', ''out'')" and ?env = "sample_rec (sample_gen ''out'')" and ?owns = "\<lambda>k :: key. {k}"
  let ?f = "sample_created ''out'' sample_empty"
  let ?f1 = "sample_reconciled ''out'' ?f"
  let ?f2 = "sample_created ''web'' ?f1"
  have run: "fleet_run ?owns ?f"
    using fleet_run.step [OF fleet_run.start sample_created_step] unfolding sample_empty_def by auto
  have "fl_objects ?f1 (''apps'', ''web'') = None"
    by (simp add: sample_reconciled_def sample_created_def stored_def put_def sample_empty_def)
  from sample_created_step [OF this] have "other_step ?owns ?k ?f1 ?f2"
    unfolding other_step_def by (intro exI [of _ "User (''apps'', ''web'')"]) simp
  moreover have "other_step ?owns ?k ?f2 (sample_reconciled ''web'' ?f2)"
    using sample_reconciled_step [OF sample_web] unfolding other_step_def
    by (intro exI [of _ "Reconciled (''apps'', ''web'') (sample_rec (sample_gen ''web''))"]) simp
  ultimately have others: "(other_step ?owns ?k)\<^sup>*\<^sup>* ?f1 (sample_reconciled ''web'' ?f2)" by simp
  have "disjoint_claims ?owns" by (simp add: disjoint_claims_def)
  from published_entries_stay [OF this run sample_reconciled_step [OF sample_out] others sample_result [OF sample_out]
      sample_get sample_active sample_gen_ids(4)]
  show ?thesis unfolding sample_gen_ids(1) using sample_gen_ids(3) by (fastforce dest: list_all2_lengthD)
qed

end
