(* ===== verification/Source_Watch.thy ===== *)
theory Source_Watch
  imports Api_Types
begin

text \<open>
  Which generators an event re-enqueues (\<open>internal/controller/manifestgenerator_manager.go\<close>): the two
  field indexes, the event handlers that query them, and the predicates that drop events. The cache
  is a parameter: the list of generators, or the error of listing; querying a field index returns
  the objects whose index values contain the key. \<open>Artifact.HasRevision\<close> is a parameter of the source
  predicate. \<open>SetupWithManager\<close> is the configuration it hands to the controller builder; how
  controller-runtime routes an event through it is not modelled.
\<close>

definition sl :: string where
  "sl = ''/''"

text \<open>\<open>client.ObjectKey.String()\<close> of a namespaced object.\<close>

definition object_key :: "string \<Rightarrow> string \<Rightarrow> string" where
  "object_key ns name = ns @ sl @ name"

definition indexBySourceRef :: "ManifestGenerator \<Rightarrow> string list" where
  "indexBySourceRef mg = map (\<lambda>src.
     let ns = (if sr_namespace src = [] then mg_namespace mg else sr_namespace src)
     in sr_kind src @ sl @ ns @ sl @ sr_name src) (sp_sources (mg_spec mg))"

definition indexByValuesFromRef :: "ManifestGenerator \<Rightarrow> string list" where
  "indexByValuesFromRef mg = map (\<lambda>ref.
     let ns = (if vr_namespace ref = [] then mg_namespace mg else vr_namespace ref)
     in ns @ sl @ vr_name ref) (sp_valuesFrom (mg_spec mg))"

definition list_matching ::
  "ManifestGenerator list res \<Rightarrow> (ManifestGenerator \<Rightarrow> string list) \<Rightarrow> string \<Rightarrow> ManifestGenerator list res" where
  "list_matching cache index key = map_sum id (filter (\<lambda>mg. key \<in> set (index mg))) cache"

text \<open>A source as the handlers see it; \<open>None\<close> for an object that is no source.\<close>

record source_obj =
  so_namespace :: string
  so_name :: string
  so_revision :: "string option"

definition requestsForSourceChange ::
  "ManifestGenerator list res \<Rightarrow> string res \<Rightarrow> source_obj option \<Rightarrow> (string \<times> string) list" where
  "requestsForSourceChange cache kind source =
     (case source of
        None \<Rightarrow> []
      | Some s \<Rightarrow>
          if so_revision s = None then []
          else case kind of
              Inl err \<Rightarrow> []
            | Inr k \<Rightarrow>
                (case list_matching cache indexBySourceRef
                        (k @ sl @ object_key (so_namespace s) (so_name s)) of
                   Inl err \<Rightarrow> []
                 | Inr mgs \<Rightarrow> map (\<lambda>mg. (mg_namespace mg, mg_name mg)) mgs))"

definition requestsForConfigMapChange ::
  "ManifestGenerator list res \<Rightarrow> string \<Rightarrow> string \<Rightarrow> (string \<times> string) list" where
  "requestsForConfigMapChange cache ns name =
     (case list_matching cache indexByValuesFromRef (object_key ns name) of
        Inl err \<Rightarrow> []
      | Inr mgs \<Rightarrow> map (\<lambda>mg. (mg_namespace mg, mg_name mg)) mgs)"

text \<open>The predicates; the resource version of an absent object is \<open>None\<close>.\<close>

definition configMapChangePredicate :: "string option \<Rightarrow> string option \<Rightarrow> bool" where
  "configMapChangePredicate old new =
     (if old = None \<or> new = None then False else old \<noteq> new)"

definition sourceChangePredicate ::
  "(string \<Rightarrow> string \<Rightarrow> bool) \<Rightarrow> source_obj option \<Rightarrow> source_obj option \<Rightarrow> bool" where
  "sourceChangePredicate has_revision old new =
     (case old of
        None \<Rightarrow> False
      | Some oldSrc \<Rightarrow>
          (case new of
             None \<Rightarrow> False
           | Some newSrc \<Rightarrow>
               (case so_revision newSrc of
                  None \<Rightarrow> False
                | Some newRev \<Rightarrow>
                    (case so_revision oldSrc of
                       None \<Rightarrow> True
                     | Some oldRev \<Rightarrow> \<not> has_revision oldRev newRev))))"

section \<open>Registration\<close>

text \<open>
  \<open>SetupWithManager\<close>: a missing engine is replaced by the Go engine, the two indexes are registered,
  and the builder receives the watches: what is watched, if only its metadata is, the handler that
  turns an event into requests and the predicate that filters the events.
\<close>

datatype watch_handler = SourceHandler | ConfigMapHandler
datatype watch_filter = SourceChanged | ConfigMapChanged

record watch =
  w_kind :: string
  w_metadata_only :: bool
  w_handler :: watch_handler
  w_filter :: watch_filter

record manager_env =
  me_index_field :: "string \<Rightarrow> goerr option"
  me_complete :: "watch list \<Rightarrow> goerr option"

definition sourceRefIndexKey :: string where
  "sourceRefIndexKey = ''.metadata.sourceRef''"

definition valuesFromRefIndexKey :: string where
  "valuesFromRefIndexKey = ''.metadata.valuesFromRef''"

definition watch_source :: "string \<Rightarrow> watch" where
  "watch_source kind = \<lparr>w_kind = kind, w_metadata_only = False, w_handler = SourceHandler, w_filter = SourceChanged\<rparr>"

definition controller_watches :: "watch list" where
  "controller_watches = map watch_source
     [SourceKindGitRepository, SourceKindOCIRepository, SourceKindBucket, SourceKindHelmChart,
      SourceKindExternalArtifact] @
     [\<lparr>w_kind = ''ConfigMap'', w_metadata_only = True, w_handler = ConfigMapHandler, w_filter = ConfigMapChanged\<rparr>]"

text \<open>The engine the reconciler ends up with, and the error returned.\<close>

definition SetupWithManager :: "manager_env \<Rightarrow> 'e \<Rightarrow> 'e option \<Rightarrow> 'e \<times> goerr option" where
  "SetupWithManager mgr newGoEngine engine =
     (let e = (case engine of None \<Rightarrow> newGoEngine | Some e \<Rightarrow> e) in
      (e, case me_index_field mgr sourceRefIndexKey of
            Some err \<Rightarrow> Some (Wrapf ''failed to set index field %q: %w'' [AStr sourceRefIndexKey] err)
          | None \<Rightarrow>
              (case me_index_field mgr valuesFromRefIndexKey of
                 Some err \<Rightarrow> Some (Wrapf ''failed to set index field %q: %w'' [AStr valuesFromRefIndexKey] err)
               | None \<Rightarrow> me_complete mgr controller_watches)))"

section \<open>Exactly the dependents are enqueued\<close>

definition plain_name :: "string \<Rightarrow> bool" where
  "plain_name s \<longleftrightarrow> CHR ''/'' \<notin> set s"

lemma key_unique:
  "plain_name a \<Longrightarrow> plain_name a' \<Longrightarrow> a @ sl @ b = a' @ sl @ b' \<longleftrightarrow> a = a' \<and> b = b'"
  using first_sep_unique [of "CHR ''/''" a a' b b'] by (auto simp: plain_name_def sl_def)

text \<open>The names in a spec are names of Kubernetes: they have no slash.\<close>

definition names_ok :: "ManifestGenerator \<Rightarrow> bool" where
  "names_ok mg \<longleftrightarrow> plain_name (mg_namespace mg) \<and>
     (\<forall>s \<in> set (sp_sources (mg_spec mg)). plain_name (sr_kind s) \<and> plain_name (sr_namespace s)) \<and>
     (\<forall>r \<in> set (sp_valuesFrom (mg_spec mg)). plain_name (vr_namespace r))"

definition reads_source :: "ManifestGenerator \<Rightarrow> string \<Rightarrow> string \<Rightarrow> string \<Rightarrow> bool" where
  "reads_source mg kind ns name \<longleftrightarrow> (\<exists>s \<in> set (sp_sources (mg_spec mg)). sr_kind s = kind \<and>
     (if sr_namespace s = [] then mg_namespace mg else sr_namespace s) = ns \<and> sr_name s = name)"

definition reads_configmap :: "ManifestGenerator \<Rightarrow> string \<Rightarrow> string \<Rightarrow> bool" where
  "reads_configmap mg ns name \<longleftrightarrow> (\<exists>r \<in> set (sp_valuesFrom (mg_spec mg)).
     (if vr_namespace r = [] then mg_namespace mg else vr_namespace r) = ns \<and> vr_name r = name)"

lemma indexBySourceRef_iff:
  assumes "names_ok mg" and "plain_name kind" and "plain_name ns"
  shows "kind @ sl @ object_key ns name \<in> set (indexBySourceRef mg) \<longleftrightarrow> reads_source mg kind ns name"
proof -
  have "sr_kind s @ sl @ (if sr_namespace s = [] then mg_namespace mg else sr_namespace s) @ sl @ sr_name s =
      kind @ sl @ object_key ns name \<longleftrightarrow> sr_kind s = kind \<and>
      (if sr_namespace s = [] then mg_namespace mg else sr_namespace s) = ns \<and> sr_name s = name"
    if "s \<in> set (sp_sources (mg_spec mg))" for s
    using that assms key_unique [of "sr_kind s" kind]
      key_unique [of "if sr_namespace s = [] then mg_namespace mg else sr_namespace s" ns]
    unfolding names_ok_def object_key_def by (smt (verit, best))
  then show ?thesis by (auto simp: indexBySourceRef_def reads_source_def Let_def image_iff eq_commute)
qed

lemma indexByValuesFromRef_iff:
  assumes "names_ok mg" and "plain_name ns"
  shows "object_key ns name \<in> set (indexByValuesFromRef mg) \<longleftrightarrow> reads_configmap mg ns name"
proof -
  have "(if vr_namespace r = [] then mg_namespace mg else vr_namespace r) @ sl @ vr_name r = object_key ns name \<longleftrightarrow>
      (if vr_namespace r = [] then mg_namespace mg else vr_namespace r) = ns \<and> vr_name r = name"
    if "r \<in> set (sp_valuesFrom (mg_spec mg))" for r
    using that assms key_unique [of "if vr_namespace r = [] then mg_namespace mg else vr_namespace r" ns]
    unfolding names_ok_def object_key_def by (smt (verit, best))
  then show ?thesis by (auto simp: indexByValuesFromRef_def reads_configmap_def Let_def image_iff eq_commute)
qed

text \<open>
  C38. Events reach exactly the dependents: a change of a source with an artifact enqueues a generator
  if and only if its spec refers to that source by kind, effective namespace and name; a change of
  a ConfigMap enqueues exactly the generators whose \<open>valuesFrom\<close> refers to it.
\<close>

theorem watches_exact:
  assumes "\<forall>mg \<in> set mgs. names_ok mg" and "plain_name kind" and "plain_name (so_namespace s)"
    and "so_revision s = Some rv"
  shows "set (requestsForSourceChange (Inr mgs) (Inr kind) (Some s)) =
      {(mg_namespace mg, mg_name mg) | mg. mg \<in> set mgs \<and> reads_source mg kind (so_namespace s) (so_name s)} \<and>
    set (requestsForConfigMapChange (Inr mgs) (so_namespace s) (so_name s)) =
      {(mg_namespace mg, mg_name mg) | mg. mg \<in> set mgs \<and> reads_configmap mg (so_namespace s) (so_name s)}"
  using assms
  by (auto simp: requestsForSourceChange_def requestsForConfigMapChange_def list_matching_def
      indexBySourceRef_iff indexByValuesFromRef_iff)

theorem watches_exact_witness:
  "set (requestsForSourceChange (Inr [sample_obj [] [] []]) (Inr ''GitRepository'')
     (Some \<lparr>so_namespace = ''apps'', so_name = ''repo'', so_revision = Some ''r''\<rparr>)) = {(''apps'', ''gen'')}"
  using watches_exact [of "[sample_obj [] [] []]" "''GitRepository''"
      "\<lparr>so_namespace = ''apps'', so_name = ''repo'', so_revision = Some ''r''\<rparr>" "''r''"]
  by (auto simp: names_ok_def plain_name_def reads_source_def sample_obj_def sample_spec_def)

text \<open>
  The source predicate passes an update exactly when the new object has an artifact and its
  revision differs from the old one, in either direction: a revision that moves back passes too.
\<close>

theorem sourceChangePredicate_iff:
  assumes "\<And>a b. has_revision a b \<longleftrightarrow> a = b"
  shows "sourceChangePredicate has_revision (Some old) (Some new) \<longleftrightarrow>
     so_revision new \<noteq> None \<and> so_revision old \<noteq> so_revision new"
  by (auto simp: sourceChangePredicate_def assms split: option.splits)

text \<open>
  The setup succeeds only when both indexes that the handlers query are registered, and an engine
  that the caller chose is kept.
\<close>

theorem SetupWithManager_ok:
  assumes "SetupWithManager mgr go engine = (e, None)"
  shows "me_index_field mgr sourceRefIndexKey = None \<and> me_index_field mgr valuesFromRefIndexKey = None \<and>
    me_complete mgr controller_watches = None \<and> (\<forall>e0. engine = Some e0 \<longrightarrow> e = e0) \<and> (engine = None \<longrightarrow> e = go)"
  using assms by (auto simp: SetupWithManager_def Let_def split: option.splits)

end
