(* ===== verification/Process_Main.thy ===== *)
theory Process_Main
  imports Source_Watch Reconciler
begin

text \<open>
  The entry point of the process (\<open>cmd/main.go\<close>): the program's own flags, the options of the
  controller-runtime manager, the configuration of the reconciler, and the order of the start: every
  step that fails ends the process before the manager runs, and the artifact server waits for the
  election. A trace lists the steps that were taken.

  Parameters, in the record \<open>main_env\<close>: the outcomes of the library constructors, the environment
  variable of the namespace, the cluster configuration. The flags that the runtime options of the GitOps
  Toolkit declare are fields of \<open>options\<close>; logging, probes, signals, the rate limiter and the
  registration of the schemes are calls into libraries and are left out.
\<close>

section \<open>Flags and options\<close>

definition controllerName :: string where
  "controllerName = ''flux-manifest-generator''"

text \<open>Durations are in nanoseconds.\<close>

definition Second :: int where "Second = 1000000000"
definition Minute :: int where "Minute = 60 * Second"

record flags =
  fl_metricsAddr :: string
  fl_healthAddr :: string
  fl_eventsAddr :: string
  fl_concurrent :: int
  fl_httpRetry :: int
  fl_reconciliationTimeout :: int
  fl_requeueDependency :: int

definition flag_defaults :: flags where
  "flag_defaults = \<lparr>fl_metricsAddr = '':8080'', fl_healthAddr = '':9440'', fl_eventsAddr = [], fl_concurrent = 10,
     fl_httpRetry = 9, fl_reconciliationTimeout = 10 * Minute, fl_requeueDependency = 5 * Second\<rparr>"

record options =
  op_NoCrossNamespaceRefs :: bool
  op_ArtifactDigestAlgo :: string
  op_StorageAddress :: string
  op_Enable :: bool
  op_ReleaseOnCancel :: bool
  op_LeaseDuration :: int
  op_RenewDeadline :: int
  op_AllNamespaces :: bool

text \<open>The options of the manager; \<open>mo_DefaultNamespaces\<close> is \<open>None\<close> when the cache sees every namespace.\<close>

record manager_options =
  mo_MetricsBindAddress :: string
  mo_HealthProbeBindAddress :: string
  mo_LeaderElection :: bool
  mo_LeaderElectionID :: string
  mo_ReleaseOnCancel :: bool
  mo_LeaseDuration :: int
  mo_RenewDeadline :: int
  mo_MaxConcurrentReconciles :: int
  mo_RecoverPanic :: bool
  mo_ReconciliationTimeout :: int
  mo_CacheDisableFor :: "string list"
  mo_DefaultNamespaces :: "string list option"

definition mgrConfig :: "flags \<Rightarrow> options \<Rightarrow> string \<Rightarrow> manager_options" where
  "mgrConfig fl ops runtimeNamespace =
     \<lparr>mo_MetricsBindAddress = fl_metricsAddr fl, mo_HealthProbeBindAddress = fl_healthAddr fl,
      mo_LeaderElection = op_Enable ops, mo_LeaderElectionID = controllerName @ ''-'' @ ''leader-election'',
      mo_ReleaseOnCancel = op_ReleaseOnCancel ops, mo_LeaseDuration = op_LeaseDuration ops,
      mo_RenewDeadline = op_RenewDeadline ops, mo_MaxConcurrentReconciles = fl_concurrent fl, mo_RecoverPanic = True,
      mo_ReconciliationTimeout = fl_reconciliationTimeout fl, mo_CacheDisableFor = [''Secret'', ''ConfigMap''],
      mo_DefaultNamespaces = (if \<not> op_AllNamespaces ops then Some [runtimeNamespace] else None)\<rparr>"

text \<open>The fields \<open>main\<close> sets on the reconciler; \<open>rc_APIReader\<close> says that the uncached reader is one of them.\<close>

record reconciler_config =
  rc_ControllerName :: string
  rc_APIReader :: bool
  rc_ArtifactFetchRetries :: int
  rc_DependencyRequeueInterval :: int
  rc_NoCrossNamespaceRefs :: bool

definition reconcilerConfig :: "flags \<Rightarrow> options \<Rightarrow> reconciler_config" where
  "reconcilerConfig fl ops =
     \<lparr>rc_ControllerName = controllerName, rc_APIReader = True, rc_ArtifactFetchRetries = fl_httpRetry fl,
      rc_DependencyRequeueInterval = fl_requeueDependency fl, rc_NoCrossNamespaceRefs = op_NoCrossNamespaceRefs ops\<rparr>"

section \<open>The start\<close>

record main_env =
  mn_AlgorithmForName :: "string \<Rightarrow> string res"
  mn_storage :: "string res"
  mn_SetGlobalJitter :: "goerr option"
  mn_runtimeNamespace :: string
  mn_GetConfig :: bool
  mn_NewManager :: "manager_options \<Rightarrow> manager_env res"
  mn_NewRecorder :: "string \<Rightarrow> string \<Rightarrow> goerr option"

datatype start =
    CanonicalDigest string
  | StorageAt string
  | GlobalJitter
  | Manager manager_options
  | Probes
  | EventRecorder string string
  | Controller reconciler_config
  | StartManager
  | Elected
  | StartServer string
  | Exit int

definition mustSetupEventRecorder :: "main_env \<Rightarrow> string \<Rightarrow> string \<Rightarrow> start list + start list" where
  "mustSetupEventRecorder env eventsAddr name =
     (case mn_NewRecorder env eventsAddr name of
        Some err \<Rightarrow> Inl [Exit 1]
      | None \<Rightarrow> Inr [EventRecorder eventsAddr name])"

text \<open>Up to the start of the manager: \<open>Inl\<close> is the trace of a process that ended.\<close>

definition main_setup :: "main_env \<Rightarrow> 'e \<Rightarrow> flags \<Rightarrow> options \<Rightarrow> start list + start list" where
  "main_setup env goEngine fl ops =
     (case mn_AlgorithmForName env (op_ArtifactDigestAlgo ops) of
        Inl err \<Rightarrow> Inl [Exit 1]
      | Inr digestAlgo \<Rightarrow>
     (case mn_storage env of
        Inl err \<Rightarrow> Inl [CanonicalDigest digestAlgo, Exit 1]
      | Inr basePath \<Rightarrow>
     (let tr = [CanonicalDigest digestAlgo, StorageAt basePath] in
      case mn_SetGlobalJitter env of
        Some err \<Rightarrow> Inl (tr @ [Exit 1])
      | None \<Rightarrow>
     (let tr = tr @ [GlobalJitter]; cfg = mgrConfig fl ops (mn_runtimeNamespace env) in
      if \<not> mn_GetConfig env then Inl (tr @ [Exit 1])
      else case mn_NewManager env cfg of
        Inl err \<Rightarrow> Inl (tr @ [Exit 1])
      | Inr mgr \<Rightarrow>
     (let tr = tr @ [Manager cfg, Probes] in
      case mustSetupEventRecorder env (fl_eventsAddr fl) controllerName of
        Inl stop \<Rightarrow> Inl (tr @ stop)
      | Inr recorder \<Rightarrow>
     (case SetupWithManager mgr goEngine None of
        (_, Some err) \<Rightarrow> Inl (tr @ recorder @ [Exit 1])
      | (_, None) \<Rightarrow> Inr (tr @ recorder @ [Controller (reconcilerConfig fl ops), StartManager])))))))"

text \<open>
  Afterwards two threads run: the manager, and the goroutine that waits for the election and then serves
  the artifacts. The process ends when one of them fails or the manager stops.
\<close>

definition running :: "start list \<Rightarrow> bool" where
  "running tr \<longleftrightarrow> (\<forall>n. Exit n \<notin> set tr)"

inductive process :: "main_env \<Rightarrow> 'e \<Rightarrow> flags \<Rightarrow> options \<Rightarrow> start list \<Rightarrow> bool"
  for env :: main_env and goEngine :: 'e and fl :: flags and ops :: options where
  setup_failed: "main_setup env goEngine fl ops = Inl tr \<Longrightarrow> process env goEngine fl ops tr"
| started: "main_setup env goEngine fl ops = Inr tr \<Longrightarrow> process env goEngine fl ops tr"
| elected: "process env goEngine fl ops tr \<Longrightarrow> running tr \<Longrightarrow> Elected \<notin> set tr \<Longrightarrow>
    process env goEngine fl ops (tr @ [Elected])"
| server: "process env goEngine fl ops tr \<Longrightarrow> running tr \<Longrightarrow> Elected \<in> set tr \<Longrightarrow>
    StartServer (op_StorageAddress ops) \<notin> set tr \<Longrightarrow> process env goEngine fl ops (tr @ [StartServer (op_StorageAddress ops)])"
| server_failed: "process env goEngine fl ops tr \<Longrightarrow> running tr \<Longrightarrow> StartServer (op_StorageAddress ops) \<in> set tr \<Longrightarrow>
    process env goEngine fl ops (tr @ [Exit 1])"
| manager_failed: "process env goEngine fl ops tr \<Longrightarrow> running tr \<Longrightarrow> process env goEngine fl ops (tr @ [Exit 1])"
| manager_stopped: "process env goEngine fl ops tr \<Longrightarrow> running tr \<Longrightarrow> process env goEngine fl ops (tr @ [Exit 0])"

section \<open>What a process may do\<close>

text \<open>A start that succeeds took every step, with the options and the configuration of the flags.\<close>

lemma main_setup_Inr:
  assumes "main_setup env goEngine fl ops = Inr tr"
  shows "\<exists>algo base mgr. mn_AlgorithmForName env (op_ArtifactDigestAlgo ops) = Inr algo \<and> mn_storage env = Inr base \<and>
    mn_NewManager env (mgrConfig fl ops (mn_runtimeNamespace env)) = Inr mgr \<and> snd (SetupWithManager mgr goEngine None) = None \<and>
    tr = [CanonicalDigest algo, StorageAt base, GlobalJitter, Manager (mgrConfig fl ops (mn_runtimeNamespace env)), Probes,
      EventRecorder (fl_eventsAddr fl) controllerName, Controller (reconcilerConfig fl ops), StartManager]"
  using assms
  by (auto simp: main_setup_def mustSetupEventRecorder_def Let_def split: sum.splits option.splits if_splits prod.splits)

text \<open>A start that fails ends with the exit code 1 before the manager or the server runs.\<close>

lemma main_setup_Inl:
  assumes "main_setup env goEngine fl ops = Inl tr"
  shows "last tr = Exit 1 \<and> StartManager \<notin> set tr \<and> StartServer a \<notin> set tr \<and> \<not> running tr"
  using assms
  by (auto simp: main_setup_def mustSetupEventRecorder_def Let_def running_def
      split: sum.splits option.splits if_splits prod.splits)

definition process_tail :: "string \<Rightarrow> start list \<Rightarrow> bool" where
  "process_tail a ys \<longleftrightarrow> (\<exists>zs. ys \<in> {zs, [Elected] @ zs, [Elected, StartServer a] @ zs} \<and> zs \<in> {[], [Exit 0], [Exit 1]})"

text \<open>
  The traces of a process: it ends with the exit code 1 during the setup, or the setup is complete before
  the manager starts, and the artifact server starts at most once and only after the election.
\<close>

theorem process_traces:
  assumes "process env goEngine fl ops tr"
  shows "main_setup env goEngine fl ops = Inl tr \<or>
    (\<exists>xs ys. main_setup env goEngine fl ops = Inr xs \<and> tr = xs @ ys \<and> process_tail (op_StorageAddress ops) ys)"
  using assms
proof induction
  case (setup_failed tr)
  then show ?case by simp
next
  case (started tr)
  then show ?case by (auto simp: process_tail_def)
next
  case (elected tr)
  then show ?case
    using main_setup_Inl [of env goEngine fl ops tr] by (auto simp: process_tail_def running_def)
next
  case (server tr)
  then show ?case
    using main_setup_Inl [of env goEngine fl ops tr] main_setup_Inr [of env goEngine fl ops]
    by (fastforce simp: process_tail_def running_def)
next
  case (server_failed tr)
  then show ?case
    using main_setup_Inl [of env goEngine fl ops tr] by (auto simp: process_tail_def running_def)
next
  case (manager_failed tr)
  then show ?case
    using main_setup_Inl [of env goEngine fl ops tr] by (auto simp: process_tail_def running_def)
next
  case (manager_stopped tr)
  then show ?case
    using main_setup_Inl [of env goEngine fl ops tr] by (auto simp: process_tail_def running_def)
qed

section \<open>The reconciler of the process\<close>

text \<open>The environment of a reconcile in a process with this configuration.\<close>

definition configured :: "reconciler_config \<Rightarrow> rec_env \<Rightarrow> bool" where
  "configured rc env \<longleftrightarrow> rv_controllerName env = rc_ControllerName rc \<and> (rv_APIReader env \<noteq> None \<longleftrightarrow> rc_APIReader rc) \<and>
     rv_dependencyRequeue env = rc_DependencyRequeueInterval rc \<and>
     ve_noCrossNamespaceRefs (rv_val env) = rc_NoCrossNamespaceRefs rc"

text \<open>
  C19. With \<open>--no-cross-namespace-refs\<close>, the values of an object depend on the ConfigMaps of its own namespace
  alone, as the API server has them: neither the cache nor another namespace has any influence.
\<close>

theorem main_values_isolated:
  assumes "op_NoCrossNamespaceRefs ops"
    and "configured (reconcilerConfig fl ops) env" and "configured (reconcilerConfig fl ops) env'"
    and "pe_yaml (ve_pipe (rv_val env)) = pe_yaml (ve_pipe (rv_val env'))"
    and "\<And>name. the (rv_APIReader env) (mg_namespace obj) name = the (rv_APIReader env') (mg_namespace obj) name"
  shows "resolveValues env obj = resolveValues env' obj"
proof -
  let ?r = "NewResolver (valuesReader env) True" and ?r' = "NewResolver (valuesReader env') True"
  have c: "ve_noCrossNamespaceRefs (rv_val env)" "ve_noCrossNamespaceRefs (rv_val env')"
    using assms(1-3) by (simp_all add: configured_def reconcilerConfig_def)
  have "valuesReader env (mg_namespace obj) name = valuesReader env' (mg_namespace obj) name" for name
    using assms(2,3,5) by (auto simp: configured_def reconcilerConfig_def valuesReader_def)
  then have "resolveOne yaml ?r ref (mg_namespace obj) = resolveOne yaml ?r' ref (mg_namespace obj)" for yaml ref
    by (intro resolveOne_local) simp_all
  then have "resolve_body yaml ?r (mg_namespace obj) = resolve_body yaml ?r' (mg_namespace obj)" for yaml
    by (intro ext) (simp add: resolve_body_def split: prod.split)
  then show ?thesis using c assms(4) by (simp add: resolveValues_def Resolve_def)
qed

definition sample_options :: options where
  "sample_options = \<lparr>op_NoCrossNamespaceRefs = True, op_ArtifactDigestAlgo = ''sha256'', op_StorageAddress = '':9090'',
     op_Enable = True, op_ReleaseOnCancel = True, op_LeaseDuration = 35 * Second, op_RenewDeadline = 30 * Second,
     op_AllNamespaces = True\<rparr>"

text \<open>A ConfigMap of the namespace \<open>apps\<close>, and anything elsewhere.\<close>

definition sample_reader :: "string gmap res \<Rightarrow> string \<Rightarrow> string \<Rightarrow> string gmap res" where
  "sample_reader other ns name = (if ns = ''apps'' then Inr [(''k'', ''x'')] else other)"

definition sample_process_env :: "string gmap res \<Rightarrow> rec_env" where
  "sample_process_env other = (sample_rec (sample_obj [] [] []))\<lparr>rv_controllerName := controllerName,
     rv_dependencyRequeue := 5 * Second, rv_val := sample_val\<lparr>ve_noCrossNamespaceRefs := True\<rparr>,
     rv_APIReader := Some (sample_reader other), rv_Client := (\<lambda>_ _. other)\<rparr>"

theorem main_values_isolated_witness:
  "resolveValues (sample_process_env (Inr [])) sample_vgen =
   resolveValues (sample_process_env (Inl (ExtErr ''forbidden''))) sample_vgen"
  by (rule main_values_isolated [of sample_options flag_defaults])
    (simp_all add: sample_options_def configured_def reconcilerConfig_def sample_process_env_def flag_defaults_def
      sample_reader_def sample_vgen_def sample_obj_def)

end
