(* ===== verification/Store.thy ===== *)
theory Store
  imports Main
begin

text \<open>
  A store of Go objects: the list of its objects, so that an allocation appends one and an address is
  an index. Nothing is ever freed. \<open>extends\<close> says that every object of a store is as it was in a later
  one. The types of the objects are those of the theories that use the store, \<open>Heap_Merge\<close> and
  \<open>Object_Copy\<close>.
\<close>

definition cell :: "'o list \<Rightarrow> nat \<Rightarrow> 'o option" where
  "cell h a = (if a < length h then Some (h ! a) else None)"

definition alloc :: "'o list \<Rightarrow> 'o \<Rightarrow> 'o list \<times> nat" where
  "alloc h obj = (h @ [obj], length h)"

definition extends :: "'o list \<Rightarrow> 'o list \<Rightarrow> bool" where
  "extends h h' \<longleftrightarrow> length h \<le> length h' \<and> (\<forall>a c. cell h a = Some c \<longrightarrow> cell h' a = Some c)"

lemma extends_refl [simp]: "extends h h"
  by (simp add: extends_def)

lemma extends_trans: "extends h h' \<Longrightarrow> extends h' h'' \<Longrightarrow> extends h h''"
  by (auto simp: extends_def)

lemma extends_alloc: "extends h (h @ [obj])"
  by (auto simp: extends_def cell_def nth_append split: if_splits)

lemma cell_update: "cell (h[i := obj]) a = (if a = i \<and> i < length h then Some obj else cell h a)"
  by (auto simp: cell_def nth_list_update)

lemma cell_new [simp]: "cell (h @ [obj]) (length h) = Some obj"
  by (simp add: cell_def)

lemma cell_bound: "cell h a = Some c \<Longrightarrow> a < length h"
  by (auto simp: cell_def split: if_splits)

end
