(* ===== verification/Heap_Merge.thy ===== *)
theory Heap_Merge
  imports Deep_Merge Store
begin

text \<open>
  The merge of \<open>internal/pipeline/merge.go\<close> (and its copy in \<open>internal/values/values.go\<close>) over an
  explicit store: maps, slices and byte slices are objects with an address, and a value of one of
  these types is a reference. \<open>Deep_Merge\<close> says which tree the result is; this theory says which
  objects it is made of. The comments of the code promise that nothing is mutated and that the
  result shares no map or slice with its inputs.

  The recursion follows references; \<open>fuel\<close> bounds its depth, as a cyclic store would make the code run out
  of stack. For a value that represents a tree, every fuel above the size of the tree is enough.
  Entries of a map are visited in key order.
\<close>

section \<open>The store\<close>

datatype hval =
    HNil
  | HBool bool
  | HInt int
  | HFloat "64 word"
  | HStr string
  | HBytes nat
  | HList nat
  | HMap nat

datatype hobj =
    OBytes string
  | OList "hval list"
  | OMap "hval gmap"

type_synonym store = "hobj list"

definition map_at :: "store \<Rightarrow> nat \<Rightarrow> hval gmap option" where
  "map_at h a = (case cell h a of Some (OMap m) \<Rightarrow> Some m | _ \<Rightarrow> None)"

definition list_at :: "store \<Rightarrow> nat \<Rightarrow> hval list option" where
  "list_at h a = (case cell h a of Some (OList xs) \<Rightarrow> Some xs | _ \<Rightarrow> None)"

text \<open>\<open>out[k] = v\<close> on a map and on a slice.\<close>

definition set_key :: "nat \<Rightarrow> string \<Rightarrow> hval \<Rightarrow> store \<Rightarrow> store option" where
  "set_key dst k v h = map_option (\<lambda>m. h[dst := OMap (mput k v m)]) (map_at h dst)"

definition set_index :: "nat \<Rightarrow> nat \<Rightarrow> hval \<Rightarrow> store \<Rightarrow> store option" where
  "set_index dst i v h = map_option (\<lambda>xs. h[dst := OList (xs[i := v])]) (list_at h dst)"

fun loopO :: "('x \<Rightarrow> store \<Rightarrow> store option) \<Rightarrow> 'x list \<Rightarrow> store \<Rightarrow> store option" where
  "loopO f [] h = Some h"
| "loopO f (x # xs) h = (case f x h of None \<Rightarrow> None | Some h' \<Rightarrow> loopO f xs h')"

section \<open>deepClone and deepMerge\<close>

text \<open>An entry of the result: the value computed by \<open>f\<close>, stored by \<open>set\<close>.\<close>

definition put_result ::
  "(hval \<Rightarrow> store \<Rightarrow> store option) \<Rightarrow> (store \<times> hval) option \<Rightarrow> store option" where
  "put_result put r = (case r of None \<Rightarrow> None | Some (h, v) \<Rightarrow> put v h)"

primrec heap_deepClone :: "nat \<Rightarrow> hval \<Rightarrow> store \<Rightarrow> (store \<times> hval) option" where
  "heap_deepClone 0 v h = None"
| "heap_deepClone (Suc n) v h =
     (case v of
        HMap a \<Rightarrow>
          (case map_at h a of
             None \<Rightarrow> None
           | Some m \<Rightarrow>
               (case alloc h (OMap []) of (h1, dst) \<Rightarrow>
                  map_option (\<lambda>h2. (h2, HMap dst))
                    (loopO (\<lambda>(k, x) h. put_result (set_key dst k) (heap_deepClone n x h)) m h1)))
      | HList a \<Rightarrow>
          (case list_at h a of
             None \<Rightarrow> None
           | Some xs \<Rightarrow>
               (case alloc h (OList (replicate (length xs) HNil)) of (h1, dst) \<Rightarrow>
                  map_option (\<lambda>h2. (h2, HList dst))
                    (loopO (\<lambda>(i, x) h. put_result (set_index dst i) (heap_deepClone n x h)) (enumerate 0 xs) h1)))
      | _ \<Rightarrow> Some (h, v))"

primrec heap_deepMerge :: "nat \<Rightarrow> hval \<Rightarrow> hval \<Rightarrow> store \<Rightarrow> (store \<times> hval) option" where
  "heap_deepMerge 0 a b h = None"
| "heap_deepMerge (Suc n) a b h =
     (case (a, b) of
        (HMap x, HMap y) \<Rightarrow>
          (case (map_at h x, map_at h y) of
             (Some am, Some bm) \<Rightarrow>
               (case alloc h (OMap []) of (h1, dst) \<Rightarrow>
                  (case loopO (\<lambda>(k, v) h. put_result (set_key dst k) (heap_deepClone n v h)) am h1 of
                     None \<Rightarrow> None
                   | Some h2 \<Rightarrow>
                       map_option (\<lambda>h3. (h3, HMap dst))
                         (loopO (\<lambda>(k, v) h.
                            (case map_at h dst of
                               None \<Rightarrow> None
                             | Some out \<Rightarrow>
                                 (case mget out k of
                                    Some cur \<Rightarrow> put_result (set_key dst k) (heap_deepMerge n cur v h)
                                  | None \<Rightarrow> put_result (set_key dst k) (heap_deepClone n v h)))) bm h2)))
           | _ \<Rightarrow> None)
      | _ \<Rightarrow> heap_deepClone (Suc n) b h)"

section \<open>The tree a value represents\<close>

text \<open>
  \<open>repr P Q h v t\<close>: the value \<open>v\<close> of the store \<open>h\<close> is the tree \<open>t\<close>; all its maps and slices are at
  addresses with \<open>P\<close>, all its byte slices at addresses with \<open>Q\<close>.
\<close>

definition same_entries :: "(hval \<Rightarrow> gval \<Rightarrow> bool) \<Rightarrow> hval gmap \<Rightarrow> gval gmap \<Rightarrow> bool" where
  "same_entries R hm m \<longleftrightarrow> list_all2 (\<lambda>e e'. fst e = fst e' \<and> R (snd e) (snd e')) hm m"

lemma same_entries_mono [mono]: "R \<le> R' \<Longrightarrow> same_entries R \<le> same_entries R'"
  unfolding same_entries_def le_fun_def le_bool_def
  by (auto elim!: list_all2_mono)

inductive repr :: "(nat \<Rightarrow> bool) \<Rightarrow> (nat \<Rightarrow> bool) \<Rightarrow> store \<Rightarrow> hval \<Rightarrow> gval \<Rightarrow> bool"
  for P :: "nat \<Rightarrow> bool" and Q :: "nat \<Rightarrow> bool" and h :: store where
  repr_nil: "repr P Q h HNil VNil"
| repr_bool: "repr P Q h (HBool b) (VBool b)"
| repr_int: "repr P Q h (HInt i) (VInt i)"
| repr_float: "repr P Q h (HFloat f) (VFloat f)"
| repr_str: "repr P Q h (HStr s) (VStr s)"
| repr_bytes: "Q a \<Longrightarrow> cell h a = Some (OBytes s) \<Longrightarrow> repr P Q h (HBytes a) (VBytes s)"
| repr_list: "P a \<Longrightarrow> cell h a = Some (OList xs) \<Longrightarrow> list_all2 (repr P Q h) xs ts \<Longrightarrow>
    repr P Q h (HList a) (VList ts)"
| repr_map: "P a \<Longrightarrow> cell h a = Some (OMap hm) \<Longrightarrow> same_entries (repr P Q h) hm m \<Longrightarrow>
    repr P Q h (HMap a) (VMap m)"
monos list.rel_mono

inductive_cases repr_HMapE: "repr P Q h (HMap a) t"
inductive_cases repr_HListE: "repr P Q h (HList a) t"
inductive_cases repr_VMapE: "repr P Q h v (VMap m)"
inductive_cases repr_VListE: "repr P Q h v (VList ts)"

section \<open>Frames\<close>

lemma map_at_Some: "map_at h a = Some m \<longleftrightarrow> cell h a = Some (OMap m)"
  by (auto simp: map_at_def split: option.splits hobj.splits)

lemma list_at_Some: "list_at h a = Some xs \<longleftrightarrow> cell h a = Some (OList xs)"
  by (auto simp: list_at_def split: option.splits hobj.splits)

lemma repr_frame:
  assumes "repr P Q h v t"
    and "\<And>a c. P a \<Longrightarrow> cell h a = Some c \<Longrightarrow> cell h' a = Some c \<and> P' a"
    and "\<And>a s. Q a \<Longrightarrow> cell h a = Some (OBytes s) \<Longrightarrow> cell h' a = Some (OBytes s) \<and> Q' a"
  shows "repr P' Q' h' v t"
  using assms(1)
proof induction
  case (repr_list a xs ts)
  then show ?case using assms(2) by (auto intro: repr.repr_list elim: list_all2_mono)
next
  case (repr_map a hm m)
  then have "same_entries (repr P' Q' h') hm m"
    unfolding same_entries_def by (auto elim: list_all2_mono)
  with repr_map show ?case using assms(2) by (auto intro: repr.repr_map)
qed (use assms(3) in \<open>auto intro: repr.intros\<close>)

lemma repr_extends: "repr P Q h v t \<Longrightarrow> extends h h' \<Longrightarrow> repr P Q h' v t"
  by (erule repr_frame) (auto simp: extends_def)

lemma same_entries_extends: "same_entries (repr P Q h) m tm \<Longrightarrow> extends h h' \<Longrightarrow> same_entries (repr P Q h') m tm"
  unfolding same_entries_def by (auto elim!: list_all2_mono intro: repr_extends)

lemma same_entries_put:
  assumes "same_entries R m tm" and "R v t"
  shows "same_entries R (mput k v m) (mput k t tm)"
  using assms(1) unfolding same_entries_def
proof (induction m tm rule: list_all2_induct)
  case Nil
  then show ?case using assms(2) by simp
next
  case (Cons e m e' tm)
  then show ?case using assms(2) by (cases e; cases e') auto
qed

lemma same_entries_get:
  assumes "same_entries R m tm"
  shows "rel_option R (mget m k) (mget tm k)"
  using assms unfolding same_entries_def
proof (induction m tm rule: list_all2_induct)
  case (Cons e m e' tm)
  then show ?case by (cases e; cases e') auto
qed simp

section \<open>The result under construction\<close>

text \<open>
  \<open>building h dst Q hh out tout\<close>: on the way from \<open>h\<close> to \<open>hh\<close> no object of \<open>h\<close> was touched, and the map
  \<open>out\<close> at \<open>dst\<close> holds \<open>tout\<close> in objects younger than \<open>dst\<close>.
\<close>

definition building ::
  "store \<Rightarrow> nat \<Rightarrow> (nat \<Rightarrow> bool) \<Rightarrow> store \<Rightarrow> hval gmap \<Rightarrow> gval gmap \<Rightarrow> bool" where
  "building h dst Q hh out tout \<longleftrightarrow> extends h hh \<and> length h \<le> dst \<and> map_at hh dst = Some out \<and>
     same_entries (repr (\<lambda>i. dst < i) Q hh) out tout"

definition building_list ::
  "store \<Rightarrow> nat \<Rightarrow> (nat \<Rightarrow> bool) \<Rightarrow> store \<Rightarrow> hval list \<Rightarrow> gval list \<Rightarrow> bool" where
  "building_list h dst Q hh ys ts \<longleftrightarrow> extends h hh \<and> length h \<le> dst \<and> list_at hh dst = Some ys \<and>
     list_all2 (repr (\<lambda>i. dst < i) Q hh) ys ts"

definition returns :: "(store \<times> hval) option \<Rightarrow> store \<Rightarrow> (nat \<Rightarrow> bool) \<Rightarrow> gval \<Rightarrow> bool" where
  "returns r h Q t \<longleftrightarrow> (\<exists>h' v. r = Some (h', v) \<and> extends h h' \<and> repr (\<lambda>i. length h \<le> i) Q h' v t)"

lemma building_alloc: "building h (length h) Q (h @ [OMap []]) [] []"
  by (auto simp: building_def extends_alloc map_at_Some cell_def same_entries_def)

lemma repr_set_dst:
  assumes "repr (\<lambda>i. dst < i) Q h v t" and "\<And>s. cell h dst \<noteq> Some (OBytes s)"
  shows "repr (\<lambda>i. dst < i) Q (h[dst := obj]) v t"
  using assms(1) by (rule repr_frame) (use assms(2) in \<open>auto simp: cell_update\<close>)

lemma extends_set_dst: "extends h hh \<Longrightarrow> length h \<le> dst \<Longrightarrow> extends h (hh[dst := obj])"
  unfolding extends_def by (auto simp: cell_update) (auto simp: cell_def split: if_splits)

lemma building_put:
  assumes "building h dst Q hh out tout" and "returns r hh Q t"
  shows "\<exists>hh' out'. put_result (set_key dst k) r = Some hh' \<and> building h dst Q hh' out' (mput k t tout)"
proof -
  from assms(2) obtain h' v where r: "r = Some (h', v)" "extends hh h'" "repr (\<lambda>i. length hh \<le> i) Q h' v t"
    unfolding returns_def by blast
  from assms(1) have b: "extends h hh" "length h \<le> dst" "cell hh dst = Some (OMap out)"
    "same_entries (repr (\<lambda>i. dst < i) Q hh) out tout"
    by (auto simp: building_def map_at_Some)
  from b(3) r(2) have c: "cell h' dst = Some (OMap out)" "dst < length h'" by (auto simp: extends_def dest: cell_bound)
  have v: "repr (\<lambda>i. dst < i) Q h' v t"
    using r(3) by (rule repr_frame) (use cell_bound [OF b(3)] in auto)
  let ?h = "h'[dst := OMap (mput k v out)]"
  have "same_entries (repr (\<lambda>i. dst < i) Q h') (mput k v out) (mput k t tout)"
    by (intro same_entries_put same_entries_extends [OF b(4) r(2)] v)
  then have "same_entries (repr (\<lambda>i. dst < i) Q ?h) (mput k v out) (mput k t tout)"
    unfolding same_entries_def by (rule list_all2_mono) (use c in \<open>auto intro: repr_set_dst\<close>)
  moreover have "extends h ?h" using extends_trans [OF b(1) r(2)] b(2) by (rule extends_set_dst)
  ultimately have "building h dst Q ?h (mput k v out) (mput k t tout)"
    using b(2) c by (simp add: building_def map_at_Some cell_update)
  moreover have "put_result (set_key dst k) r = Some ?h"
    using c by (simp add: put_result_def r(1) set_key_def map_at_Some [THEN iffD2, OF c(1)])
  ultimately show ?thesis by blast
qed

lemma building_list_put:
  assumes "building_list h dst Q hh ys ts" and "returns r hh Q t" and "i < length ys"
  shows "\<exists>hh' ys'. put_result (set_index dst i) r = Some hh' \<and> building_list h dst Q hh' ys' (ts[i := t])"
proof -
  from assms(2) obtain h' v where r: "r = Some (h', v)" "extends hh h'" "repr (\<lambda>i. length hh \<le> i) Q h' v t"
    unfolding returns_def by blast
  from assms(1) have b: "extends h hh" "length h \<le> dst" "cell hh dst = Some (OList ys)"
    "list_all2 (repr (\<lambda>i. dst < i) Q hh) ys ts"
    by (auto simp: building_list_def list_at_Some)
  from b(3) r(2) have c: "cell h' dst = Some (OList ys)" "dst < length h'" by (auto simp: extends_def dest: cell_bound)
  have v: "repr (\<lambda>i. dst < i) Q h' v t"
    using r(3) by (rule repr_frame) (use cell_bound [OF b(3)] in auto)
  let ?h = "h'[dst := OList (ys[i := v])]"
  have "list_all2 (repr (\<lambda>i. dst < i) Q h') ys ts"
    using b(4) by (rule list_all2_mono) (use r(2) in \<open>auto intro: repr_extends\<close>)
  then have "list_all2 (repr (\<lambda>i. dst < i) Q h') (ys[i := v]) (ts[i := t])"
    using v by (rule list_all2_update_cong)
  then have "list_all2 (repr (\<lambda>i. dst < i) Q ?h) (ys[i := v]) (ts[i := t])"
    by (rule list_all2_mono) (use c in \<open>auto intro: repr_set_dst\<close>)
  moreover have "extends h ?h" using extends_trans [OF b(1) r(2)] b(2) by (rule extends_set_dst)
  ultimately have "building_list h dst Q ?h (ys[i := v]) (ts[i := t])"
    using b(2) c by (simp add: building_list_def list_at_Some cell_update)
  moreover have "put_result (set_index dst i) r = Some ?h"
    using c by (simp add: put_result_def r(1) set_index_def list_at_Some [THEN iffD2, OF c(1)])
  ultimately show ?thesis by blast
qed

lemma building_returns: "building h dst Q hh out tout \<Longrightarrow> returns (Some (hh, HMap dst)) h Q (VMap tout)"
proof -
  assume b: "building h dst Q hh out tout"
  then have "same_entries (repr (\<lambda>i. length h \<le> i) Q hh) out tout"
    unfolding building_def same_entries_def
    by (auto elim!: list_all2_mono intro: repr_frame [where P = "\<lambda>i. dst < i" and Q = Q])
  with b show ?thesis by (auto simp: returns_def building_def map_at_Some intro: repr_map)
qed

lemma building_list_returns: "building_list h dst Q hh ys ts \<Longrightarrow> returns (Some (hh, HList dst)) h Q (VList ts)"
proof -
  assume b: "building_list h dst Q hh ys ts"
  then have "list_all2 (repr (\<lambda>i. length h \<le> i) Q hh) ys ts"
    unfolding building_list_def
    by (auto elim!: list_all2_mono intro: repr_frame [where P = "\<lambda>i. dst < i" and Q = Q])
  with b show ?thesis by (auto simp: returns_def building_list_def list_at_Some intro: repr_list)
qed

section \<open>Cloning\<close>

text \<open>A cloning function with enough fuel for the trees below some bound.\<close>

definition clones :: "(hval \<Rightarrow> store \<Rightarrow> (store \<times> hval) option) \<Rightarrow> nat \<Rightarrow> bool" where
  "clones f n \<longleftrightarrow> (\<forall>P Q h v t. repr P Q h v t \<longrightarrow> size t < n \<longrightarrow> returns (f v h) h Q (values_deepClone t))"

lemma clone_entries_loop:
  assumes "clones f n" and "same_entries (repr P Q h) m tm" and "\<forall>e \<in> set tm. size (snd e) < n"
    and "building h dst Q hh out tout"
  shows "\<exists>hh' out'. loopO (\<lambda>(k, x) h. put_result (set_key dst k) (f x h)) m hh = Some hh' \<and>
    building h dst Q hh' out' (values_clone_entries tm tout)"
  using assms(2-4) unfolding same_entries_def
proof (induction m tm arbitrary: hh out tout rule: list_all2_induct)
  case Nil
  then show ?case by auto
next
  case (Cons e m e' tm)
  obtain k x t where e: "e = (k, x)" "e' = (k, t)" "repr P Q h x t"
    using Cons.hyps(1) by (cases e; cases e') auto
  have "repr P Q hh x t" using e(3) Cons.prems(2) by (auto simp: building_def intro: repr_extends)
  then have "returns (f x hh) hh Q (values_deepClone t)"
    using assms(1) Cons.prems(1) e(2) unfolding clones_def by auto
  from building_put [OF Cons.prems(2) this] obtain h1 o1 where
    1: "put_result (set_key dst k) (f x hh) = Some h1" "building h dst Q h1 o1 (mput k (values_deepClone t) tout)" by blast
  from Cons.IH [OF _ 1(2)] Cons.prems(1) show ?case by (simp add: e 1(1))
qed

lemma clone_list_loop:
  assumes "clones f n" and "list_all2 (repr P Q h) xs ts" and "\<forall>t \<in> set ts. size t < n"
    and "building_list h dst Q hh ys (pre @ replicate (length ts) VNil)"
  shows "\<exists>hh' ys'. loopO (\<lambda>(i, x) h. put_result (set_index dst i) (f x h)) (enumerate (length pre) xs) hh = Some hh' \<and>
    building_list h dst Q hh' ys' (pre @ map values_deepClone ts)"
  using assms(2-4)
proof (induction xs ts arbitrary: hh ys pre rule: list_all2_induct)
  case Nil
  then show ?case by auto
next
  case (Cons x xs t ts)
  have "repr P Q hh x t" using Cons.hyps(1) Cons.prems(2) by (auto simp: building_list_def intro: repr_extends)
  then have r: "returns (f x hh) hh Q (values_deepClone t)"
    using assms(1) Cons.prems(1) unfolding clones_def by auto
  have "length ys = length (pre @ replicate (length (t # ts)) VNil)"
    using Cons.prems(2) unfolding building_list_def by (blast dest: list_all2_lengthD)
  then have "length pre < length ys" by simp
  from building_list_put [OF Cons.prems(2) r this] obtain h1 y1 where
    1: "put_result (set_index dst (length pre)) (f x hh) = Some h1"
      "building_list h dst Q h1 y1 ((pre @ [values_deepClone t]) @ replicate (length ts) VNil)" by auto
  from Cons.IH [OF _ 1(2)] Cons.prems(1) show ?case by (simp add: 1(1))
qed

lemma size_entry: "e \<in> set m \<Longrightarrow> size (snd e) < size (VMap m)"
  by (induction m) auto

lemma size_item: "t \<in> set ts \<Longrightarrow> size t < size (VList ts)"
  by (induction ts) auto

lemma clone_ok: "clones (heap_deepClone n) n"
proof (induction n)
  case 0
  then show ?case by (simp add: clones_def)
next
  case (Suc n)
  show ?case unfolding clones_def
  proof (intro allI impI)
    fix P Q h v t
    assume r: "repr P Q h v t" and s: "size t < Suc n"
    from r show "returns (heap_deepClone (Suc n) v h) h Q (values_deepClone t)"
    proof cases
      case (repr_map a hm m)
      have "\<forall>e \<in> set m. size (snd e) < n" using s size_entry [of _ m] repr_map(2) by fastforce
      from clone_entries_loop [OF Suc repr_map(5) this building_alloc] obtain h1 o1 where
        "loopO (\<lambda>(k, x) h'. put_result (set_key (length h) k) (heap_deepClone n x h')) hm (h @ [OMap []]) = Some h1"
        "building h (length h) Q h1 o1 (values_clone_entries m [])" by blast
      then show ?thesis
        using building_returns [of h "length h" Q h1 o1] repr_map
        by (simp add: map_at_Some [THEN iffD2] alloc_def values_deepClone.simps)
    next
      case (repr_list a xs ts)
      have s': "\<forall>t \<in> set ts. size t < n"
        using s size_item [of _ ts] repr_list(2) by fastforce
      have "building_list h (length h) Q (h @ [OList (replicate (length xs) HNil)]) (replicate (length xs) HNil)
          ([] @ replicate (length ts) VNil)"
        using list_all2_lengthD [OF repr_list(5)]
        by (auto simp: building_list_def extends_alloc list_at_Some cell_def list_all2_conv_all_nth intro: repr_nil)
      from clone_list_loop [OF Suc repr_list(5) s' this] obtain h1 y1 where
        "loopO (\<lambda>(i, x) h'. put_result (set_index (length h) i) (heap_deepClone n x h')) (enumerate 0 xs)
           (h @ [OList (replicate (length xs) HNil)]) = Some h1"
        "building_list h (length h) Q h1 y1 (map values_deepClone ts)" by auto
      then show ?thesis
        using building_list_returns [of h "length h" Q h1 y1] repr_list
        by (simp add: list_at_Some [THEN iffD2] alloc_def values_deepClone.simps)
    qed (auto simp: returns_def values_deepClone.simps intro: repr.intros)
  qed
qed

section \<open>Merging\<close>

definition merges :: "(hval \<Rightarrow> hval \<Rightarrow> store \<Rightarrow> (store \<times> hval) option) \<Rightarrow> nat \<Rightarrow> bool" where
  "merges f n \<longleftrightarrow> (\<forall>P P' Q h a b ta tb. repr P Q h a ta \<longrightarrow> repr P' Q h b tb \<longrightarrow> wf_val ta \<longrightarrow> wf_val tb \<longrightarrow>
     size ta < n \<longrightarrow> size tb < n \<longrightarrow> returns (f a b h) h Q (values_deepMerge ta tb))"

text \<open>The second loop. The keys still to come hold the clones of the first one.\<close>

lemma merge_entries_loop:
  assumes "clones f n" and "merges g n" and "same_entries (repr P Q h) bm tbm" and "wf_map tbm"
    and "\<forall>e \<in> set tbm. size (snd e) < n" and "building h dst Q hh out tout"
    and "\<forall>k \<in> set (mkeys tbm). \<forall>t. mget tout k = Some t \<longrightarrow> wf_val t \<and> size t < n"
  shows "\<exists>hh' out'. loopO (\<lambda>(k, v) h. (case map_at h dst of
        None \<Rightarrow> None
      | Some out \<Rightarrow>
          (case mget out k of
             Some cur \<Rightarrow> put_result (set_key dst k) (g cur v h)
           | None \<Rightarrow> put_result (set_key dst k) (f v h)))) bm hh = Some hh' \<and>
    building h dst Q hh' out' (values_merge_entries tout tbm)"
  using assms(3-7) unfolding same_entries_def
proof (induction bm tbm arbitrary: hh out tout rule: list_all2_induct)
  case Nil
  then show ?case by auto
next
  case (Cons e bm e' tbm)
  obtain k v t where e: "e = (k, v)" "e' = (k, t)" "repr P Q h v t"
    using Cons.hyps(1) by (cases e; cases e') auto
  note b = Cons.prems(3)
  have v: "repr P Q hh v t" using e(3) b by (auto simp: building_def intro: repr_extends)
  have wf: "wf_val t" "wf_map tbm" "size t < n" "k \<notin> set (mkeys tbm)"
    using Cons.prems(1,2) wf_map_Cons [of k t tbm] wf_map_keys [of "(k, t) # tbm"] unfolding e by auto
  have at: "map_at hh dst = Some out" "same_entries (repr (\<lambda>i. dst < i) Q hh) out tout"
    using b by (auto simp: building_def)
  let ?r = "case mget out k of Some cur \<Rightarrow> g cur v hh | None \<Rightarrow> f v hh"
  let ?t = "case mget tout k of Some cur \<Rightarrow> values_deepMerge cur t | None \<Rightarrow> values_deepClone t"
  have "returns ?r hh Q ?t"
  proof (cases "mget tout k")
    case None
    then have "mget out k = None" using same_entries_get [OF at(2), of k] by simp
    then show ?thesis using None assms(1) v wf(3) unfolding clones_def by auto
  next
    case (Some cur)
    then obtain x where x: "mget out k = Some x" "repr (\<lambda>i. dst < i) Q hh x cur"
      using same_entries_get [OF at(2), of k] by (auto simp: option_rel_Some2)
    moreover have "wf_val cur \<and> size cur < n" using Cons.prems(4) Some e(2) by simp
    ultimately show ?thesis using Some assms(2) v wf unfolding merges_def by auto
  qed
  from building_put [OF b this] obtain h1 o1 where
    1: "put_result (set_key dst k) ?r = Some h1" "building h dst Q h1 o1 (mput k ?t tout)" by blast
  have rest: "\<forall>k' \<in> set (mkeys tbm). \<forall>t'. mget (mput k ?t tout) k' = Some t' \<longrightarrow> wf_val t' \<and> size t' < n"
    using Cons.prems(4) wf(4) unfolding e by (auto simp: mget_mput)
  have tree: "values_merge_entries tout (e' # tbm) = values_merge_entries (mput k ?t tout) tbm"
    unfolding e by (simp split: option.split)
  have step: "(case mget out k of Some cur \<Rightarrow> put_result (set_key dst k) (g cur v hh)
      | None \<Rightarrow> put_result (set_key dst k) (f v hh)) = Some h1"
    using 1(1) by (simp split: option.splits)
  from Cons.IH [OF wf(2) _ 1(2) rest] Cons.prems(2) show ?case
    unfolding tree by (simp add: e(1) at(1) step)
qed

text \<open>Two maps: the first is cloned into a new map, then the entries of the second are merged into it.\<close>

lemma merge_maps_ok:
  assumes "merges (heap_deepMerge n) n"
    and "repr P Q h a (VMap am)" and "repr P' Q h b (VMap bm)"
    and "wf_val (VMap am)" and "wf_val (VMap bm)" and "size (VMap am) < Suc n" and "size (VMap bm) < Suc n"
  shows "returns (heap_deepMerge (Suc n) a b h) h Q (values_deepMerge (VMap am) (VMap bm))"
proof -
  from assms(2,3) obtain x y xm ym where v: "a = HMap x" "b = HMap y" "map_at h x = Some xm" "map_at h y = Some ym"
    "same_entries (repr P Q h) xm am" "same_entries (repr P' Q h) ym bm"
    by (auto elim!: repr_VMapE simp: map_at_Some)
  have size: "\<forall>e \<in> set am. size (snd e) < n" "\<forall>e \<in> set bm. size (snd e) < n"
    using assms(6,7) size_entry [of _ am] size_entry [of _ bm] by fastforce+
  from clone_entries_loop [OF clone_ok v(5) size(1) building_alloc] obtain h1 o1 where
    1: "loopO (\<lambda>(k, x) h'. put_result (set_key (length h) k) (heap_deepClone n x h')) xm (h @ [OMap []]) = Some h1"
      "building h (length h) Q h1 o1 (values_clone_entries am [])" by blast
  have am: "values_clone_entries am [] = am" using assms(4) by (simp add: values_clone_entries_id)
  have old: "\<forall>k \<in> set (mkeys bm). \<forall>t. mget am k = Some t \<longrightarrow> wf_val t \<and> size t < n"
    using assms(4) size(1) by (fastforce dest: wf_map_get mget_Some_mem)
  have "wf_map bm" using assms(5) by simp
  from merge_entries_loop [OF clone_ok assms(1) v(6) this size(2) 1(2) [unfolded am] old] obtain h2 o2 where
    2: "loopO (\<lambda>(k, v) h'. (case map_at h' (length h) of
          None \<Rightarrow> None
        | Some out \<Rightarrow>
            (case mget out k of
               Some cur \<Rightarrow> put_result (set_key (length h) k) (heap_deepMerge n cur v h')
             | None \<Rightarrow> put_result (set_key (length h) k) (heap_deepClone n v h')))) ym h1 = Some h2"
      "building h (length h) Q h2 o2 (values_merge_entries am bm)" by blast
  have "heap_deepMerge (Suc n) a b h = Some (h2, HMap (length h))"
    by (simp add: v alloc_def 1(1) 2(1))
  moreover have "values_deepMerge (VMap am) (VMap bm) = VMap (values_merge_entries am bm)"
    using am by (simp add: values_deepMerge.simps)
  ultimately show ?thesis using building_returns [OF 2(2)] by simp
qed

lemma merge_ok: "merges (heap_deepMerge n) n"
proof (induction n)
  case 0
  then show ?case by (simp add: merges_def)
next
  case (Suc n)
  show ?case unfolding merges_def
  proof (intro allI impI)
    fix P P' Q h a b ta tb
    assume r: "repr P Q h a ta" "repr P' Q h b tb" and w: "wf_val ta" "wf_val tb"
      and s: "size ta < Suc n" "size tb < Suc n"
    show "returns (heap_deepMerge (Suc n) a b h) h Q (values_deepMerge ta tb)"
    proof (cases "is_VMap ta \<and> is_VMap tb")
      case False
      have "heap_deepMerge (Suc n) a b h = heap_deepClone (Suc n) b h"
        using False r by (cases a; cases b) (auto elim!: repr_HMapE)
      moreover have "values_deepMerge ta tb = values_deepClone tb"
        using False by (cases ta; cases tb) (auto simp: values_deepMerge.simps)
      ultimately show ?thesis using clone_ok [of "Suc n"] r(2) s(2) unfolding clones_def by simp
    next
      case True
      then obtain am bm where t: "ta = VMap am" "tb = VMap bm" by (auto simp: is_VMap_iff)
      show ?thesis using r w s unfolding t by (intro merge_maps_ok [OF Suc])
    qed
  qed
qed

section \<open>Isolation\<close>

definition represents :: "store \<Rightarrow> hval \<Rightarrow> gval \<Rightarrow> bool" where
  "represents h v t = repr (\<lambda>_. True) (\<lambda>_. True) h v t"

lemma represents_write:
  assumes "represents h v t" and "extends h h'" and "length h \<le> i"
  shows "represents (h'[i := obj]) v t"
  using assms(1) unfolding represents_def
  by (rule repr_frame) (use assms(2,3) in \<open>auto simp: extends_def cell_update dest: cell_bound\<close>)

lemma extends_nth: "extends h h' \<Longrightarrow> i < length h \<Longrightarrow> h' ! i = h ! i"
  by (auto simp: extends_def cell_def split: if_splits)

text \<open>The maps and slices that a value is made of; byte slices are not counted.\<close>

inductive reaches :: "store \<Rightarrow> hval \<Rightarrow> nat \<Rightarrow> bool" for h :: store where
  at_map: "map_at h a = Some m \<Longrightarrow> reaches h (HMap a) a"
| at_list: "list_at h a = Some xs \<Longrightarrow> reaches h (HList a) a"
| in_map: "map_at h a = Some m \<Longrightarrow> (k, v) \<in> set m \<Longrightarrow> reaches h v i \<Longrightarrow> reaches h (HMap a) i"
| in_list: "list_at h a = Some xs \<Longrightarrow> v \<in> set xs \<Longrightarrow> reaches h v i \<Longrightarrow> reaches h (HList a) i"

lemma reaches_repr:
  assumes "reaches h v i" and "repr P Q h v t"
  shows "P i \<and> i < length h \<and> (\<forall>s. h ! i \<noteq> OBytes s)"
  using assms
proof (induction arbitrary: t rule: reaches.induct)
  case (at_map a m)
  then show ?case by (auto elim!: repr_HMapE simp: map_at_Some cell_def split: if_splits)
next
  case (at_list a xs)
  then show ?case by (auto elim!: repr_HListE simp: list_at_Some cell_def split: if_splits)
next
  case (in_map a m k v i)
  from in_map.prems in_map.hyps(1) obtain tm where "same_entries (repr P Q h) m tm"
    by (auto elim!: repr_HMapE simp: map_at_Some)
  moreover obtain j where "j < length m" "m ! j = (k, v)" using in_map.hyps(2) by (auto simp: in_set_conv_nth)
  ultimately have "repr P Q h v (snd (tm ! j))" unfolding same_entries_def by (auto dest: list_all2_nthD)
  then show ?case by (rule in_map.IH)
next
  case (in_list a xs v i)
  from in_list.prems in_list.hyps(1) obtain ts where "list_all2 (repr P Q h) xs ts"
    by (auto elim!: repr_HListE simp: list_at_Some)
  then obtain t' where "repr P Q h v t'"
    using in_list.hyps(2) by (fastforce simp: list_all2_conv_all_nth in_set_conv_nth)
  then show ?case by (rule in_list.IH)
qed

text \<open>
  C21. Merging maps and slices that live in a store: with fuel above the sizes of the two trees the
  merge returns; the value it returns represents the merged tree; no object that was there before
  is changed. The result shares no map or slice with its inputs: every map and slice it is made of is
  new, writing to one of them leaves both inputs as they are, and writing to any map or slice that was
  there before, those of the inputs in particular, leaves the result as it is. Byte slices are shared,
  as \<open>merge_shares_bytes\<close> shows, and are not meant here.
\<close>

theorem heap_merge_isolated:
  assumes "represents h a ta" and "represents h b tb" and "wf_val ta" and "wf_val tb"
    and "size ta < n" and "size tb < n"
  shows "\<exists>h' c. heap_deepMerge n a b h = Some (h', c) \<and> represents h' c (pipeline_deepMerge ta tb) \<and>
    (\<forall>i < length h. h' ! i = h ! i) \<and>
    (\<forall>i obj. reaches h' c i \<longrightarrow> length h \<le> i \<and> represents (h'[i := obj]) a ta \<and> represents (h'[i := obj]) b tb) \<and>
    (\<forall>i obj. i < length h \<longrightarrow> (\<forall>s. h ! i \<noteq> OBytes s) \<longrightarrow> represents (h'[i := obj]) c (pipeline_deepMerge ta tb)) \<and>
    (\<forall>i obj. reaches h' a i \<or> reaches h' b i \<longrightarrow> represents (h'[i := obj]) c (pipeline_deepMerge ta tb))"
proof -
  from merge_ok [of n] assms obtain h' c where m: "heap_deepMerge n a b h = Some (h', c)" "extends h h'"
    "repr (\<lambda>i. length h \<le> i) (\<lambda>_. True) h' c (pipeline_deepMerge ta tb)"
    unfolding merges_def returns_def represents_def same_functions by blast
  have r: "represents h' c (pipeline_deepMerge ta tb)"
    unfolding represents_def using m(3) by (rule repr_frame) auto
  have old: "represents (h'[i := obj]) c (pipeline_deepMerge ta tb)"
    if "i < length h" "\<forall>s. h' ! i \<noteq> OBytes s" for i obj
  proof -
    have "cell h' i \<noteq> Some (OBytes s)" for s
      using that by (auto simp: cell_def split: if_splits)
    with that(1) show ?thesis
      unfolding represents_def by (intro repr_frame [OF m(3)]) (auto simp: cell_update)
  qed
  have "i < length h \<and> (\<forall>s. h' ! i \<noteq> OBytes s)" if "reaches h' a i \<or> reaches h' b i" for i
  proof -
    have "repr (\<lambda>i. i < length h) (\<lambda>_. True) h' a ta" "repr (\<lambda>i. i < length h) (\<lambda>_. True) h' b tb"
      using assms(1,2) m(2) unfolding represents_def
      by (auto elim!: repr_frame simp: extends_def dest: cell_bound)
    then show ?thesis using that reaches_repr by blast
  qed
  then have "\<forall>i obj. reaches h' a i \<or> reaches h' b i \<longrightarrow> represents (h'[i := obj]) c (pipeline_deepMerge ta tb)"
    using old by blast
  moreover have "\<forall>i obj. reaches h' c i \<longrightarrow> length h \<le> i \<and> represents (h'[i := obj]) a ta \<and> represents (h'[i := obj]) b tb"
    using reaches_repr [OF _ m(3)] represents_write [OF assms(1) m(2)] represents_write [OF assms(2) m(2)] by blast
  moreover have "\<forall>i obj. i < length h \<longrightarrow> (\<forall>s. h ! i \<noteq> OBytes s) \<longrightarrow>
      represents (h'[i := obj]) c (pipeline_deepMerge ta tb)"
    using old extends_nth [OF m(2)] by simp
  ultimately show ?thesis using m(1) extends_nth [OF m(2)] r by blast
qed

definition sample_store :: store where
  "sample_store = [OMap [(''a'', HInt 1), (''m'', HMap 1)], OMap [(''x'', HInt 2)], OMap [(''m'', HMap 3)], OMap [(''y'', HList 4)], OList [HInt 5]]"

theorem heap_merge_isolated_witness:
  "\<exists>h' c. heap_deepMerge 40 (HMap 0) (HMap 2) sample_store = Some (h', c) \<and>
    represents h' c (VMap [(''a'', VInt 1), (''m'', VMap [(''x'', VInt 2), (''y'', VList [VInt 5])])]) \<and>
    reaches h' c 5 \<and> represents (h'[5 := OMap []]) (HMap 0) (VMap [(''a'', VInt 1), (''m'', VMap [(''x'', VInt 2)])])"
proof -
  let ?a = "VMap [(''a'', VInt 1), (''m'', VMap [(''x'', VInt 2)])]" and ?b = "VMap [(''m'', VMap [(''y'', VList [VInt 5])])]"
  let ?R = "repr (\<lambda>_. True) (\<lambda>_. True) sample_store"
  note c = cell_def sample_store_def same_entries_def repr_int
  have "?R (HList 4) (VList [VInt 5])" by (rule repr_list [where xs = "[HInt 5]"]) (simp_all add: c)
  then have "?R (HMap 3) (VMap [(''y'', VList [VInt 5])])"
    by (intro repr_map [where hm = "[(''y'', HList 4)]"]) (simp_all add: c)
  then have "?R (HMap 2) ?b" by (intro repr_map [where hm = "[(''m'', HMap 3)]"]) (simp_all add: c)
  moreover have "?R (HMap 1) (VMap [(''x'', VInt 2)])"
    by (rule repr_map [where hm = "[(''x'', HInt 2)]"]) (simp_all add: c)
  then have "?R (HMap 0) ?a" by (intro repr_map [where hm = "[(''a'', HInt 1), (''m'', HMap 1)]"]) (simp_all add: c)
  ultimately have "represents sample_store (HMap 0) ?a" "represents sample_store (HMap 2) ?b"
    by (simp_all add: represents_def)
  moreover have "wf_val ?a" "wf_val ?b" "size ?a < 40" "size ?b < 40" by code_simp+
  moreover have "pipeline_deepMerge ?a ?b = VMap [(''a'', VInt 1), (''m'', VMap [(''x'', VInt 2), (''y'', VList [VInt 5])])]"
    by code_simp
  ultimately obtain h' c' where h: "heap_deepMerge 40 (HMap 0) (HMap 2) sample_store = Some (h', c')"
    "represents h' c' (VMap [(''a'', VInt 1), (''m'', VMap [(''x'', VInt 2), (''y'', VList [VInt 5])])])"
    "\<forall>i obj. reaches h' c' i \<longrightarrow> length sample_store \<le> i \<and> represents (h'[i := obj]) (HMap 0) ?a \<and>
       represents (h'[i := obj]) (HMap 2) ?b"
    using heap_merge_isolated [of sample_store "HMap 0" ?a "HMap 2" ?b 40] by metis
  have "map_option (\<lambda>(h, c). (c, map_at h 5 \<noteq> None)) (heap_deepMerge 40 (HMap 0) (HMap 2) sample_store) = Some (HMap 5, True)"
    by code_simp
  then have "reaches h' c' 5" unfolding h(1) by (auto intro: at_map)
  with h show ?thesis by blast
qed

text \<open>
  Byte slices are not cloned: the result below holds the byte slice of its input, so a write to it is
  seen through both.
\<close>

lemma merge_shares_bytes:
  "heap_deepMerge 9 (HMap 2) (HMap 1) [OBytes ''x'', OMap [(''f'', HBytes 0)], OMap []] =
     Some ([OBytes ''x'', OMap [(''f'', HBytes 0)], OMap [], OMap [(''f'', HBytes 0)]], HMap 3)"
  by code_simp

end
