(* ===== verification/Object_Copy.thy ===== *)
theory Object_Copy
  imports Api_Types Store "HOL-Library.Monad_Syntax"
begin

text \<open>
  The deep copies of the API objects (\<open>api/v1alpha1/zz_generated.deepcopy.go\<close>) over a store. The
  reconciler works on the object in place and compares it at the end with \<open>oldObj := obj.DeepCopy()\<close>,
  so the copy must share no memory with the original. Here a struct is the value of its fields, in
  which a pointer or a slice is an address, \<open>None\<close> for nil; every object of the store is the target of
  a pointer or the array of a slice. \<open>DeepCopyInto\<close> takes the value of \<open>in\<close> and returns the value it
  writes into \<open>out\<close>; \<open>None\<close> as its result is a dangling or ill-typed address, which Go's types exclude.
  An object appears in the store after the objects it refers to; addresses cannot be observed.

  Parameters, in the record \<open>copy_lib\<close>: the \<open>DeepCopyInto\<close> of \<open>metav1.ObjectMeta\<close>, of
  \<open>metav1.Condition\<close> and of the raw JSON of the values, with the contract of every such function, the
  locale \<open>deep_copier\<close>.
\<close>

section \<open>Objects in memory\<close>

record MMergeStep =
  mm_From :: "nat option"

record MPipelineStep =
  mp_Name :: string
  mp_Load :: "nat option"
  mp_Filter :: "nat option"
  mp_Map :: "nat option"
  mp_Group :: "nat option"
  mp_Merge :: "nat option"

record MManifestArtifact =
  mf_Name :: string
  mf_Revision :: string
  mf_OriginRevision :: string
  mf_ForEach :: "nat option"
  mf_Templates :: "nat option"

record MSpec =
  mc_Interval :: int
  mc_Suspend :: bool
  mc_Sources :: "nat option"
  mc_Values :: "nat option"
  mc_ValuesFrom :: "nat option"
  mc_Pipeline :: "nat option"
  mc_Artifacts :: "nat option"

record MStatus =
  mt_LastHandledReconcileAt :: string
  mt_Conditions :: "nat option"
  mt_ObservedGeneration :: int
  mt_Inventory :: "nat option"
  mt_ObservedSourcesDigest :: string

text \<open>The metadata as far as the program reads it; \<open>mo_deleting\<close> stands for the deletion timestamp.\<close>

record MObjectMeta =
  mo_name :: string
  mo_namespace :: string
  mo_uid :: string
  mo_generation :: int
  mo_annotations :: "nat option"
  mo_finalizers :: "nat option"
  mo_deleting :: bool

record MManifestGenerator =
  mx_ObjectMeta :: MObjectMeta
  mx_Spec :: MSpec
  mx_Status :: MStatus

datatype gobj =
    CLoad LoadStep
  | CFilter FilterStep
  | CMap MapStep
  | CGroup GroupStep
  | CMerge MMergeStep
  | CForEach ForEachSpec
  | CJSON "nat option"
  | CBytes string
  | CStrings "string list"
  | CStringMap "string gmap"
  | CTemplates "TemplateSpec list"
  | CSources "SourceReference list"
  | CValuesFrom "ValuesReference list"
  | CPipeline "MPipelineStep list"
  | CArtifacts "MManifestArtifact list"
  | CConditions "Condition list"
  | CInventory "ExternalArtifactReference list"
  | CGenerator MManifestGenerator
  | CGenerators "MManifestGenerator list"

type_synonym memory = "gobj list"
type_synonym 'c copier = "'c \<Rightarrow> memory \<Rightarrow> (memory \<times> 'c) option"

section \<open>The generated functions\<close>

text \<open>\<open>*out = *in\<close> for a struct without references, and \<open>copy\<close> of an array of such structs.\<close>

definition DeepCopyInto_flat :: "'c copier" where
  "DeepCopyInto_flat c h = Some (h, c)"

text \<open>
  The common shape of \<open>DeepCopy\<close> and of the blocks \<open>if in.F != nil\<close>: nil stays nil, otherwise a new object
  receives the copy of the old one.
\<close>

definition copy_ref :: "gobj copier \<Rightarrow> nat option copier" where
  "copy_ref f r h =
     (case r of
        None \<Rightarrow> Some (h, None)
      | Some a \<Rightarrow> do {
          c \<leftarrow> cell h a;
          (h1, c1) \<leftarrow> f c h;
          let (h2, b) = alloc h1 c1;
          Some (h2, Some b) })"

definition DeepCopy_flat :: "nat option copier" where
  "DeepCopy_flat = copy_ref DeepCopyInto_flat"

text \<open>\<open>for i := range *in { (*in)[i].DeepCopyInto(&(*out)[i]) }\<close>\<close>

fun copy_each :: "'c copier \<Rightarrow> 'c list copier" where
  "copy_each f [] h = Some (h, [])"
| "copy_each f (c # cs) h = do {
     (h1, c1) \<leftarrow> f c h;
     (h2, cs1) \<leftarrow> copy_each f cs h1;
     Some (h2, c1 # cs1) }"

record copy_lib =
  cl_ObjectMeta :: "MObjectMeta copier"
  cl_JSON :: "nat option copier"
  cl_Condition :: "Condition copier"

definition MergeStep_DeepCopyInto :: "MMergeStep copier" where
  "MergeStep_DeepCopyInto m h = do {
     (h, from) \<leftarrow> copy_ref DeepCopyInto_flat (mm_From m) h;
     Some (h, m\<lparr>mm_From := from\<rparr>) }"

fun copy_merge :: "gobj copier" where
  "copy_merge (CMerge m) h = do { (h, m1) \<leftarrow> MergeStep_DeepCopyInto m h; Some (h, CMerge m1) }"
| "copy_merge _ h = None"

definition MergeStep_DeepCopy :: "nat option copier" where
  "MergeStep_DeepCopy = copy_ref copy_merge"

definition PipelineStep_DeepCopyInto :: "MPipelineStep copier" where
  "PipelineStep_DeepCopyInto m h = do {
     (h, load) \<leftarrow> copy_ref DeepCopyInto_flat (mp_Load m) h;
     (h, filter) \<leftarrow> copy_ref DeepCopyInto_flat (mp_Filter m) h;
     (h, mapv) \<leftarrow> copy_ref DeepCopyInto_flat (mp_Map m) h;
     (h, group) \<leftarrow> copy_ref DeepCopyInto_flat (mp_Group m) h;
     (h, merge) \<leftarrow> copy_ref copy_merge (mp_Merge m) h;
     Some (h, m\<lparr>mp_Load := load, mp_Filter := filter, mp_Map := mapv, mp_Group := group, mp_Merge := merge\<rparr>) }"

definition ManifestArtifact_DeepCopyInto :: "MManifestArtifact copier" where
  "ManifestArtifact_DeepCopyInto m h = do {
     (h, forEach) \<leftarrow> copy_ref DeepCopyInto_flat (mf_ForEach m) h;
     (h, templates) \<leftarrow> copy_ref DeepCopyInto_flat (mf_Templates m) h;
     Some (h, m\<lparr>mf_ForEach := forEach, mf_Templates := templates\<rparr>) }"

fun copy_pipeline :: "gobj copier" where
  "copy_pipeline (CPipeline ms) h = do { (h, ms1) \<leftarrow> copy_each PipelineStep_DeepCopyInto ms h; Some (h, CPipeline ms1) }"
| "copy_pipeline _ h = None"

fun copy_artifacts :: "gobj copier" where
  "copy_artifacts (CArtifacts ms) h = do { (h, ms1) \<leftarrow> copy_each ManifestArtifact_DeepCopyInto ms h; Some (h, CArtifacts ms1) }"
| "copy_artifacts _ h = None"

fun copy_json :: "copy_lib \<Rightarrow> gobj copier" where
  "copy_json lib (CJSON raw) h = do { (h, raw1) \<leftarrow> cl_JSON lib raw h; Some (h, CJSON raw1) }"
| "copy_json lib _ h = None"

fun copy_conditions :: "copy_lib \<Rightarrow> gobj copier" where
  "copy_conditions lib (CConditions cs) h = do { (h, cs1) \<leftarrow> copy_each (cl_Condition lib) cs h; Some (h, CConditions cs1) }"
| "copy_conditions lib _ h = None"

definition Spec_DeepCopyInto :: "copy_lib \<Rightarrow> MSpec copier" where
  "Spec_DeepCopyInto lib m h = do {
     (h, sources) \<leftarrow> copy_ref DeepCopyInto_flat (mc_Sources m) h;
     (h, vals) \<leftarrow> copy_ref (copy_json lib) (mc_Values m) h;
     (h, valuesFrom) \<leftarrow> copy_ref DeepCopyInto_flat (mc_ValuesFrom m) h;
     (h, pipeline) \<leftarrow> copy_ref copy_pipeline (mc_Pipeline m) h;
     (h, artifacts) \<leftarrow> copy_ref copy_artifacts (mc_Artifacts m) h;
     Some (h, m\<lparr>mc_Sources := sources, mc_Values := vals, mc_ValuesFrom := valuesFrom, mc_Pipeline := pipeline,
       mc_Artifacts := artifacts\<rparr>) }"

definition Status_DeepCopyInto :: "copy_lib \<Rightarrow> MStatus copier" where
  "Status_DeepCopyInto lib m h = do {
     (h, conditions) \<leftarrow> copy_ref (copy_conditions lib) (mt_Conditions m) h;
     (h, inv) \<leftarrow> copy_ref DeepCopyInto_flat (mt_Inventory m) h;
     Some (h, m\<lparr>mt_Conditions := conditions, mt_Inventory := inv\<rparr>) }"

definition ManifestGenerator_DeepCopyInto :: "copy_lib \<Rightarrow> MManifestGenerator copier" where
  "ManifestGenerator_DeepCopyInto lib m h = do {
     (h, meta) \<leftarrow> cl_ObjectMeta lib (mx_ObjectMeta m) h;
     (h, spec) \<leftarrow> Spec_DeepCopyInto lib (mx_Spec m) h;
     (h, status) \<leftarrow> Status_DeepCopyInto lib (mx_Status m) h;
     Some (h, m\<lparr>mx_ObjectMeta := meta, mx_Spec := spec, mx_Status := status\<rparr>) }"

fun copy_generator :: "copy_lib \<Rightarrow> gobj copier" where
  "copy_generator lib (CGenerator m) h = do { (h, m1) \<leftarrow> ManifestGenerator_DeepCopyInto lib m h; Some (h, CGenerator m1) }"
| "copy_generator lib _ h = None"

definition ManifestGenerator_DeepCopy :: "copy_lib \<Rightarrow> nat option copier" where
  "ManifestGenerator_DeepCopy lib = copy_ref (copy_generator lib)"

text \<open>The items of a list; its metadata has no reference that the program reads.\<close>

fun copy_items :: "copy_lib \<Rightarrow> gobj copier" where
  "copy_items lib (CGenerators ms) h = do { (h, ms1) \<leftarrow> copy_each (ManifestGenerator_DeepCopyInto lib) ms h; Some (h, CGenerators ms1) }"
| "copy_items lib _ h = None"

definition ManifestGeneratorList_DeepCopyInto :: "copy_lib \<Rightarrow> nat option copier" where
  "ManifestGeneratorList_DeepCopyInto lib = copy_ref (copy_items lib)"

section \<open>What a deep copy promises\<close>

text \<open>
  \<open>R P h c x\<close>: in the memory \<open>h\<close> the Go value \<open>c\<close> is the value \<open>x\<close> of the model, and every address
  it reaches is one with \<open>P\<close>. A deep copy leaves the memory as it was and yields the same value at new
  addresses only.
\<close>

locale deep_copier =
  fixes R :: "(nat \<Rightarrow> bool) \<Rightarrow> memory \<Rightarrow> 'c \<Rightarrow> 'x \<Rightarrow> bool" and copy :: "'c copier"
  assumes framed: "R P h c x \<Longrightarrow> (\<And>a obj. P a \<Longrightarrow> cell h a = Some obj \<Longrightarrow> cell h' a = Some obj \<and> P' a) \<Longrightarrow> R P' h' c x"
    and deep: "R P h c x \<Longrightarrow> \<exists>h' c'. copy c h = Some (h', c') \<and> extends h h' \<and> R (\<lambda>i. length h \<le> i) h' c' x"
begin

lemma later: "R P h c x \<Longrightarrow> extends h h' \<Longrightarrow> R P h' c x"
  by (erule framed) (simp add: extends_def)

text \<open>The copy of a part, after other parts have been copied since \<open>h0\<close>.\<close>

lemma step:
  assumes "R P h0 c x" and "extends h0 h"
  obtains h' c' where "copy c h = Some (h', c')" "extends h h'" "R (\<lambda>i. length h0 \<le> i) h' c' x"
proof -
  from deep [OF later [OF assms]] obtain h' c' where
    d: "copy c h = Some (h', c')" "extends h h'" "R (\<lambda>i. length h \<le> i) h' c' x" by blast
  have "R (\<lambda>i. length h0 \<le> i) h' c' x"
    using d(3) by (rule framed) (use assms(2) in \<open>simp add: extends_def\<close>)
  with d that show thesis by blast
qed

end

section \<open>The combinators\<close>

named_theorems copiers \<open>deep copies\<close>

definition flat :: "('c \<Rightarrow> 'x \<Rightarrow> bool) \<Rightarrow> (nat \<Rightarrow> bool) \<Rightarrow> memory \<Rightarrow> 'c \<Rightarrow> 'x \<Rightarrow> bool" where
  "flat Q P h c x = Q c x"

definition rep_ref :: "'x \<Rightarrow> ((nat \<Rightarrow> bool) \<Rightarrow> memory \<Rightarrow> gobj \<Rightarrow> 'x \<Rightarrow> bool) \<Rightarrow>
    (nat \<Rightarrow> bool) \<Rightarrow> memory \<Rightarrow> nat option \<Rightarrow> 'x \<Rightarrow> bool" where
  "rep_ref z R P h r x =
     (case r of None \<Rightarrow> x = z | Some a \<Rightarrow> P a \<and> (\<exists>c. cell h a = Some c \<and> R P h c x))"

definition rep_each :: "((nat \<Rightarrow> bool) \<Rightarrow> memory \<Rightarrow> 'c \<Rightarrow> 'x \<Rightarrow> bool) \<Rightarrow>
    (nat \<Rightarrow> bool) \<Rightarrow> memory \<Rightarrow> 'c list \<Rightarrow> 'x list \<Rightarrow> bool" where
  "rep_each R P h = list_all2 (R P h)"

definition boxed :: "('c \<Rightarrow> gobj) \<Rightarrow> ((nat \<Rightarrow> bool) \<Rightarrow> memory \<Rightarrow> 'c \<Rightarrow> 'x \<Rightarrow> bool) \<Rightarrow>
    (nat \<Rightarrow> bool) \<Rightarrow> memory \<Rightarrow> gobj \<Rightarrow> 'x \<Rightarrow> bool" where
  "boxed C R P h c x \<longleftrightarrow> (\<exists>m. c = C m \<and> R P h m x)"

definition pointee :: "((nat \<Rightarrow> bool) \<Rightarrow> memory \<Rightarrow> 'c \<Rightarrow> 'x \<Rightarrow> bool) \<Rightarrow>
    (nat \<Rightarrow> bool) \<Rightarrow> memory \<Rightarrow> 'c \<Rightarrow> 'x option \<Rightarrow> bool" where
  "pointee R P h c x \<longleftrightarrow> (\<exists>y. x = Some y \<and> R P h c y)"

interpretation flat: deep_copier "flat Q" DeepCopyInto_flat
  by unfold_locales (simp_all add: flat_def DeepCopyInto_flat_def)

lemma flat_copier [copiers]: "deep_copier (flat Q) DeepCopyInto_flat"
  by unfold_locales

lemma ref_copier [copiers]:
  assumes "deep_copier R f"
  shows "deep_copier (rep_ref z R) (copy_ref f)"
proof -
  note d = deep_copier.deep [OF assms] and fr = deep_copier.framed [OF assms]
  show ?thesis
  proof
    fix P h c x h' P'
    assume "rep_ref z R P h c x" and "\<And>a obj. P a \<Longrightarrow> cell h a = Some obj \<Longrightarrow> cell h' a = Some obj \<and> P' a"
    then show "rep_ref z R P' h' c x"
      using fr [of P h _ x h' P'] by (fastforce simp: rep_ref_def split: option.splits)
  next
    fix P h r x
    assume r: "rep_ref z R P h r x"
    show "\<exists>h' r'. copy_ref f r h = Some (h', r') \<and> extends h h' \<and> rep_ref z R (\<lambda>i. length h \<le> i) h' r' x"
    proof (cases r)
      case None
      with r show ?thesis by (simp add: copy_ref_def rep_ref_def)
    next
      case (Some a)
      with r obtain c where c: "cell h a = Some c" "R P h c x" by (auto simp: rep_ref_def)
      from d [OF c(2)] obtain h1 c1 where
        1: "f c h = Some (h1, c1)" "extends h h1" "R (\<lambda>i. length h \<le> i) h1 c1 x" by blast
      let ?h = "h1 @ [c1]"
      have e: "extends h1 ?h" by (rule extends_alloc)
      have "R (\<lambda>i. length h \<le> i) ?h c1 x" by (rule deep_copier.later [OF assms 1(3) e])
      then have "rep_ref z R (\<lambda>i. length h \<le> i) ?h (Some (length h1)) x"
        using 1(2) by (simp add: rep_ref_def extends_def)
      moreover have "copy_ref f r h = Some (?h, Some (length h1))"
        by (simp add: copy_ref_def Some c(1) 1(1) alloc_def)
      ultimately show ?thesis using extends_trans [OF 1(2) e] by blast
    qed
  qed
qed

lemma each_copier [copiers]:
  assumes "deep_copier R f"
  shows "deep_copier (rep_each R) (copy_each f)"
proof
  fix P h cs xs h' P'
  assume "rep_each R P h cs xs" and "\<And>a obj. P a \<Longrightarrow> cell h a = Some obj \<Longrightarrow> cell h' a = Some obj \<and> P' a"
  then show "rep_each R P' h' cs xs"
    unfolding rep_each_def by (auto elim!: list_all2_mono intro: deep_copier.framed [OF assms])
next
  fix P h cs xs
  have "\<exists>h' cs'. copy_each f cs h = Some (h', cs') \<and> extends h h' \<and> list_all2 (R (\<lambda>i. length h0 \<le> i) h') cs' xs"
    if "list_all2 (R P h0) cs xs" "extends h0 h" for h0
    using that
  proof (induction cs xs arbitrary: h rule: list_all2_induct)
    case Nil
    then show ?case by simp
  next
    case (Cons c cs x xs)
    from deep_copier.step [OF assms Cons.hyps(1) Cons.prems] obtain h1 c1 where
      1: "f c h = Some (h1, c1)" "extends h h1" "R (\<lambda>i. length h0 \<le> i) h1 c1 x" .
    from Cons.IH [OF extends_trans [OF Cons.prems 1(2)]] obtain h2 cs2 where
      2: "copy_each f cs h1 = Some (h2, cs2)" "extends h1 h2" "list_all2 (R (\<lambda>i. length h0 \<le> i) h2) cs2 xs" by blast
    from deep_copier.later [OF assms 1(3) 2(2)] show ?case
      using 1(1,2) 2 extends_trans [OF 1(2) 2(2)] by simp
  qed
  from this [of h] show "rep_each R P h cs xs \<Longrightarrow>
      \<exists>h' cs'. copy_each f cs h = Some (h', cs') \<and> extends h h' \<and> rep_each R (\<lambda>i. length h \<le> i) h' cs' xs"
    by (simp add: rep_each_def)
qed

lemma boxed_copier:
  assumes "deep_copier R f"
    and "\<And>m h. g (C m) h = Option.bind (f m h) (\<lambda>(h, m1). Some (h, C m1))"
  shows "deep_copier (boxed C R) g"
proof
  fix P h c x h' P'
  assume "boxed C R P h c x" and "\<And>a obj. P a \<Longrightarrow> cell h a = Some obj \<Longrightarrow> cell h' a = Some obj \<and> P' a"
  then show "boxed C R P' h' c x"
    unfolding boxed_def by (blast intro: deep_copier.framed [OF assms(1)])
next
  fix P h c x
  assume "boxed C R P h c x"
  then obtain m where m: "c = C m" "R P h m x" by (auto simp: boxed_def)
  from deep_copier.deep [OF assms(1) m(2)] m(1)
  show "\<exists>h' c'. g c h = Some (h', c') \<and> extends h h' \<and> boxed C R (\<lambda>i. length h \<le> i) h' c' x"
    by (auto simp: assms(2) boxed_def)
qed

lemma pointee_copier [copiers]:
  assumes "deep_copier R f"
  shows "deep_copier (pointee R) f"
proof
  fix P h c x h' P'
  assume "pointee R P h c x" and "\<And>a obj. P a \<Longrightarrow> cell h a = Some obj \<Longrightarrow> cell h' a = Some obj \<and> P' a"
  then show "pointee R P' h' c x"
    unfolding pointee_def by (blast intro: deep_copier.framed [OF assms])
next
  fix P h c x
  assume "pointee R P h c x"
  then show "\<exists>h' c'. f c h = Some (h', c') \<and> extends h h' \<and> pointee R (\<lambda>i. length h \<le> i) h' c' x"
    using deep_copier.deep [OF assms] by (fastforce simp: pointee_def)
qed

section \<open>The values that objects in memory represent\<close>

abbreviation rep_ptr :: "('c \<Rightarrow> gobj) \<Rightarrow> (nat \<Rightarrow> bool) \<Rightarrow> memory \<Rightarrow> nat option \<Rightarrow> 'c option \<Rightarrow> bool" where
  "rep_ptr C \<equiv> rep_ref None (flat (\<lambda>c x. \<exists>y. x = Some y \<and> c = C y))"

abbreviation rep_slice :: "('c list \<Rightarrow> gobj) \<Rightarrow> (nat \<Rightarrow> bool) \<Rightarrow> memory \<Rightarrow> nat option \<Rightarrow> 'c list \<Rightarrow> bool" where
  "rep_slice C \<equiv> rep_ref [] (flat (\<lambda>c xs. c = C xs))"

definition rep_MergeStep :: "(nat \<Rightarrow> bool) \<Rightarrow> memory \<Rightarrow> MMergeStep \<Rightarrow> MergeStep \<Rightarrow> bool" where
  "rep_MergeStep P h m x \<longleftrightarrow> rep_slice CStrings P h (mm_From m) (mgs_from x)"

abbreviation rep_merge :: "(nat \<Rightarrow> bool) \<Rightarrow> memory \<Rightarrow> nat option \<Rightarrow> MergeStep option \<Rightarrow> bool" where
  "rep_merge \<equiv> rep_ref None (boxed CMerge (pointee rep_MergeStep))"

definition rep_PipelineStep :: "(nat \<Rightarrow> bool) \<Rightarrow> memory \<Rightarrow> MPipelineStep \<Rightarrow> PipelineStep \<Rightarrow> bool" where
  "rep_PipelineStep P h m x \<longleftrightarrow> mp_Name m = ps_name x \<and> rep_ptr CLoad P h (mp_Load m) (ps_load x) \<and>
     rep_ptr CFilter P h (mp_Filter m) (ps_filter x) \<and> rep_ptr CMap P h (mp_Map m) (ps_map x) \<and>
     rep_ptr CGroup P h (mp_Group m) (ps_group x) \<and> rep_merge P h (mp_Merge m) (ps_merge x)"

definition rep_ManifestArtifact :: "(nat \<Rightarrow> bool) \<Rightarrow> memory \<Rightarrow> MManifestArtifact \<Rightarrow> ManifestArtifact \<Rightarrow> bool" where
  "rep_ManifestArtifact P h m x \<longleftrightarrow> mf_Name m = ma_name x \<and> mf_Revision m = ma_revision x \<and>
     mf_OriginRevision m = ma_originRevision x \<and> rep_ptr CForEach P h (mf_ForEach m) (ma_forEach x) \<and>
     rep_slice CTemplates P h (mf_Templates m) (ma_templates x)"

text \<open>The raw bytes of a JSON value, and the JSON value behind a pointer.\<close>

definition rep_raw :: "(nat \<Rightarrow> bool) \<Rightarrow> memory \<Rightarrow> nat option \<Rightarrow> string \<Rightarrow> bool" where
  "rep_raw = rep_slice CBytes"

definition rep_Spec :: "(nat \<Rightarrow> bool) \<Rightarrow> memory \<Rightarrow> MSpec \<Rightarrow> ManifestGeneratorSpec \<Rightarrow> bool" where
  "rep_Spec P h m x \<longleftrightarrow> mc_Interval m = sp_interval x \<and> mc_Suspend m = sp_suspend x \<and>
     rep_slice CSources P h (mc_Sources m) (sp_sources x) \<and>
     rep_ref None (boxed CJSON (pointee rep_raw)) P h (mc_Values m) (sp_values x) \<and>
     rep_slice CValuesFrom P h (mc_ValuesFrom m) (sp_valuesFrom x) \<and>
     rep_ref [] (boxed CPipeline (rep_each rep_PipelineStep)) P h (mc_Pipeline m) (sp_pipeline x) \<and>
     rep_ref [] (boxed CArtifacts (rep_each rep_ManifestArtifact)) P h (mc_Artifacts m) (sp_artifacts x)"

definition rep_Condition :: "(nat \<Rightarrow> bool) \<Rightarrow> memory \<Rightarrow> Condition \<Rightarrow> Condition \<Rightarrow> bool" where
  "rep_Condition = flat (=)"

definition rep_Status :: "(nat \<Rightarrow> bool) \<Rightarrow> memory \<Rightarrow> MStatus \<Rightarrow> ManifestGeneratorStatus \<Rightarrow> bool" where
  "rep_Status P h m x \<longleftrightarrow> mt_LastHandledReconcileAt m = st_lastHandledReconcileAt x \<and>
     mt_ObservedGeneration m = st_observedGeneration x \<and> mt_ObservedSourcesDigest m = st_observedSourcesDigest x \<and>
     rep_ref [] (boxed CConditions (rep_each rep_Condition)) P h (mt_Conditions m) (st_conditions x) \<and>
     rep_slice CInventory P h (mt_Inventory m) (st_inventory x)"

definition rep_ObjectMeta :: "(nat \<Rightarrow> bool) \<Rightarrow> memory \<Rightarrow> MObjectMeta \<Rightarrow> ManifestGenerator \<Rightarrow> bool" where
  "rep_ObjectMeta P h m x \<longleftrightarrow> mo_name m = mg_name x \<and> mo_namespace m = mg_namespace x \<and> mo_uid m = mg_uid x \<and>
     mo_generation m = mg_generation x \<and> mo_deleting m = mg_deleting x \<and>
     rep_slice CStringMap P h (mo_annotations m) (mg_annotations x) \<and> rep_slice CStrings P h (mo_finalizers m) (mg_finalizers x)"

definition rep_ManifestGenerator :: "(nat \<Rightarrow> bool) \<Rightarrow> memory \<Rightarrow> MManifestGenerator \<Rightarrow> ManifestGenerator \<Rightarrow> bool" where
  "rep_ManifestGenerator P h m x \<longleftrightarrow> rep_ObjectMeta P h (mx_ObjectMeta m) x \<and> rep_Spec P h (mx_Spec m) (mg_spec x) \<and>
     rep_Status P h (mx_Status m) (mg_status x)"

section \<open>The generated functions are deep copies\<close>

lemma DeepCopy_flat_copier [copiers]: "deep_copier (rep_ref z (flat Q)) DeepCopy_flat"
  unfolding DeepCopy_flat_def by (intro copiers)

text \<open>A struct with a reference, then one with another: the copy of a struct is put together field by field.\<close>

definition both :: "((nat \<Rightarrow> bool) \<Rightarrow> memory \<Rightarrow> 'c \<Rightarrow> 'x \<Rightarrow> bool) \<Rightarrow> ((nat \<Rightarrow> bool) \<Rightarrow> memory \<Rightarrow> 'd \<Rightarrow> 'y \<Rightarrow> bool) \<Rightarrow>
    (nat \<Rightarrow> bool) \<Rightarrow> memory \<Rightarrow> 'c \<times> 'd \<Rightarrow> 'x \<times> 'y \<Rightarrow> bool" where
  "both R S P h c x \<longleftrightarrow> R P h (fst c) (fst x) \<and> S P h (snd c) (snd x)"

definition copy_both :: "'c copier \<Rightarrow> 'd copier \<Rightarrow> ('c \<times> 'd) copier" where
  "copy_both f g c h = do { (h, a) \<leftarrow> f (fst c) h; (h, b) \<leftarrow> g (snd c) h; Some (h, (a, b)) }"

lemma both_copier [copiers]:
  assumes "deep_copier R f" and "deep_copier S g"
  shows "deep_copier (both R S) (copy_both f g)"
proof
  fix P h c x h' P'
  assume "both R S P h c x" and "\<And>a obj. P a \<Longrightarrow> cell h a = Some obj \<Longrightarrow> cell h' a = Some obj \<and> P' a"
  then show "both R S P' h' c x"
    unfolding both_def by (blast intro: deep_copier.framed [OF assms(1)] deep_copier.framed [OF assms(2)])
next
  fix P h c x
  assume "both R S P h c x"
  then have b: "R P h (fst c) (fst x)" "S P h (snd c) (snd x)" by (simp_all add: both_def)
  from deep_copier.deep [OF assms(1) b(1)] obtain h1 c1 where
    1: "f (fst c) h = Some (h1, c1)" "extends h h1" "R (\<lambda>i. length h \<le> i) h1 c1 (fst x)" by blast
  from deep_copier.step [OF assms(2) b(2) 1(2)] obtain h2 c2 where
    2: "g (snd c) h1 = Some (h2, c2)" "extends h1 h2" "S (\<lambda>i. length h \<le> i) h2 c2 (snd x)" .
  from deep_copier.later [OF assms(1) 1(3) 2(2)] extends_trans [OF 1(2) 2(2)]
  show "\<exists>h' c'. copy_both f g c h = Some (h', c') \<and> extends h h' \<and> both R S (\<lambda>i. length h \<le> i) h' c' x"
    using 1(1) 2(1,3) by (simp add: copy_both_def both_def)
qed

text \<open>
  A struct \<open>m\<close> with scalars \<open>K\<close> and references \<open>get m\<close>, which the copy replaces by \<open>put\<close>.
\<close>

lemma struct_copier:
  assumes "deep_copier R f"
    and "\<And>P h m x. S P h m x \<longleftrightarrow> K m x \<and> R P h (get m) (sel x)"
    and "\<And>m h. g m h = map_option (map_prod id (put m)) (f (get m) h)"
    and "\<And>m r. get (put m r) = r" and "\<And>m r x. K (put m r) x = K m x"
  shows "deep_copier S g"
proof
  fix P h m x h' P'
  assume "S P h m x" and "\<And>a obj. P a \<Longrightarrow> cell h a = Some obj \<Longrightarrow> cell h' a = Some obj \<and> P' a"
  then show "S P' h' m x"
    unfolding assms(2) by (blast intro: deep_copier.framed [OF assms(1)])
next
  fix P h m x
  assume s: "S P h m x"
  with deep_copier.deep [OF assms(1), of P h "get m" "sel x"]
  show "\<exists>h' c'. g m h = Some (h', c') \<and> extends h h' \<and> S (\<lambda>i. length h \<le> i) h' c' x"
    by (fastforce simp: assms(2-5))
qed

interpretation MergeStep: deep_copier rep_MergeStep MergeStep_DeepCopyInto
  by (rule struct_copier [where R = "rep_slice CStrings" and K = "\<lambda>_ _. True" and get = mm_From and sel = mgs_from
        and put = "\<lambda>m r. m\<lparr>mm_From := r\<rparr>", OF ref_copier [OF flat_copier]])
    (auto simp: rep_MergeStep_def MergeStep_DeepCopyInto_def split: bind_splits)

lemma merge_copier [copiers]: "deep_copier (boxed CMerge (pointee rep_MergeStep)) copy_merge"
  by (intro boxed_copier [of _ MergeStep_DeepCopyInto] copiers MergeStep.deep_copier_axioms) simp

lemma PipelineStep_parts: "deep_copier
    (both (rep_ptr CLoad) (both (rep_ptr CFilter) (both (rep_ptr CMap) (both (rep_ptr CGroup) rep_merge))))
    (copy_both (copy_ref DeepCopyInto_flat) (copy_both (copy_ref DeepCopyInto_flat) (copy_both (copy_ref DeepCopyInto_flat)
      (copy_both (copy_ref DeepCopyInto_flat) (copy_ref copy_merge)))))"
  by (intro copiers)

interpretation PipelineStep: deep_copier rep_PipelineStep PipelineStep_DeepCopyInto
  by (rule struct_copier [where K = "\<lambda>m x. mp_Name m = ps_name x"
        and get = "\<lambda>m. (mp_Load m, mp_Filter m, mp_Map m, mp_Group m, mp_Merge m)"
        and sel = "\<lambda>x. (ps_load x, ps_filter x, ps_map x, ps_group x, ps_merge x)"
        and put = "\<lambda>m (a, b, c, d, e). m\<lparr>mp_Load := a, mp_Filter := b, mp_Map := c, mp_Group := d, mp_Merge := e\<rparr>",
        OF PipelineStep_parts])
    (auto simp: rep_PipelineStep_def PipelineStep_DeepCopyInto_def both_def copy_both_def split: bind_splits)

lemma pipeline_copier [copiers]: "deep_copier (boxed CPipeline (rep_each rep_PipelineStep)) copy_pipeline"
  by (intro boxed_copier [of _ "copy_each PipelineStep_DeepCopyInto"] copiers PipelineStep.deep_copier_axioms) simp

lemma ManifestArtifact_parts: "deep_copier (both (rep_ptr CForEach) (rep_slice CTemplates))
    (copy_both (copy_ref DeepCopyInto_flat) (copy_ref DeepCopyInto_flat))"
  by (intro copiers)

interpretation ManifestArtifact: deep_copier rep_ManifestArtifact ManifestArtifact_DeepCopyInto
  by (rule struct_copier [where K = "\<lambda>m x. mf_Name m = ma_name x \<and> mf_Revision m = ma_revision x \<and> mf_OriginRevision m = ma_originRevision x"
        and get = "\<lambda>m. (mf_ForEach m, mf_Templates m)" and sel = "\<lambda>x. (ma_forEach x, ma_templates x)"
        and put = "\<lambda>m (a, b). m\<lparr>mf_ForEach := a, mf_Templates := b\<rparr>", OF ManifestArtifact_parts])
    (auto simp: rep_ManifestArtifact_def ManifestArtifact_DeepCopyInto_def both_def copy_both_def split: bind_splits)

lemma artifacts_copier [copiers]: "deep_copier (boxed CArtifacts (rep_each rep_ManifestArtifact)) copy_artifacts"
  by (intro boxed_copier [of _ "copy_each ManifestArtifact_DeepCopyInto"] copiers ManifestArtifact.deep_copier_axioms) simp

text \<open>The library's copies keep the same contract.\<close>

definition copy_lib_ok :: "copy_lib \<Rightarrow> bool" where
  "copy_lib_ok lib \<longleftrightarrow> deep_copier rep_ObjectMeta (cl_ObjectMeta lib) \<and> deep_copier rep_raw (cl_JSON lib) \<and>
     deep_copier rep_Condition (cl_Condition lib)"

lemma json_copier: "copy_lib_ok lib \<Longrightarrow> deep_copier (boxed CJSON (pointee rep_raw)) (copy_json lib)"
  by (intro boxed_copier [of _ "cl_JSON lib"] copiers) (simp_all add: copy_lib_ok_def)

lemma conditions_copier: "copy_lib_ok lib \<Longrightarrow> deep_copier (boxed CConditions (rep_each rep_Condition)) (copy_conditions lib)"
  by (intro boxed_copier [of _ "copy_each (cl_Condition lib)"] copiers) (simp_all add: copy_lib_ok_def)

lemma Spec_copier:
  assumes "copy_lib_ok lib"
  shows "deep_copier rep_Spec (Spec_DeepCopyInto lib)"
proof -
  have "deep_copier (both (rep_slice CSources) (both (rep_ref None (boxed CJSON (pointee rep_raw))) (both (rep_slice CValuesFrom)
      (both (rep_ref [] (boxed CPipeline (rep_each rep_PipelineStep))) (rep_ref [] (boxed CArtifacts (rep_each rep_ManifestArtifact)))))))
    (copy_both (copy_ref DeepCopyInto_flat) (copy_both (copy_ref (copy_json lib)) (copy_both (copy_ref DeepCopyInto_flat)
      (copy_both (copy_ref copy_pipeline) (copy_ref copy_artifacts)))))"
    by (intro copiers json_copier assms)
  then show ?thesis
    by (rule struct_copier [where K = "\<lambda>m x. mc_Interval m = sp_interval x \<and> mc_Suspend m = sp_suspend x"
          and get = "\<lambda>m. (mc_Sources m, mc_Values m, mc_ValuesFrom m, mc_Pipeline m, mc_Artifacts m)"
          and sel = "\<lambda>x. (sp_sources x, sp_values x, sp_valuesFrom x, sp_pipeline x, sp_artifacts x)"
          and put = "\<lambda>m (a, b, c, d, e). m\<lparr>mc_Sources := a, mc_Values := b, mc_ValuesFrom := c, mc_Pipeline := d, mc_Artifacts := e\<rparr>"])
      (auto simp: rep_Spec_def Spec_DeepCopyInto_def both_def copy_both_def split: bind_splits)
qed

lemma Status_copier:
  assumes "copy_lib_ok lib"
  shows "deep_copier rep_Status (Status_DeepCopyInto lib)"
proof -
  have "deep_copier (both (rep_ref [] (boxed CConditions (rep_each rep_Condition))) (rep_slice CInventory))
    (copy_both (copy_ref (copy_conditions lib)) (copy_ref DeepCopyInto_flat))"
    by (intro copiers conditions_copier assms)
  then show ?thesis
    by (rule struct_copier [where K = "\<lambda>m x. mt_LastHandledReconcileAt m = st_lastHandledReconcileAt x \<and>
            mt_ObservedGeneration m = st_observedGeneration x \<and> mt_ObservedSourcesDigest m = st_observedSourcesDigest x"
          and get = "\<lambda>m. (mt_Conditions m, mt_Inventory m)" and sel = "\<lambda>x. (st_conditions x, st_inventory x)"
          and put = "\<lambda>m (a, b). m\<lparr>mt_Conditions := a, mt_Inventory := b\<rparr>"])
      (auto simp: rep_Status_def Status_DeepCopyInto_def both_def copy_both_def split: bind_splits)
qed

lemma ManifestGenerator_copier:
  assumes "copy_lib_ok lib"
  shows "deep_copier rep_ManifestGenerator (ManifestGenerator_DeepCopyInto lib)"
proof -
  have "deep_copier (both rep_ObjectMeta (both rep_Spec rep_Status))
    (copy_both (cl_ObjectMeta lib) (copy_both (Spec_DeepCopyInto lib) (Status_DeepCopyInto lib)))"
    using assms by (intro copiers Spec_copier Status_copier) (simp add: copy_lib_ok_def)
  then show ?thesis
    by (rule struct_copier [where K = "\<lambda>_ _. True" and get = "\<lambda>m. (mx_ObjectMeta m, mx_Spec m, mx_Status m)"
          and sel = "\<lambda>x. (x, mg_spec x, mg_status x)"
          and put = "\<lambda>m (a, b, c). m\<lparr>mx_ObjectMeta := a, mx_Spec := b, mx_Status := c\<rparr>"])
      (auto simp: rep_ManifestGenerator_def ManifestGenerator_DeepCopyInto_def both_def copy_both_def split: bind_splits)
qed

lemma generator_copier: "copy_lib_ok lib \<Longrightarrow>
    deep_copier (rep_ref None (boxed CGenerator (pointee rep_ManifestGenerator))) (ManifestGenerator_DeepCopy lib)"
  unfolding ManifestGenerator_DeepCopy_def
  by (intro copiers boxed_copier [of _ "ManifestGenerator_DeepCopyInto lib"] ManifestGenerator_copier) simp_all

lemma items_copier: "copy_lib_ok lib \<Longrightarrow>
    deep_copier (rep_ref [] (boxed CGenerators (rep_each rep_ManifestGenerator))) (ManifestGeneratorList_DeepCopyInto lib)"
  unfolding ManifestGeneratorList_DeepCopyInto_def
  by (intro copiers boxed_copier [of _ "copy_each (ManifestGenerator_DeepCopyInto lib)"] ManifestGenerator_copier) simp_all

section \<open>The snapshot of a reconcile\<close>

text \<open>\<open>holds h r obj\<close>: the pointer \<open>r\<close> leads to the object \<open>obj\<close>.\<close>

definition holds :: "memory \<Rightarrow> nat option \<Rightarrow> ManifestGenerator \<Rightarrow> bool" where
  "holds h r obj = rep_ref None (boxed CGenerator (pointee rep_ManifestGenerator)) (\<lambda>_. True) h r (Some obj)"

lemma copy_ref_Some: "copy_ref f (Some a) h = Some (h', r) \<Longrightarrow> \<exists>b. r = Some b"
  by (auto simp: copy_ref_def alloc_def bind_eq_Some_conv)

text \<open>
  C20. \<open>oldObj := obj.DeepCopy()\<close> is a snapshot: the copy returns and both pointers lead to the object; then
  whatever is written to memory that existed before, by the reconcile or by the libraries it hands \<open>obj\<close>
  to, \<open>oldObj\<close> stays the object of the start, and whatever is written to the copy, \<open>obj\<close> does not change.
\<close>

theorem DeepCopy_snapshot:
  assumes "copy_lib_ok lib" and "holds h (Some a) obj"
  shows "\<exists>h' b. ManifestGenerator_DeepCopy lib (Some a) h = Some (h', Some b) \<and>
    holds h' (Some a) obj \<and> holds h' (Some b) obj \<and>
    (\<forall>h''. (\<forall>i c. length h \<le> i \<longrightarrow> cell h' i = Some c \<longrightarrow> cell h'' i = Some c) \<longrightarrow> holds h'' (Some b) obj) \<and>
    (\<forall>h''. (\<forall>i c. i < length h \<longrightarrow> cell h' i = Some c \<longrightarrow> cell h'' i = Some c) \<longrightarrow> holds h'' (Some a) obj)"
proof -
  note g = generator_copier [OF assms(1)]
  from deep_copier.deep [OF g assms(2) [unfolded holds_def]] obtain h' r where
    d: "ManifestGenerator_DeepCopy lib (Some a) h = Some (h', r)" "extends h h'" and
    n: "rep_ref None (boxed CGenerator (pointee rep_ManifestGenerator)) (\<lambda>i. length h \<le> i) h' r (Some obj)" by blast
  from d(1) obtain b where b: "r = Some b" unfolding ManifestGenerator_DeepCopy_def using copy_ref_Some by blast
  have new: "holds h'' (Some b) obj" if "\<forall>i c. length h \<le> i \<longrightarrow> cell h' i = Some c \<longrightarrow> cell h'' i = Some c" for h''
    unfolding holds_def by (rule deep_copier.framed [OF g n [unfolded b]]) (use that in simp)
  have old: "holds h'' (Some a) obj" if "\<forall>i c. i < length h \<longrightarrow> cell h' i = Some c \<longrightarrow> cell h'' i = Some c" for h''
    unfolding holds_def by (rule deep_copier.framed [OF g assms(2) [unfolded holds_def]])
      (use that d(2) in \<open>auto simp: extends_def dest: cell_bound\<close>)
  show ?thesis using d(1) b new old by blast
qed

section \<open>A sample memory\<close>

definition sample_meta_copy :: "MObjectMeta copier" where
  "sample_meta_copy m h = do {
     (h, annotations) \<leftarrow> copy_ref DeepCopyInto_flat (mo_annotations m) h;
     (h, finalizers) \<leftarrow> copy_ref DeepCopyInto_flat (mo_finalizers m) h;
     Some (h, m\<lparr>mo_annotations := annotations, mo_finalizers := finalizers\<rparr>) }"

definition sample_copy_lib :: copy_lib where
  "sample_copy_lib = \<lparr>cl_ObjectMeta = sample_meta_copy, cl_JSON = copy_ref DeepCopyInto_flat, cl_Condition = DeepCopyInto_flat\<rparr>"

lemma sample_copy_lib_ok: "copy_lib_ok sample_copy_lib"
proof -
  have "deep_copier (both (rep_slice CStringMap) (rep_slice CStrings))
    (copy_both (copy_ref DeepCopyInto_flat) (copy_ref DeepCopyInto_flat))" by (intro copiers)
  then have "deep_copier rep_ObjectMeta sample_meta_copy"
    by (rule struct_copier [where K = "\<lambda>m x. mo_name m = mg_name x \<and> mo_namespace m = mg_namespace x \<and> mo_uid m = mg_uid x \<and>
            mo_generation m = mg_generation x \<and> mo_deleting m = mg_deleting x"
          and get = "\<lambda>m. (mo_annotations m, mo_finalizers m)" and sel = "\<lambda>x. (mg_annotations x, mg_finalizers x)"
          and put = "\<lambda>m (a, b). m\<lparr>mo_annotations := a, mo_finalizers := b\<rparr>"])
      (auto simp: rep_ObjectMeta_def sample_meta_copy_def both_def copy_both_def split: bind_splits)
  moreover have "deep_copier rep_raw (copy_ref DeepCopyInto_flat)" "deep_copier rep_Condition DeepCopyInto_flat"
    unfolding rep_raw_def rep_Condition_def by (intro copiers)+
  ultimately show ?thesis by (simp add: copy_lib_ok_def sample_copy_lib_def)
qed

text \<open>An object with one artifact and one entry in its inventory, which is the array at 3.\<close>

definition sample_generator :: MManifestGenerator where
  "sample_generator = \<lparr>
     mx_ObjectMeta = \<lparr>mo_name = ''gen'', mo_namespace = ''apps'', mo_uid = ''1'', mo_generation = 7, mo_annotations = None,
       mo_finalizers = Some 4, mo_deleting = False\<rparr>,
     mx_Spec = \<lparr>mc_Interval = 0, mc_Suspend = False, mc_Sources = Some 0, mc_Values = None, mc_ValuesFrom = None,
       mc_Pipeline = None, mc_Artifacts = Some 2\<rparr>,
     mx_Status = \<lparr>mt_LastHandledReconcileAt = [], mt_Conditions = None, mt_ObservedGeneration = 0, mt_Inventory = Some 3,
       mt_ObservedSourcesDigest = []\<rparr>\<rparr>"

definition sample_memory :: memory where
  "sample_memory =
     [CSources (sp_sources (sample_spec [])), CTemplates (ma_templates sample_artifact),
      CArtifacts [\<lparr>mf_Name = ''out'', mf_Revision = [], mf_OriginRevision = [], mf_ForEach = None, mf_Templates = Some 1\<rparr>],
      CInventory [sample_ref ''old''], CStrings [Finalizer], CGenerator sample_generator]"

lemmas sample_memory_defs = sample_memory_def sample_generator_def sample_obj_def sample_spec_def sample_artifact_def

lemma sample_holds: "holds sample_memory (Some 5) (sample_obj [''out''] [Finalizer] [''old''])"
  by (simp add: holds_def rep_ref_def boxed_def pointee_def rep_ManifestGenerator_def rep_ObjectMeta_def rep_Spec_def
      rep_Status_def rep_each_def rep_ManifestArtifact_def flat_def cell_def sample_memory_defs)

theorem DeepCopy_snapshot_witness:
  "\<exists>h' b. ManifestGenerator_DeepCopy sample_copy_lib (Some 5) sample_memory = Some (h', Some b) \<and>
     holds (h'[3 := CInventory []]) (Some b) (sample_obj [''out''] [Finalizer] [''old''])"
proof -
  from DeepCopy_snapshot [OF sample_copy_lib_ok sample_holds] obtain h' b where
    d: "ManifestGenerator_DeepCopy sample_copy_lib (Some 5) sample_memory = Some (h', Some b)" and
    s: "\<forall>h''. (\<forall>i c. length sample_memory \<le> i \<longrightarrow> cell h' i = Some c \<longrightarrow> cell h'' i = Some c) \<longrightarrow>
      holds h'' (Some b) (sample_obj [''out''] [Finalizer] [''old''])" by blast
  have "cell (h'[3 := CInventory []]) i = Some c" if "length sample_memory \<le> i" "cell h' i = Some c" for i c
    using that by (simp add: cell_update sample_memory_def)
  with s have "holds (h'[3 := CInventory []]) (Some b) (sample_obj [''out''] [Finalizer] [''old''])" by blast
  with d show ?thesis by blast
qed

text \<open>A write through the original pointer does change the original: its inventory is gone.\<close>

lemma sample_mutated: "\<not> holds (sample_memory[3 := CInventory []]) (Some 5) (sample_obj [''out''] [Finalizer] [''old''])"
  by (simp add: holds_def rep_ref_def boxed_def pointee_def rep_ManifestGenerator_def rep_ObjectMeta_def rep_Spec_def
      rep_Status_def rep_each_def rep_ManifestArtifact_def flat_def cell_def sample_memory_defs)

section \<open>Registration\<close>

text \<open>
  \<open>SchemeBuilder\<close> and \<open>AddToScheme\<close> (\<open>groupversion_info.go\<close>): the types registered under the group and
  version, added to a scheme, a map from group, version and kind to the Go type. The kind of a type is
  its name.
\<close>

definition registered_types :: "string list" where
  "registered_types = [''ManifestGenerator'', ''ManifestGeneratorList'']"

definition AddToScheme :: "(string \<times> string \<times> string \<rightharpoonup> string) \<Rightarrow> (string \<times> string \<times> string \<rightharpoonup> string)" where
  "AddToScheme scheme = fold (\<lambda>t s. s((fst GroupVersion, snd GroupVersion, t) \<mapsto> t)) registered_types scheme"

lemma AddToScheme_known:
  "AddToScheme scheme (fst GroupVersion, snd GroupVersion, k) =
     (if k \<in> set registered_types then Some k else scheme (fst GroupVersion, snd GroupVersion, k))"
  "(g, v) \<noteq> GroupVersion \<Longrightarrow> AddToScheme scheme (g, v, k) = scheme (g, v, k)"
  by (auto simp: AddToScheme_def registered_types_def)

lemma ManifestGenerator_registered:
  "AddToScheme scheme (fst GroupVersion, snd GroupVersion, ManifestGeneratorKind) = Some ManifestGeneratorKind"
  by (simp add: AddToScheme_known(1) registered_types_def ManifestGeneratorKind_def)

end
