(* ===== verification/Spec2Isabelle.thy ===== *)
theory Spec2Isabelle
  imports Fleet Process_Main Heap_Merge Object_Copy
begin

text \<open>
  A model of the Flux manifest generator, the Kubernetes controller under \<open>src/\<close>. A
  \<open>ManifestGenerator\<close> object names sources, values, a pipeline and artifacts; a reconcile observes and
  fetches the sources, merges the values, runs the pipeline over the fetched files, renders the
  templates of every artifact into a staging directory, archives it and publishes the archive as an
  \<open>ExternalArtifact\<close> object. The names of the model are those of the code; a loop or a branch of a long
  function that has a name of its own here is named after what it does.

  \<^bold>\<open>Parts and theories.\<close>

  \<^item> \<open>Flux_Prelude\<close>: Go errors as the tree that \<open>errors.As\<close> walks, results, and \<open>loopE\<close>, the loop
    with early return, with its prefix invariant and its failure lemma.
  \<^item> \<open>Go_Strings\<close>, \<open>Go_Paths\<close>, \<open>Go_Value\<close>: the standard library the code uses. \<open>strings\<close>, \<open>strconv\<close> and
    \<open>fmt\<close> of integers; \<open>path.Clean\<close>, \<open>Join\<close>, \<open>Dir\<close>, \<open>Base\<close> (the code runs on Linux, where
    \<open>filepath\<close> is \<open>path\<close>) and the set \<open>inside\<close> of cleaned relative paths below a root; \<open>any\<close> values,
    and Go maps as lists sorted by key, whose laws are the locale \<open>go_map\<close>.
  \<^item> \<open>Deep_Merge\<close>: the two copies of \<open>deepMerge\<close> in \<open>internal/values/values.go\<close> and
    \<open>internal/pipeline/merge.go\<close>, interpreted in one locale, \<open>value_merge\<close>.
  \<^item> \<open>Store\<close>, \<open>Heap_Merge\<close>: the same code over a store of maps and slices with addresses, and its isolation.
  \<^item> \<open>Api_Types\<close>: \<open>api/v1alpha1/manifestgenerator_types.go\<close>. \<open>Object_Copy\<close>: the generated deep copies of
    these types over a store, each an instance of the locale \<open>deep_copier\<close>, and the registration of the types.
  \<^item> \<open>Item_Template\<close>, \<open>Source_Ref\<close>, \<open>Load_Verb\<close>, \<open>Verbs\<close>, \<open>Pipeline\<close>: \<open>internal/pipeline\<close>. Every verb
    has a compiler and an \<open>Eval\<close>; \<open>Pipeline\<close> has \<open>Compile\<close> and \<open>Run\<close> over all of them, and the locale
    \<open>step_runner\<close> is what the loop of \<open>Run\<close> needs from a step. \<open>Source_Ref\<close> also has the parsers of
    references of the validator and the builder, under the contract \<open>source_ref_parser\<close>.
  \<^item> \<open>Values_Resolver\<close>: \<open>internal/values/values.go\<close>.
  \<^item> \<open>Render_Engine\<close>: \<open>internal/render\<close> and \<open>internal/template\<close>. The builder sees an engine through the
    locale \<open>render_engine\<close>, of which \<open>Render\<close> is the instance.
  \<^item> \<open>Partials\<close>, \<open>Staging\<close>, \<open>Dir_Hash\<close>, \<open>Artifact_Builder\<close>: \<open>internal/builder\<close>.
  \<^item> \<open>Spec_Validation\<close>, \<open>Controller_State\<close>, \<open>Source_Watch\<close>, \<open>Reconciler\<close>: \<open>internal/controller\<close>.
  \<^item> \<open>Cluster\<close>: the effect of the calls of a reconcile on the ExternalArtifacts of the cluster, the abstract
    specification of publishing, and what happens when two generators share a name.
  \<^item> \<open>Lifecycle\<close>: \<open>Reconcile\<close> as a whole, and the object over many reconciles, as the inductive relation \<open>life\<close>
    between the edits of users and the calls of \<open>Reconcile\<close>, from fresh or stale reads.
  \<^item> \<open>Fleet\<close>: many objects in one cluster, as the relation \<open>fleet_step\<close>: users, and reconciles from stale
    reads whose patches may be lost. The calls of concurrent reconciles are interleaved as \<open>shuffles\<close>, and
    \<open>at_cluster\<close> answers their reads of ExternalArtifacts from the cluster they write to.
  \<^item> \<open>Process_Main\<close>: \<open>cmd/main.go\<close>, the configuration of the process and the order of its start.
    This theory: the properties that span components.

  \<^bold>\<open>State.\<close> The controller keeps no state of its own between calls. During a call the state is the
  record \<open>rstate\<close>: the in-memory copy of the object (\<open>rs_obj\<close>; the code mutates it in place) and the
  trace of the calls that leave the process (\<open>rs_trace\<close>), in order: status patches, writes and
  deletions of ExternalArtifacts, storage clean-ups and events. The workspace of a reconcile is a
  map from directory names to trees, a tree a map from cleaned paths to nodes (\<open>staging\<close>). Everything
  the code reads from outside is a field of the environment records (\<open>pipe_env\<close>, \<open>os_env\<close>, \<open>root_env\<close>,
  \<open>bld_env\<close>, \<open>val_env\<close>, \<open>ctl_env\<close>, \<open>rec_env\<close>, \<open>tmpl_lib\<close>), as a function of the arguments of the
  call and, for the source directories the builder reads, of the moment, since the staging directory of an
  artifact can be one of them; every failure of such a call is an argument of the model too, so all error paths of the code
  are branches of the definitions.

  \<^bold>\<open>Hypotheses on code outside the repository.\<close> \<open>cond_ok\<close>: setting a condition makes it the one that is
  read back and leaves the others. \<open>decoder_ok\<close>, \<open>env_ok\<close>: a decoder returns maps with distinct keys.
  \<open>parser_ok\<close>: a parsed template has one body per name. \<open>plain_errors\<close>: the API reader and the decoder
  do not produce the program's own error types. \<open>copy_lib_ok\<close>: the library's copies of metadata, conditions
  and raw JSON are deep copies. \<open>tree_ok\<close>: a downloaded tree has its directories. \<open>archive_ok\<close>: the storage
  archives the regular files of a directory that its filter does not match. \<open>glob_ok\<close>: the matches of a glob
  over a file system are paths of it.
  Each is satisfied by the sample environments (\<open>sample_*\<close>), on which the witnesses evaluate the
  definitions; the samples are no part of the model.

  \<^bold>\<open>What the lemmas show.\<close> The merges are the override of trees at every path, so that the values are
  the stack of their layers and \<open>merge\<close> the stack of its inputs; in a store, the result of a merge
  shares no map or slice with its inputs. The deep copy that a reconcile takes of its object is a snapshot:
  no later write to the object shows in it. The verbs are characterised on lists and maps, the
  compiler accepts only pipelines whose run finds every step it reads, a run fails only at a
  step, and the shapes of its outputs are known beforehand. Every path that the program derives from templates
  and specs stays below its root, \<open>load\<close> and \<open>lookupFile\<close> read nothing else, reads are
  bounded, a staged write changes one file, and an archive holds exactly the rendered files that the ignore
  patterns of the storage leave. The validator accepts exactly the specs described by its specification, and a validated spec does not
  fail later for what was validated. A successful reconcile publishes what it built and records it,
  a failed one records nothing; every reconcile ends with a status patch in normal form; deletions are
  confined to what the object owns, over the whole life of the object. Its effect on the cluster is exactly the artifacts of the spec. Reconciles of objects that
  name disjoint artifacts, none of them a source of either, are serializable, reads included, and what one of them published stays until the same object is
  reconciled again; with a shared name it does not. Four theorems prove defects:
  \<open>alias_named_artifact_leaks_source\<close>, \<open>unrecorded_artifact_never_deleted\<close>,
  \<open>finalize_deletes_foreign_artifact\<close> and \<open>include_recursion_unbounded\<close>.

  \<^bold>\<open>Termination and bounds.\<close> All loops of the code run over finite lists; \<open>mkdirAll\<close> recurses on the parent
  path, which is shorter. The nesting of \<open>include\<close> and \<open>tpl\<close> is bounded by the goroutine stack only:
  \<open>depth\<close> in \<open>exec_body\<close> is the number of nested calls that fit, and the properties hold for every
  \<open>depth\<close>. \<open>fuel\<close> in \<open>Heap_Merge\<close> bounds the depth of references; any fuel above the sizes of the trees is
  enough. Files are read up to 10 MiB (\<open>maxLoadFileBytes\<close> and its siblings) plus one byte to notice more.
  Sizes are integers without a width: the code only compares them. The checksum of \<open>Dir_Hash\<close> is the
  32-bit one of the code.

  \<^bold>\<open>Not modelled.\<close> The text of conditions, events and log lines: errors keep their format string and
  arguments, but are not rendered. The sharing of Go maps and objects outside \<open>Heap_Merge\<close> and \<open>Object_Copy\<close>:
  everywhere else a value is a tree. Time: intervals are numbers. The evaluator of \<open>text/template\<close>,
  Sprig, the codecs, the glob library, the archive and the API server are parameters. Of \<open>cmd/main.go\<close>
  the flags of libraries, logging, probes and signals are left out. Labels and fields that other managers own
  on an ExternalArtifact, the difference of a nil and an empty metadata map, and the parts of an aggregated
  patch error are left out too. Of \<open>SetupWithManager\<close> the
  configuration is modelled, not the routing of events by controller-runtime. The reconciles of one object do not overlap, which the
  work queue of controller-runtime ensures; those of different objects share nothing in the process but
  the artifact storage, whose paths are by namespace and name.
\<close>

section \<open>The stages of a reconcile\<close>

text \<open>Every artifact of the spec was built, its reference carries the digest of the archive, and its status was written.\<close>

definition built_as ::
  "rec_env \<Rightarrow> string \<Rightarrow> string \<Rightarrow> observedSource gmap \<Rightarrow> string gmap \<Rightarrow> staging gmap \<Rightarrow> gval gmap \<Rightarrow> call list \<Rightarrow>
   ManifestArtifact \<Rightarrow> ExternalArtifactReference \<Rightarrow> bool" where
  "built_as env ns tmpDir remote dirs ws data tr spec r \<longleftrightarrow> ear_name r = ma_name spec \<and> ear_namespace r = ns \<and>
     (\<exists>a. Build (rv_bld env) spec dirs data ns tmpDir ws = Inr a \<and>
        ear_digest r = af_digest (setArtifactRevisions spec remote a) \<and>
        PatchEAStatus ns (ma_name spec) (setArtifactRevisions spec remote a) \<in> set tr)"

lemma built_as_mono: "built_as env ns tmp remote dirs ws data tr spec r \<Longrightarrow> set tr \<subseteq> set tr' \<Longrightarrow>
    built_as env ns tmp remote dirs ws data tr' spec r"
  by (auto simp: built_as_def)

lemma build_one_built:
  assumes "build_one env dirs data tmp ws remote spec (refs, s) = Inr (refs', s')"
  shows "\<exists>r. refs' = refs @ [r] \<and> rs_obj s' = rs_obj s \<and> set (rs_trace s) \<subseteq> set (rs_trace s') \<and>
    built_as env (mg_namespace (rs_obj s)) tmp remote dirs ws data (rs_trace s') spec r"
  using assms
  by (auto simp: build_one_def built_as_def reconcileExternalArtifact_def Let_def
      split: sum.splits option.splits if_splits)

lemma build_all_built:
  assumes "loopE (build_one env dirs data tmp ws remote) specs (refs, s) = Inr (refs', s')"
  shows "\<exists>new. refs' = refs @ new \<and> set (rs_trace s) \<subseteq> set (rs_trace s') \<and>
    list_all2 (built_as env (mg_namespace (rs_obj s)) tmp remote dirs ws data (rs_trace s')) specs new"
  using assms
proof (induction specs arbitrary: refs s)
  case Nil
  then show ?case by simp
next
  case (Cons spec specs)
  then obtain refs1 s1 where b: "build_one env dirs data tmp ws remote spec (refs, s) = Inr (refs1, s1)"
    "loopE (build_one env dirs data tmp ws remote) specs (refs1, s1) = Inr (refs', s')"
    by (auto split: sum.splits)
  from build_one_built [OF b(1)] obtain r where r: "refs1 = refs @ [r]" "rs_obj s1 = rs_obj s"
    "set (rs_trace s) \<subseteq> set (rs_trace s1)"
    "built_as env (mg_namespace (rs_obj s)) tmp remote dirs ws data (rs_trace s1) spec r" by blast
  from Cons.IH [OF b(2)] r(2) obtain new where n: "refs' = refs1 @ new" "set (rs_trace s1) \<subseteq> set (rs_trace s')"
    "list_all2 (built_as env (mg_namespace (rs_obj s)) tmp remote dirs ws data (rs_trace s')) specs new" by auto
  from r n built_as_mono [OF r(4) n(2)] show ?case by (intro exI [of _ "r # new"]) auto
qed

lemma publish_trace: "set (rs_trace s) \<subseteq> set (rs_trace (publish env old d refs s))"
proof -
  have g: "set (rs_trace u) \<subseteq> set (rs_trace (collect_garbage refs u))" for u
    unfolding collect_garbage_def by (induction refs arbitrary: u) force+
  have f: "set (rs_trace u) \<subseteq> set (rs_trace (finalizeExternalArtifacts os u))" for os u
    using finalizeExternalArtifacts_trace [of os u] by simp
  show ?thesis using g f by (fastforce simp: publish_def notify_def Let_def)
qed

text \<open>
  What is published was built in this reconcile: after a success every entry of the new inventory
  belongs to one artifact of the spec, in order; its digest, and the status written to the
  ExternalArtifact, are those of an archive built from the sources fetched, the values resolved and
  the pipeline run in the same reconcile.
\<close>

theorem published_was_built:
  assumes "cond_ok (rv_cond env)" and "reconcile env s = (out, s')" and "succeeded env out s'"
  shows "\<exists>tmpDir remote dirs ws vals outs.
    MkdirTempAbs env = Inr tmpDir \<and> evaluated env (rs_obj s) tmpDir remote dirs ws vals outs \<and>
    list_all2 (\<lambda>spec r. ear_name r = ma_name spec \<and> ear_namespace r = mg_namespace (rs_obj s) \<and>
      (\<exists>a. Build (rv_bld env) spec dirs (template_data outs vals) (mg_namespace (rs_obj s)) tmpDir ws = Inr a \<and>
         ear_digest r = af_digest (setArtifactRevisions spec remote a) \<and>
         PatchEAStatus (mg_namespace (rs_obj s)) (ma_name spec) (setArtifactRevisions spec remote a) \<in> set (rs_trace s')))
      (sp_artifacts (mg_spec (rs_obj s))) (inventory s')"
  using assms(1,2)
proof (cases rule: reconcile_cases)
  case (published s1 tmpDir remote dirs ws vals outs refs s2)
  let ?ns = "mg_namespace (rs_obj s)" and ?data = "template_data outs vals"
  from published(1) have s1: "started env s s1" and ev: "evaluated env (rs_obj s1) tmpDir remote dirs ws vals outs"
    and tmp: "MkdirTempAbs env = Inr tmpDir" and l: "loopE (build_one env dirs ?data tmpDir ws remote)
      (sp_artifacts (mg_spec (rs_obj s1))) ([], s1) = Inr (refs, s2)" by (simp_all add: stages_def)
  from started_facts [OF s1] have o: "mg_spec (rs_obj s1) = mg_spec (rs_obj s)" "mg_namespace (rs_obj s1) = ?ns" by simp_all
  have "list_all2 (built_as env ?ns tmpDir remote dirs ws ?data (rs_trace s2)) (sp_artifacts (mg_spec (rs_obj s))) refs"
    using build_all_built [OF l] o by simp
  moreover have "set (rs_trace s2) \<subseteq> set (rs_trace s')" "inventory s' = refs"
    using publish_trace publish_facts [OF assms(1)] published(3) by auto
  ultimately have "list_all2 (built_as env ?ns tmpDir remote dirs ws ?data (rs_trace s'))
      (sp_artifacts (mg_spec (rs_obj s))) (inventory s')"
    by (auto elim!: list_all2_mono intro: built_as_mono)
  then show ?thesis using tmp ev evaluated_cong [OF o] unfolding built_as_def by blast
qed (use assms(3) in blast)

theorem published_was_built_witness:
  "\<exists>tmpDir remote dirs ws vals outs.
    MkdirTempAbs (sample_rec (sample_obj [''out''] [Finalizer] [])) = Inr tmpDir \<and>
    evaluated (sample_rec (sample_obj [''out''] [Finalizer] [])) (sample_obj [''out''] [Finalizer] [])
      tmpDir remote dirs ws vals outs \<and>
    list_all2 (\<lambda>spec r. ear_name r = ma_name spec \<and>
      (\<exists>a. Build sample_bld spec dirs (template_data outs vals) ''apps'' tmpDir ws = Inr a))
      [sample_artifact] (inventory (snd (sample_run [''out''] [])))"
proof -
  let ?obj = "sample_obj [''out''] [Finalizer] []"
  have "succeeded (sample_rec ?obj) (fst (sample_run [''out''] [])) (snd (sample_run [''out''] []))" by code_simp
  note p = published_was_built [OF sample_rec_cond sample_run_eq this]
  have z: "rv_bld (sample_rec ?obj) = sample_bld" "rs_obj (sample_state ?obj) = ?obj" "mg_namespace ?obj = ''apps''"
    "sp_artifacts (mg_spec ?obj) = [sample_artifact]"
    by (simp_all add: sample_rec_def sample_state_def sample_obj_def sample_spec_def sample_artifact_def)
  show ?thesis using p unfolding z by (elim ex_forward conj_forward) (auto elim!: list_all2_mono)
qed

text \<open>
  C4. A reconcile whose surroundings work succeeds: when the first status patch goes through, the sources
  are ready and can be fetched, the values resolve, the pipeline runs, every artifact builds and the API
  server accepts the two writes of each, then \<open>reconcile\<close> returns no error, the object is ready, and the
  next run is after the interval of the spec with the jitter of the process, which may be any function.
\<close>

theorem reconcile_succeeds:
  assumes "cond_ok (rv_cond env)" and "MkdirTempAbs env = Inr tmpDir" and "ce_patch (rv_ctl env) ''start'' = None"
    and "evaluated env (rs_obj s) tmpDir remote dirs ws vals outs"
    and "\<And>a. a \<in> set (sp_artifacts (mg_spec (rs_obj s))) \<Longrightarrow>
      is_ok (Build (rv_bld env) a dirs (template_data outs vals) (mg_namespace (rs_obj s)) tmpDir ws)"
    and "\<And>a. a \<in> set (sp_artifacts (mg_spec (rs_obj s))) \<Longrightarrow>
      rv_apply env (mg_namespace (rs_obj s)) (ma_name a) = None"
    and "\<And>a b. a \<in> set (sp_artifacts (mg_spec (rs_obj s))) \<Longrightarrow>
      rv_apply_status env (mg_namespace (rs_obj s)) (ma_name a) b = None"
  shows "let (out, s') = reconcile env s in
    succeeded env out s' \<and> fst out = rv_jitter env (GetRequeueAfter (rs_obj s)) \<and>
    map ref_id (inventory s') = artifact_ids (rs_obj s)"
proof -
  obtain e s1 where st: "patchStatus (rv_ctl env) ''start''
      (on_conds (k_mark (rv_cond env) ''Unknown'' ReadyCondition ProgressingReason)
        (on_conds (k_mark_reconciling (rv_cond env) ProgressingReason) s)) = (e, s1)" by fastforce
  have e: "e = None" using st assms(3) by (auto simp: patchStatus_def)
  from started_facts [OF started_patch [OF assms(1) st]]
  have o: "mg_spec (rs_obj s1) = mg_spec (rs_obj s)" "mg_namespace (rs_obj s1) = mg_namespace (rs_obj s)" by simp_all
  have ev: "evaluated env (rs_obj s1) tmpDir remote dirs ws vals outs" using assms(4) evaluated_cong [OF o] by simp
  let ?f = "build_one env dirs (template_data outs vals) tmpDir ws remote" and ?as = "sp_artifacts (mg_spec (rs_obj s1))"
  obtain refs s2 where l: "loopE ?f ?as ([], s1) = Inr (refs, s2)"
  proof (cases "loopE ?f ?as ([], s1)")
    case (Inl err)
    then obtain ys y zs u where f: "?as = ys @ y # zs" "loopE ?f ys ([], s1) = Inr u" "?f y u = Inl err"
      by (rule loopE_fail)
    obtain refs1 s2 where u: "u = (refs1, s2)" by (cases u)
    from build_all_Inr [OF f(2) [unfolded u]] have "rs_obj s2 = rs_obj s1" by blast
    moreover have y: "y \<in> set (sp_artifacts (mg_spec (rs_obj s)))" using f(1) o(1) by simp
    from assms(5) [OF y] obtain a where
      "Build (rv_bld env) y dirs (template_data outs vals) (mg_namespace (rs_obj s)) tmpDir ws = Inr a"
      by (auto simp: is_ok_iff)
    ultimately have False
      using f(3) o(2) assms(6,7) [OF y] by (simp add: u build_one_def reconcileExternalArtifact_def Let_def)
    then show thesis ..
  next
    case (Inr r)
    then show thesis using that by (cases r) auto
  qed
  from build_all_Inr [OF l] have b: "rs_obj s2 = rs_obj s1" "map ref_id refs = artifact_ids (rs_obj s)"
    by (auto simp: artifact_ids_def o)
  have "reconcile env s = ((rv_jitter env (GetRequeueAfter (rs_obj s2)), []),
      publish env (rs_obj s) (hashObservedSources (rv_sha256 env) remote) refs s2)"
    using ev l by (simp add: reconcile_def assms(2) st e reconcile_sources_def publish_all_def evaluated_def)
  then show ?thesis
    using publish_facts [OF assms(1), of "rs_obj s" "hashObservedSources (rv_sha256 env) remote" refs s2] b o
    by (simp add: succeeded_def GetRequeueAfter_def)
qed

theorem reconcile_succeeds_witness:
  "snd (fst (sample_run [''out''] [''old''])) = [] \<and>
   map ref_id (inventory (snd (sample_run [''out''] [''old'']))) = [(''apps'', ''out'')]"
proof -
  let ?obj = "sample_obj [''out''] [Finalizer] [''old'']"
  let ?env = "sample_rec ?obj" and ?s = "sample_state ?obj"
  have ok: "succeeded ?env (fst (sample_run [''out''] [''old''])) (snd (sample_run [''out''] [''old'']))" by code_simp
  have z: "rs_obj ?s = ?obj" "mg_namespace ?obj = ''apps''" "sp_artifacts (mg_spec ?obj) = [sample_artifact]"
    "ma_name sample_artifact = ''out''"
    by (simp_all add: sample_state_def sample_obj_def sample_spec_def sample_artifact_def)
  show ?thesis
    using sample_rec_cond [of ?obj] sample_run_eq [of "[''out'']" "[''old'']"]
  proof (cases rule: reconcile_cases)
    case (published s1 tmpDir remote dirs ws vals outs refs s2)
    from published(1) have s1: "started ?env ?s s1" and ev: "evaluated ?env (rs_obj s1) tmpDir remote dirs ws vals outs"
      and tmp: "MkdirTempAbs ?env = Inr tmpDir" and l: "loopE (build_one ?env dirs (template_data outs vals) tmpDir ws remote)
        (sp_artifacts (mg_spec (rs_obj s1))) ([], s1) = Inr (refs, s2)" by (simp_all add: stages_def)
    from started_facts [OF s1] have o: "mg_spec (rs_obj s1) = mg_spec ?obj" "mg_namespace (rs_obj s1) = mg_namespace ?obj"
      unfolding z(1) by simp_all
    have b: "is_ok (Build (rv_bld ?env) a dirs (template_data outs vals) ''apps'' tmpDir ws)"
      if "a \<in> set (sp_artifacts (mg_spec ?obj))" for a
      using build_all_built [OF l] that unfolding o z by (auto simp: built_as_def list_all2_Cons1)
    have "let (out, s') = reconcile ?env ?s in succeeded ?env out s' \<and>
        fst out = rv_jitter ?env (GetRequeueAfter (rs_obj ?s)) \<and> map ref_id (inventory s') = artifact_ids (rs_obj ?s)"
      by (rule reconcile_succeeds [OF sample_rec_cond tmp])
        (use ev [unfolded evaluated_cong [OF o]] b in \<open>simp_all add: z sample_rec_def sample_ctl_def\<close>)
    then show ?thesis
      by (simp add: sample_run_eq succeeded_def z artifact_ids_def split: prod.splits)
  qed (use ok in blast)
qed

section \<open>Sample specs\<close>

text \<open>An artifact that iterates over the step \<open>keep\<close> of the sample pipeline, and one named like its source.\<close>

definition sample_each :: ManifestArtifact where
  "sample_each = sample_artifact\<lparr>ma_revision := ''@src'', ma_originRevision := ''@src'', ma_forEach := Some \<lparr>fe_from = ''keep'', fe_as = ''item''\<rparr>\<rparr>"

definition sample_piped :: ManifestGenerator where
  "sample_piped = (sample_obj [] [Finalizer] [])\<lparr>mg_spec :=
     (sample_spec [])\<lparr>sp_pipeline := sample_pspec, sp_artifacts := [sample_each]\<rparr>\<rparr>"

lemma sample_piped_valid: "validateSpec (rv_val (sample_rec obj)) sample_piped = Inr ()"
proof -
  have "validateSpec sample_val sample_piped = Inr ()" by code_simp
  then show ?thesis by (simp add: sample_rec_def)
qed

lemma sample_piped_each: "sample_each \<in> set (sp_artifacts (mg_spec sample_piped))"
  by (simp add: sample_piped_def)

section \<open>Sources\<close>



lemma fetch_one_Inr: "fetch_one env tmp (al, src) (dirs, ws) = Inr (dirs', ws') \<Longrightarrow>
    \<exists>c. rv_fetch env (os_URL src) (os_Digest src) = Inr c \<and> dirs' = mput al (path_join tmp al) dirs \<and> ws' = mput al c ws"
  by (auto simp: fetch_one_def Let_def split: option.splits sum.splits)

definition fetched :: "rec_env \<Rightarrow> string \<Rightarrow> observedSource gmap \<Rightarrow> string gmap \<times> staging gmap \<Rightarrow> bool" where
  "fetched env tmp srcs st \<longleftrightarrow> (\<forall>al src. (al, src) \<in> set srcs \<longrightarrow>
     (\<exists>c. rv_fetch env (os_URL src) (os_Digest src) = Inr c \<and> mget (fst st) al = Some (path_join tmp al) \<and>
        mget (snd st) al = Some c)) \<and>
     (\<forall>k. mget (fst st) k \<noteq> None \<longrightarrow> k \<in> set (mkeys srcs)) \<and> (\<forall>k. mget (snd st) k \<noteq> None \<longrightarrow> k \<in> set (mkeys srcs))"

lemma fetchSources_fetched:
  assumes "fetchSources env remote tmp = Inr st" and "keys_ok remote"
  shows "fetched env tmp remote st"
proof (rule loopE_prefix [OF assms(1) [unfolded fetchSources_def], where I = "\<lambda>(ys :: (string \<times> observedSource) list) st.
    fetched env tmp ys st"])
  show "fetched env tmp [] ([], [])" by (simp add: fetched_def)
next
  fix ys :: "(string \<times> observedSource) list" and y zs u v
  assume s: "remote = ys @ y # zs" and I: "fetched env tmp ys u" and f: "fetch_one env tmp y u = Inr v"
  obtain al src where y: "y = (al, src)" by (cases y)
  from fetch_one_Inr [of env tmp al src "fst u" "snd u" "fst v" "snd v"] f y obtain c where
    c: "rv_fetch env (os_URL src) (os_Digest src) = Inr c" "fst v = mput al (path_join tmp al) (fst u)"
      "snd v = mput al c (snd u)" by auto
  have "al \<notin> fst ` set ys" using assms(2) keys_ok_distinct [of remote] unfolding s y by auto
  then have "(al, src') \<notin> set ys" for src' by force
  then show "fetched env tmp (ys @ [y]) v"
    using I c unfolding fetched_def y by (auto simp: mget_mput mkeys_def split: if_splits)
qed



section \<open>Values and pipeline of a validated spec\<close>

text \<open>Errors of an access check come from the resolver's own check only.\<close>

definition plain_errors :: "rec_env \<Rightarrow> bool" where
  "plain_errors env \<longleftrightarrow> (\<forall>ns n e. valuesReader env ns n = Inl e \<longrightarrow> \<not> as_access e) \<and>
     (\<forall>raw e. pe_yaml (ve_pipe (rv_val env)) raw = Inl e \<longrightarrow> \<not> as_access e)"

lemma placeAtPath_no_access: "placeAtPath path v = Inl e \<Longrightarrow> \<not> as_access e"
  by (auto simp: placeAtPath_def dest: check_segments_Inl split: if_splits gval.splits sum.splits)

lemma selectContent_no_access:
  "(\<And>raw e. yaml raw = Inl e \<Longrightarrow> \<not> as_access e) \<Longrightarrow> selectContent yaml cm ref = Inl e \<Longrightarrow> \<not> as_access e"
  by (auto simp: selectContent_def wrap_err_Inl split: if_splits option.splits)

lemma resolveOne_no_access:
  assumes "\<And>raw e. yaml raw = Inl e \<Longrightarrow> \<not> as_access e" and "\<And>ns n e. Reader r ns n = Inl e \<Longrightarrow> \<not> as_access e"
    and "NoCrossNamespaceRefs r \<longrightarrow> vr_namespace ref = [] \<or> vr_namespace ref = ns"
    and "resolveOne yaml r ref ns = Inl e"
  shows "\<not> as_access e"
proof -
  have m: "map_sum id f q = Inl e \<Longrightarrow> q = Inl e" for f :: "gval gmap \<Rightarrow> gval gmap option" and q
    by (cases q) auto
  let ?ns = "if vr_namespace ref = [] then ns else vr_namespace ref"
  show ?thesis
  proof (cases "Reader r ?ns (vr_name ref)")
    case (Inl err)
    then show ?thesis using assms(2-4)
      by (auto simp: resolveOne_def Let_def split: if_splits)
  next
    case (Inr cm)
    show ?thesis
    proof (cases "selectContent yaml cm ref")
      case (Inl err)
      then show ?thesis using Inr assms(3,4) selectContent_no_access [OF assms(1)]
        by (auto simp: resolveOne_def Let_def split: if_splits)
    next
      case v: (Inr v)
      then show ?thesis using Inr assms(3,4) placeAtPath_no_access m
        by (auto simp: resolveOne_def Let_def split: if_splits)
    qed
  qed
qed

lemma merge_into_no_access: "merge_into out m = Inl e \<Longrightarrow> \<not> as_access e"
  by (auto simp: merge_into_def split: gval.splits)

lemma decodeInline_no_access:
  "(\<And>raw e. yaml raw = Inl e \<Longrightarrow> \<not> as_access e) \<Longrightarrow> decodeInline yaml raw = Inl e \<Longrightarrow> \<not> as_access e"
  by (auto simp: decodeInline_def split: sum.splits gval.splits)

lemma Resolve_no_access:
  assumes yaml: "\<And>raw e. yaml raw = Inl e \<Longrightarrow> \<not> as_access e"
    and reader: "\<And>ns n e. Reader r ns n = Inl e \<Longrightarrow> \<not> as_access e"
    and refs: "\<And>ref. ref \<in> set (sp_valuesFrom (mg_spec obj)) \<Longrightarrow> NoCrossNamespaceRefs r \<longrightarrow>
      vr_namespace ref = [] \<or> vr_namespace ref = mg_namespace obj"
    and "Resolve yaml r obj = Inl e"
  shows "\<not> as_access e"
proof (cases "loopE (resolve_body yaml r (mg_namespace obj)) (enumerate 0 (sp_valuesFrom (mg_spec obj))) []")
  case (Inl err)
  from loopE_Inl [OF Inl] obtain i ref u where
    ir: "(i, ref) \<in> set (enumerate 0 (sp_valuesFrom (mg_spec obj)))"
      "resolve_body yaml r (mg_namespace obj) (i, ref) u = Inl err" by auto
  have "ref \<in> set (sp_valuesFrom (mg_spec obj))" using ir(1) by (rule set_enumerate_snd)
  then have "\<not> as_access err" using ir(2) resolveOne_no_access [OF yaml reader refs] merge_into_no_access
    by (auto simp: resolve_body_def split: sum.splits option.splits)
  then show ?thesis using Inl assms(4) by (simp add: Resolve_def)
next
  case (Inr out)
  then show ?thesis using assms(4) merge_into_no_access decodeInline_no_access [OF yaml]
    by (auto simp: Resolve_def split: option.splits sum.splits if_splits)
qed

text \<open>
  C23. Admission settles access and compilation: for a spec that passed validation, resolving the values
  never ends in an access error, as long as neither the API reader nor the decoder makes one up, and the
  pipeline always compiles, so that a pipeline error is an error of its evaluation.
\<close>

theorem validated_spec_errors:
  assumes "validateSpec (rv_val env) obj = Inr ()" and "plain_errors env"
  shows "(\<forall>e. resolveValues env obj = Inl e \<longrightarrow> \<not> as_access e) \<and>
    (\<forall>sources vals e. runPipeline env obj sources vals = Inl e \<longrightarrow> (\<exists>e'. e = Wrapf ''evaluate: %w'' [] e'))"
proof (intro conjI allI impI)
  fix e
  let ?yaml = "pe_yaml (ve_pipe (rv_val env))"
  let ?r = "NewResolver (valuesReader env) (ve_noCrossNamespaceRefs (rv_val env))"
  assume "resolveValues env obj = Inl e"
  then have "Resolve ?yaml ?r obj = Inl e" by (simp add: resolveValues_def split: if_splits)
  then show "\<not> as_access e"
    by (rule Resolve_no_access [rotated 3])
      (use assms(2) validated_refs [OF assms(1)] in \<open>auto simp: plain_errors_def local_ref_def\<close>)
next
  fix sources vals e
  assume e: "runPipeline env obj sources vals = Inl e"
  let ?al = "fold (\<lambda>src. mput (sr_alias src) True) (sp_sources (mg_spec obj)) []"
  have al: "?al = mset_of (spec_aliases obj)"
    unfolding mset_of_def spec_aliases_def by (rule fold_map_true)
  have ne: "sp_pipeline (mg_spec obj) \<noteq> []" using e by (auto simp: runPipeline_def)
  then obtain ev where "Compile (ve_pipe (rv_val env)) (sp_pipeline (mg_spec obj)) ?al = Inr ev"
    using validated_pipeline [OF assms(1)] unfolding al by (auto simp: is_ok_iff)
  then show "\<exists>e'. e = Wrapf ''evaluate: %w'' [] e'"
    using e ne by (auto simp: runPipeline_def Let_def wrap_err_Inl)
qed

theorem validated_spec_errors_witness:
  "\<exists>e. runPipeline (sample_rec sample_piped) sample_piped [] [] = Inl (Wrapf ''evaluate: %w'' [] e)"
proof -
  have p: "plain_errors (sample_rec sample_piped)"
    by (simp add: plain_errors_def valuesReader_def sample_rec_def sample_val_def sample_pipe_def sample_decoder_def)
  have "is_ok (runPipeline (sample_rec sample_piped) sample_piped [] []) = False" by code_simp
  then obtain e where e: "runPipeline (sample_rec sample_piped) sample_piped [] [] = Inl e"
    by (cases "runPipeline (sample_rec sample_piped) sample_piped [] []") auto
  with validated_spec_errors [OF sample_piped_valid p] show ?thesis by blast
qed

lemma runPipeline_keys:
  assumes "runPipeline env obj sources vals = Inr outs"
  shows "keys_ok outs \<and> set (mkeys outs) = set (map ps_name (sp_pipeline (mg_spec obj))) \<and> mget outs ValuesKey = None"
proof (cases "sp_pipeline (mg_spec obj) = []")
  case False
  let ?env = "ve_pipe (rv_val env)"
  from assms False obtain ev al where c: "Compile ?env (sp_pipeline (mg_spec obj)) al = Inr ev"
    and r: "Run ?env ev sources vals = Inr outs"
    by (auto simp: runPipeline_def Let_def split: sum.splits)
  from r obtain sc where sc: "outs = Outputs sc" "loopE (run_step (pe_ctx ?env) Step_Name (Step_Eval ?env)) ev
      \<lparr>Sources = sources, Values = vals, Outputs = []\<rparr> = Inr sc"
    by (auto simp: Run_def map_sum_def split: sum.splits)
  have k: "keys_ok outs \<and> set (mkeys outs) = Step_Name ` set ev" using verbs.run_keys [OF sc(2)] sc(1) by simp
  have "map Step_Name ev = map ps_name (sp_pipeline (mg_spec obj))" "ValuesKey \<notin> set (map Step_Name ev)"
    using Compile_ok [OF c] unfolding steps_ok_def by blast+
  then show ?thesis using k by (metis list.set_map mget_None_iff)
qed (use assms in \<open>simp add: runPipeline_def\<close>)

lemma mget_template_data:
  assumes "keys_ok outs" and "mget outs ValuesKey = None"
  shows "mget (template_data outs vals) k = (if k = ValuesKey then Some (VMap vals) else mget outs k)"
  using assms by (simp add: template_data_def mget_mput mget_copy_into keys_ok_copy_into split: option.split)

lemma iteration_bindings:
  assumes "buildIterations a data = Inr its" and "it \<in> set its" and "ma_forEach a = Some fe"
  shows "\<exists>b. it_bindings it = mput (fe_as fe) b []"
  using assms
  by (auto simp: buildIterations_def index_iteration_def key_iteration_def split: option.splits gval.splits)

text \<open>
  C25. The scope of a template in a validated spec: after a successful pipeline run, the step that \<open>forEach\<close>
  iterates over has an output, so the iteration never fails on a missing name; in every iteration
  \<open>.values\<close> is the resolved tree, which no step and no binding can hide, and the outputs of the steps
  are visible except under the name that \<open>forEach\<close> binds.
\<close>

theorem validated_template_scope:
  assumes "validateSpec (rv_val env) obj = Inr ()" and "runPipeline env obj sources vals = Inr outs"
    and "a \<in> set (sp_artifacts (mg_spec obj))" and "ma_forEach a = Some fe"
  shows "mget (template_data outs vals) (fe_from fe) \<noteq> None \<and>
    (\<forall>its it k. buildIterations a (template_data outs vals) = Inr its \<longrightarrow> it \<in> set its \<longrightarrow> k \<noteq> fe_as fe \<longrightarrow>
       mget (overlayData (template_data outs vals) (it_bindings it)) ValuesKey = Some (VMap vals) \<and>
       (k \<noteq> ValuesKey \<longrightarrow> mget (overlayData (template_data outs vals) (it_bindings it)) k = mget outs k))"
proof -
  have o: "keys_ok outs" "set (mkeys outs) = set (map ps_name (sp_pipeline (mg_spec obj)))" "mget outs ValuesKey = None"
    using runPipeline_keys [OF assms(2)] by simp_all
  have v: "fe_from fe \<in> set (map ps_name (sp_pipeline (mg_spec obj)))" "fe_as fe \<noteq> ValuesKey"
    using validated_artifact [OF assms(1,3)] assms(4) by (simp_all add: artifact_valid_def)
  have d: "mget (template_data outs vals) k = (if k = ValuesKey then Some (VMap vals) else mget outs k)" for k
    by (rule mget_template_data [OF o(1,3)])
  have kd: "keys_ok (template_data outs vals)"
    by (simp add: template_data_def keys_ok_mput keys_ok_copy_into)
  have "mget outs (fe_from fe) \<noteq> None" using v(1) o(2) by (simp add: mget_None_iff)
  then have "mget (template_data outs vals) (fe_from fe) \<noteq> None" by (simp add: d)
  moreover have "mget (overlayData (template_data outs vals) (it_bindings it)) k = mget (template_data outs vals) k"
    if "buildIterations a (template_data outs vals) = Inr its" "it \<in> set its" "k \<noteq> fe_as fe" for its it k
  proof -
    from iteration_bindings [OF that(1,2) assms(4)] obtain b where "it_bindings it = mput (fe_as fe) b []" ..
    then show ?thesis using that(3) by (simp add: mget_overlayData [OF kd] keys_ok_mput mget_mput)
  qed
  ultimately show ?thesis using v(2) d by simp
qed

theorem validated_template_scope_witness:
  "mget (template_data sample_outs [(''v'', VNil)]) ''keep'' \<noteq> None"
proof -
  have r: "runPipeline (sample_rec sample_piped) sample_piped [(''src'', ''/s'')] [(''v'', VNil)] = Inr sample_outs"
    by code_simp
  have f: "ma_forEach sample_each = Some \<lparr>fe_from = ''keep'', fe_as = ''item''\<rparr>" by (simp add: sample_each_def)
  from validated_template_scope [OF sample_piped_valid r sample_piped_each f] show ?thesis by simp
qed

section \<open>The alias that leaks\<close>

text \<open>
  C11. An artifact that carries the name of a source alias publishes the source: the staging directory of
  the build is then the directory the source was fetched into, so every file of the source that no
  template overwrites and that the default ignore patterns of the storage do not match ends up in the archive.
\<close>

theorem alias_named_artifact_leaks_source:
  assumes "fetchSources env remote tmpDir = Inr (dirs, ws)" and "keys_ok remote" and "(al, src) \<in> set remote"
    and "rv_fetch env (os_URL src) (os_Digest src) = Inr content" and "tree_ok content"
    and "mget content p = Some (NFile d m)" and "ma_name spec = al"
    and "Build_stored (rv_bld env) spec dirs data ns tmpDir ws = Inr (a, ar)" and "archive_ok (rv_bld env)"
    and "\<And>t data'. t \<in> set (ma_templates spec) \<Longrightarrow> renderDestPath (rv_bld env) (ts_to t) data' \<noteq> Inr p"
    and "\<not> be_SourceIgnoreFilter (rv_bld env) [] [] (path_join (path_join tmpDir al) p) False"
  shows "Build (rv_bld env) spec dirs data ns tmpDir ws = Inr a \<and> mget ar p = Some d"
proof -
  have "mget ws (ma_name spec) = Some content"
    using fetchSources_fetched [OF assms(1,2)] assms(3,4,7) unfolding fetched_def by fastforce
  from Build_keeps_foreign_files [OF assms(8,9) this assms(5,6,10)] assms(7,8,11) show ?thesis
    by (simp add: Build_def)
qed

theorem alias_named_artifact_leaks_source_witness:
  "validateSpec sample_val (sample_obj [''src''] [] []) = Inr () \<and>
   (\<exists>a ar. Build_stored sample_bld (sample_artifact\<lparr>ma_name := ''src''\<rparr>) [(''src'', ''/tmp/w/src'')] [] ''apps'' ''/tmp/w''
      [(''src'', [(''cfg.yaml'', NFile ''x: 1'' 420)])] = Inr (a, ar) \<and> mget ar ''cfg.yaml'' = Some ''x: 1'')"
proof -
  let ?obj = "sample_obj [''src''] [] []" let ?env = "sample_rec ?obj" let ?spec = "sample_artifact\<lparr>ma_name := ''src''\<rparr>"
  let ?src = "\<lparr>os_Digest = ''d'', os_Revision = ''r'', os_URL = ''u'', os_OriginRevision = []\<rparr>"
  let ?content = "[(''cfg.yaml'', NFile ''x: 1'' 420)]"
  have v: "validateSpec sample_val ?obj = Inr ()" by code_simp
  have f: "fetchSources ?env [(''src'', ?src)] ''/tmp/w'' = Inr ([(''src'', ''/tmp/w/src'')], [(''src'', ?content)])" by code_simp
  have "is_ok (Build_stored sample_bld ?spec [(''src'', ''/tmp/w/src'')] [] ''apps'' ''/tmp/w'' [(''src'', ?content)])" by code_simp
  then obtain a ar where st: "Build_stored sample_bld ?spec [(''src'', ''/tmp/w/src'')] [] ''apps'' ''/tmp/w'' [(''src'', ?content)] = Inr (a, ar)"
    by (auto simp: is_ok_iff)
  then have b: "Build_stored (rv_bld ?env) ?spec [(''src'', ''/tmp/w/src'')] [] ''apps'' ''/tmp/w'' [(''src'', ?content)] = Inr (a, ar)"
    by (simp add: sample_rec_def)
  have be: "rv_bld ?env = sample_bld" by (simp add: sample_rec_def)
  have ign: "\<not> be_SourceIgnoreFilter (rv_bld ?env) [] [] (path_join (path_join ''/tmp/w'' ''src'') ''cfg.yaml'') False"
    unfolding be by code_simp
  have i: "inside ''cfg.yaml''" "path_dir ''cfg.yaml'' = ''.''" by (code_simp+)
  have tr: "tree_ok ?content" using i by (auto simp: tree_ok_def root_is_dir_def)
  have t: "renderDestPath (rv_bld ?env) (ts_to t) data' \<noteq> Inr ''cfg.yaml''" if "t \<in> set (ma_templates ?spec)" for t data'
  proof -
    have x: "ts_to t = ''@artifact/out.yaml''" using that by (simp add: sample_artifact_def)
    have e: "has_prefix ''@artifact/out.yaml'' artifactRefPrefix" "trim_prefix ''@artifact/out.yaml'' artifactRefPrefix = ''out.yaml''"
      "clean (trim_space ''out.yaml'') = ''out.yaml''" by (code_simp+)
    have en: "Render sample_tmpl 3 n ''out.yaml'' data' no_options = Inr ''out.yaml''" for n
    proof -
      have p: "parse_all sample_tmpl names n ''out.yaml'' no_options = Inr [(n, ''out.yaml'')]" for names
        by (simp add: parse_all_def no_options_def sample_tmpl_def has_prefix_def add_trees_def add_tree_def)
      show ?thesis by (simp add: Render_def p numeral_3_eq_3) (simp add: sample_tmpl_def)
    qed
    have be: "be_engine (rv_bld ?env) = Render sample_tmpl 3" by (simp add: sample_rec_def sample_bld_def)
    show ?thesis using en e unfolding x renderDestPath_def be by (simp add: Let_def split: if_splits)
  qed
  have ft: "rv_fetch ?env (os_URL ?src) (os_Digest ?src) = Inr ?content" by (simp add: sample_rec_def)
  have ok: "archive_ok (rv_bld ?env)" unfolding be by (rule sample_archive_ok)
  have "Build (rv_bld ?env) ?spec [(''src'', ''/tmp/w/src'')] [] ''apps'' ''/tmp/w'' [(''src'', ?content)] = Inr a \<and>
      mget ar ''cfg.yaml'' = Some ''x: 1''"
    by (rule alias_named_artifact_leaks_source [OF f _ _ ft tr _ _ b ok t ign]) simp_all
  with v st show ?thesis by blast
qed

text \<open>Every kind of source a spec can name is observed by the reconciler and watched, and no other kind.\<close>

theorem watched_kinds:
  "set (map w_kind (filter (\<lambda>w. w_handler w = SourceHandler) controller_watches)) = set source_kinds"
  by (simp add: controller_watches_def watch_source_def source_kinds_def)

end
